(* ===== verification/Prelude.thy ===== *)
theory Prelude
  imports Main
begin

text \<open>
  Shared vocabulary of the development: C values and arrays, C strings, the decimal
  conversion of \<^verbatim>\<open>printf\<close>, error values, reachability of step relations and the
  locale through which every component's invariant is lifted to its reachable states.
  Bytes and characters of the program are values of \<^typ>\<open>char\<close>; C's \<^verbatim>\<open>int\<close> is
  \<^typ>\<open>int\<close> wherever a bound of the values is proved, a word otherwise.
\<close>

named_theorems arr_simps \<open>updates and look-ups of C arrays\<close>
named_theorems cstr_simps \<open>NUL-terminated strings\<close>

section \<open>Failures\<close>

text \<open>
  What ends a C function abnormally: an access outside an array (undefined behaviour, the
  model stops there), a dereferenced pointer that is null or whose memory was given back, or
  \<^verbatim>\<open>exit\<close> with a status. Reading a variable nothing was stored in is undefined behaviour as well.
\<close>

datatype fault = OutOfBounds | NullDeref | UseAfterFree | Uninit | Exit int

section \<open>C arrays\<close>

text \<open>An array is a list; its index is a C integer, and an index outside it is a fault.\<close>

definition in_bounds :: "'a list \<Rightarrow> int \<Rightarrow> bool" where
  "in_bounds xs i \<longleftrightarrow> 0 \<le> i \<and> i < int (length xs)"

definition aget :: "'a list \<Rightarrow> int \<Rightarrow> fault + 'a" where
  "aget xs i = (if in_bounds xs i then Inr (xs ! nat i) else Inl OutOfBounds)"

definition aput :: "'a list \<Rightarrow> int \<Rightarrow> 'a \<Rightarrow> fault + 'a list" where
  "aput xs i v = (if in_bounds xs i then Inr (xs[nat i := v]) else Inl OutOfBounds)"

lemma in_bounds_of_nat [arr_simps, simp]: "in_bounds xs (int n) \<longleftrightarrow> n < length xs"
  by (simp add: in_bounds_def)

lemma aget_Inr_iff [arr_simps]: "aget xs i = Inr v \<longleftrightarrow> in_bounds xs i \<and> v = xs ! nat i"
  by (auto simp: aget_def)

lemma aput_Inr_iff [arr_simps]: "aput xs i v = Inr ys \<longleftrightarrow> in_bounds xs i \<and> ys = xs[nat i := v]"
  by (auto simp: aput_def)

lemma aget_aput_same: "aput xs i v = Inr ys \<Longrightarrow> aget ys i = Inr v"
  by (auto simp: aput_def aget_def in_bounds_def split: if_splits)

text \<open>A record in an array, updated in one field, keeps the others.\<close>

lemma nth_update_field [arr_simps]: "f v = f (xs ! p) \<Longrightarrow> f (xs[p := v] ! q) = f (xs ! q)"
  by (cases "p < length xs") (auto simp: nth_list_update list_update_beyond)

lemma replicate_update [simp, arr_simps]: "(replicate n x)[i := x] = replicate n x"
  by (induction n arbitrary: i) (auto split: nat.splits)

text \<open>Writing a block of bytes at an offset, as \<^verbatim>\<open>memcpy\<close> and its kernel variants do.\<close>

definition blit :: "'a list \<Rightarrow> nat \<Rightarrow> 'a list \<Rightarrow> 'a list" where
  "blit dst off src = take off dst @ src @ drop (off + length src) dst"

lemma length_blit [simp]:
  "off + length src \<le> length dst \<Longrightarrow> length (blit dst off src) = length dst"
  by (simp add: blit_def)

lemma take_blit [simp]: "off \<le> length dst \<Longrightarrow> take off (blit dst off src) = take off dst"
  by (simp add: blit_def)

lemma take_blit_end:
  "off \<le> length dst \<Longrightarrow> take (off + length src) (blit dst off src) = take off dst @ src"
  by (simp add: blit_def)

lemma drop_blit [simp]:
  "off \<le> length dst \<Longrightarrow> drop (off + length src) (blit dst off src) = drop (off + length src) dst"
  by (simp add: blit_def)

section \<open>C strings\<close>

abbreviation NUL :: char where "NUL \<equiv> CHR 0x00"

definition newline :: string where "newline = [CHR 0x0A]"

text \<open>The string a pointer to these bytes denotes: everything before the first NUL.\<close>

definition cstr :: "char list \<Rightarrow> string" where
  "cstr bs = takeWhile (\<lambda>b. b \<noteq> NUL) bs"

definition no_nul :: "string \<Rightarrow> bool" where
  "no_nul s \<longleftrightarrow> NUL \<notin> set s"

lemma cstr_terminated [cstr_simps]: "no_nul s \<Longrightarrow> cstr (s @ NUL # rest) = s"
  unfolding cstr_def no_nul_def by (induction s) auto

lemma no_nul_cstr [cstr_simps, simp]: "no_nul (cstr bs)"
  by (auto simp: cstr_def no_nul_def dest: set_takeWhileD)

lemma cstr_id [cstr_simps]: "no_nul s \<Longrightarrow> cstr s = s"
  by (auto simp: cstr_def no_nul_def takeWhile_eq_all_conv)

lemma length_cstr: "length (cstr bs) \<le> length bs"
  by (simp add: cstr_def length_takeWhile_le)

section \<open>Decimal conversion\<close>

fun digits :: "nat \<Rightarrow> string" where
  "digits n = (if n < 10 then [char_of (48 + n)] else digits (n div 10) @ [char_of (48 + n mod 10)])"

declare digits.simps [simp del]

text \<open>\<^verbatim>\<open>%d\<close>\<close>

definition fmt_d :: "int \<Rightarrow> string" where
  "fmt_d i = (if i < 0 then ''-'' @ digits (nat (- i)) else digits (nat i))"

lemma digits_not_Nil: "digits n \<noteq> []"
  by (subst digits.simps) simp

lemma digit_eval [simp]:
  "char_of (48 :: nat) = CHR ''0''"
  "char_of (49 :: nat) = CHR ''1''"
  "char_of (50 :: nat) = CHR ''2''"
  "char_of (51 :: nat) = CHR ''3''"
  "char_of (52 :: nat) = CHR ''4''"
  "char_of (53 :: nat) = CHR ''5''"
  "char_of (54 :: nat) = CHR ''6''"
  "char_of (55 :: nat) = CHR ''7''"
  "char_of (56 :: nat) = CHR ''8''"
  "char_of (57 :: nat) = CHR ''9''"
  by (simp_all add: char_of_def bit_0)

lemma digit_char: "n < 10 \<Longrightarrow> of_char (char_of (48 + n) :: char) = 48 + n" for n :: nat
  by simp

lemma digits_chars: "set (digits n) \<subseteq> {x. 48 \<le> (of_char x :: nat) \<and> (of_char x :: nat) \<le> 57}"
proof (induction n rule: digits.induct)
  case (1 n)
  show ?case
    using 1 digit_char [of n] digit_char [of "n mod 10"]
    by (subst digits.simps) (auto split: if_splits)
qed

lemma digits_no_nul [cstr_simps]: "no_nul (digits n)"
  using digits_chars [of n] by (auto simp: no_nul_def)

lemma length_digits: "n < 10 ^ k \<Longrightarrow> 0 < k \<Longrightarrow> length (digits n) \<le> k"
proof (induction n arbitrary: k rule: digits.induct)
  case (1 n)
  show ?case
  proof (cases "n < 10")
    case True
    with "1.prems" show ?thesis by (subst digits.simps) simp
  next
    case False
    then obtain j where k: "k = Suc j" and "0 < j"
      using "1.prems" by (cases k; cases "k - 1") auto
    with "1.prems" have "n div 10 < 10 ^ j" by (simp add: less_mult_imp_div_less mult.commute)
    with "1.IH" [OF False] \<open>0 < j\<close> k False show ?thesis by (subst digits.simps) simp
  qed
qed

text \<open>C's integer division truncates towards zero.\<close>

definition c_div :: "int \<Rightarrow> int \<Rightarrow> int" where
  "c_div a b = sgn a * sgn b * (\<bar>a\<bar> div \<bar>b\<bar>)"

lemma c_div_nonneg: "0 \<le> a \<Longrightarrow> 0 < b \<Longrightarrow> c_div a b = a div b"
  by (cases "a = 0") (auto simp: c_div_def sgn_if)

section \<open>Reachable states and invariants\<close>

inductive reachable :: "('s \<Rightarrow> bool) \<Rightarrow> ('s \<Rightarrow> 's \<Rightarrow> bool) \<Rightarrow> 's \<Rightarrow> bool"
  for init :: "'s \<Rightarrow> bool" and step :: "'s \<Rightarrow> 's \<Rightarrow> bool" where
  reach_init: "init s \<Longrightarrow> reachable init step s"
| reach_step: "reachable init step s \<Longrightarrow> step s t \<Longrightarrow> reachable init step t"

text \<open>
  The contract of a component that runs as a step relation: its invariant holds at the start
  and is kept by every step.
\<close>

locale step_invariant =
  fixes init :: "'s \<Rightarrow> bool" and step :: "'s \<Rightarrow> 's \<Rightarrow> bool" and inv :: "'s \<Rightarrow> bool"
  assumes init_inv: "init s \<Longrightarrow> inv s"
    and step_inv: "inv s \<Longrightarrow> step s t \<Longrightarrow> inv t"
begin

lemma reachable_inv: "reachable init step s \<Longrightarrow> inv s"
  by (induction rule: reachable.induct) (auto intro: init_inv step_inv)

lemma steps_inv: "step\<^sup>*\<^sup>* s t \<Longrightarrow> inv s \<Longrightarrow> inv t"
  by (induction rule: rtranclp_induct) (auto intro: step_inv)

end

lemma reachable_steps: "step\<^sup>*\<^sup>* s t \<Longrightarrow> reachable init step s \<Longrightarrow> reachable init step t"
  by (induction rule: rtranclp_induct) (auto intro: reach_step)

end
