(* ===== verification/Bakery_RPC.thy ===== *)
theory Bakery_RPC
  imports Prelude
begin

text \<open>
  What both bakery programs share of the remote-procedure layer (\<^verbatim>\<open>bakery.h\<close>,
  \<^verbatim>\<open>bakery_xdr.c\<close>, \<^verbatim>\<open>bakery_clnt.c\<close>, \<^verbatim>\<open>bakery_svc.c\<close>): the message, its serialisation over
  the library's primitives, the client stubs and the server's dispatch function. The RPC
  library itself (\<^verbatim>\<open>xdr_int\<close>, \<^verbatim>\<open>clnt_call\<close>, \<^verbatim>\<open>svc_getargs\<close> and so on) is a parameter.
\<close>

section \<open>The message and its serialisation\<close>

record BAKERY =
  bk_num :: int
  bk_pid :: int
  bk_res :: int

definition BAKERY_zero :: BAKERY where
  "BAKERY_zero = \<lparr>bk_num = 0, bk_pid = 0, bk_res = 0\<rparr>"

text \<open>
  An XDR routine works on a stream handle and the field it encodes or decodes; it returns
  whether it succeeded, the handle and the field afterwards.
\<close>

type_synonym 'x xdrproc = "'x \<Rightarrow> int \<Rightarrow> bool \<times> 'x \<times> int"

definition xdr_BAKERY ::
  "'x xdrproc \<Rightarrow> 'x xdrproc \<Rightarrow> 'x \<Rightarrow> BAKERY \<Rightarrow> bool \<times> 'x \<times> BAKERY" where
  "xdr_BAKERY xdr_int xdr_char x b =
     (case xdr_int x (bk_num b) of (ok, x, n) \<Rightarrow>
      if \<not> ok then (False, x, b\<lparr>bk_num := n\<rparr>) else
      case xdr_int x (bk_pid b) of (ok, x, p) \<Rightarrow>
      if \<not> ok then (False, x, b\<lparr>bk_num := n, bk_pid := p\<rparr>) else
      case xdr_char x (bk_res b) of (ok, x, r) \<Rightarrow>
      if \<not> ok then (False, x, b\<lparr>bk_num := n, bk_pid := p, bk_res := r\<rparr>)
      else (True, x, b\<lparr>bk_num := n, bk_pid := p, bk_res := r\<rparr>))"

text \<open>
  The documented behaviour of a primitive on the values it can represent: on an encoding
  handle it appends the value's bytes, on a decoding handle it takes them off again.
\<close>

definition xdr_codec :: "(char list \<Rightarrow> 'x) \<Rightarrow> (char list \<Rightarrow> 'x) \<Rightarrow> 'x xdrproc \<Rightarrow> int set \<Rightarrow> bool" where
  "xdr_codec enc dec proc V \<longleftrightarrow>
     (\<forall>v\<in>V. \<exists>bs. (\<forall>out. proc (enc out) v = (True, enc (out @ bs), v)) \<and>
       (\<forall>rest u. proc (dec (bs @ rest)) u = (True, dec rest, v)))"

lemma xdr_codecD:
  assumes "xdr_codec enc dec proc V" "v \<in> V"
  obtains bs where "\<And>out. proc (enc out) v = (True, enc (out @ bs), v)"
    and "\<And>rest u. proc (dec (bs @ rest)) u = (True, dec rest, v)"
  using assms unfolding xdr_codec_def by blast

abbreviation int32 :: "int set" where "int32 \<equiv> {- (2 ^ 31) ..< 2 ^ 31}"
abbreviation char8 :: "int set" where "char8 \<equiv> {- 128 ..< 128}"

definition representable :: "BAKERY \<Rightarrow> bool" where
  "representable b \<longleftrightarrow> bk_num b \<in> int32 \<and> bk_pid b \<in> int32 \<and> bk_res b \<in> char8"

text \<open>A concrete primitive: an integer as four bytes, most significant first.\<close>

datatype stream = XDR_ENCODE "char list" | XDR_DECODE "char list"

definition be32 :: "int \<Rightarrow> char list" where
  "be32 v = map (\<lambda>i. char_of ((v mod 2 ^ 32) div 256 ^ i)) [3, 2, 1, 0]"

definition un_be32 :: "char list \<Rightarrow> int" where
  "un_be32 bs = (let u = foldl (\<lambda>a b. 256 * a + of_char b) 0 bs in if u < 2 ^ 31 then u else u - 2 ^ 32)"

fun xdr_prim :: "stream xdrproc" where
  "xdr_prim (XDR_ENCODE out) v = (True, XDR_ENCODE (out @ be32 v), v)"
| "xdr_prim (XDR_DECODE inp) v =
     (if length inp < 4 then (False, XDR_DECODE inp, v)
      else (True, XDR_DECODE (drop 4 inp), un_be32 (take 4 inp)))"

lemma bytes32:
  fixes u :: int
  assumes "0 \<le> u" "u < 2 ^ 32"
  shows "256 * (256 * (256 * (u div 256 ^ 3 mod 256) + u div 256 ^ 2 mod 256) + u div 256 mod 256)
      + u mod 256 = u"
proof -
  have d: "u div 256 ^ 2 = u div 256 div 256" "u div 256 ^ 3 = u div 256 div 256 div 256"
    by (simp_all flip: zdiv_zmult2_eq)
  have "u div 256 div 256 div 256 < 256" "0 \<le> u div 256 div 256 div 256"
    using assms by (simp_all flip: zdiv_zmult2_eq add: div_less_iff_less_mult)
  then have "u div 256 div 256 div 256 mod 256 = u div 256 div 256 div 256" by simp
  then show ?thesis by (simp only: d mult_div_mod_eq)
qed

lemma un_be32_be32:
  assumes "v \<in> int32"
  shows "un_be32 (be32 v) = v"
proof -
  let ?u = "v mod 2 ^ 32"
  have "foldl (\<lambda>a b. 256 * a + of_char b) 0 (be32 v) =
      256 * (256 * (256 * (?u div 256 ^ 3 mod 256) + ?u div 256 ^ 2 mod 256) + ?u div 256 mod 256)
        + ?u mod 256"
    by (simp add: be32_def)
  moreover have "0 \<le> ?u" "?u < 2 ^ 32" by simp_all
  ultimately have u: "foldl (\<lambda>a b. 256 * a + of_char b) 0 (be32 v) = ?u"
    by (simp only: bytes32)
  show ?thesis
  proof (cases "0 \<le> v")
    case True
    with assms have "?u = v" by simp
    with True assms u show ?thesis by (simp add: un_be32_def Let_def)
  next
    case False
    with assms have "(v + 2 ^ 32) mod 2 ^ 32 = v + 2 ^ 32" by (intro mod_pos_pos_trivial) auto
    then have "?u = v + 2 ^ 32" by (simp only: mod_add_self2)
    with False assms u show ?thesis by (simp add: un_be32_def Let_def)
  qed
qed

lemma xdr_prim_codec: "V \<subseteq> int32 \<Longrightarrow> xdr_codec XDR_ENCODE XDR_DECODE xdr_prim V"
  unfolding xdr_codec_def
proof (intro ballI exI conjI allI)
  fix v out rest :: "_" and u assume "V \<subseteq> int32" "v \<in> V"
  then show "xdr_prim (XDR_DECODE (be32 v @ rest)) u = (True, XDR_DECODE rest, v)"
    using un_be32_be32 [of v] by (auto simp: be32_def)
qed simp

text \<open>What a message becomes on the wire, and that it is read back, for any primitives that are codecs.\<close>

lemma xdr_BAKERY_wire:
  assumes "xdr_codec enc dec xdr_int int32" and "xdr_codec enc dec xdr_char char8"
    and "representable b"
  obtains bs where "xdr_BAKERY xdr_int xdr_char (enc []) b = (True, enc bs, b)"
    and "\<And>rest b'. xdr_BAKERY xdr_int xdr_char (dec (bs @ rest)) b' = (True, dec rest, b)"
proof -
  have r: "bk_num b \<in> int32" "bk_pid b \<in> int32" "bk_res b \<in> char8"
    using assms(3) by (auto simp: representable_def)
  obtain ns where n: "\<And>out. xdr_int (enc out) (bk_num b) = (True, enc (out @ ns), bk_num b)"
      "\<And>rest u. xdr_int (dec (ns @ rest)) u = (True, dec rest, bk_num b)"
    by (rule xdr_codecD [OF assms(1) r(1)]) blast
  obtain ps where p: "\<And>out. xdr_int (enc out) (bk_pid b) = (True, enc (out @ ps), bk_pid b)"
      "\<And>rest u. xdr_int (dec (ps @ rest)) u = (True, dec rest, bk_pid b)"
    by (rule xdr_codecD [OF assms(1) r(2)]) blast
  obtain rs where q: "\<And>out. xdr_char (enc out) (bk_res b) = (True, enc (out @ rs), bk_res b)"
      "\<And>rest u. xdr_char (dec (rs @ rest)) u = (True, dec rest, bk_res b)"
    by (rule xdr_codecD [OF assms(2) r(3)]) blast
  show thesis
  proof (rule that)
    show "xdr_BAKERY xdr_int xdr_char (enc []) b = (True, enc (ns @ ps @ rs), b)"
      using n p q by (simp add: xdr_BAKERY_def)
    show "xdr_BAKERY xdr_int xdr_char (dec ((ns @ ps @ rs) @ rest)) b' = (True, dec rest, b)" for rest b'
      using n p q by (simp add: xdr_BAKERY_def)
  qed
qed

text \<open>
  C33: round trip. Whatever the library's primitives are, as long as each decodes what it
  encoded, a message written by \<^verbatim>\<open>xdr_BAKERY\<close> is read back unchanged by \<^verbatim>\<open>xdr_BAKERY\<close>.
\<close>

theorem xdr_BAKERY_roundtrip:
  assumes "xdr_codec enc dec xdr_int int32" and "xdr_codec enc dec xdr_char char8"
    and "representable b"
  shows "\<exists>bs. xdr_BAKERY xdr_int xdr_char (enc []) b = (True, enc bs, b) \<and>
    xdr_BAKERY xdr_int xdr_char (dec (bs @ rest)) b' = (True, dec rest, b)"
  by (rule xdr_BAKERY_wire [OF assms]) blast

theorem xdr_BAKERY_roundtrip_witness:
  "\<exists>bs. xdr_BAKERY xdr_prim xdr_prim (XDR_ENCODE []) \<lparr>bk_num = 2, bk_pid = 1, bk_res = 97\<rparr> =
      (True, XDR_ENCODE bs, \<lparr>bk_num = 2, bk_pid = 1, bk_res = 97\<rparr>) \<and>
    xdr_BAKERY xdr_prim xdr_prim (XDR_DECODE (bs @ [])) BAKERY_zero =
      (True, XDR_DECODE [], \<lparr>bk_num = 2, bk_pid = 1, bk_res = 97\<rparr>)"
  by (rule xdr_BAKERY_roundtrip)
     (auto intro: xdr_prim_codec simp: representable_def)

section \<open>Client stubs\<close>

text \<open>The numbers of \<^verbatim>\<open>bakery.h\<close>; in the single-threaded program the service is procedure 2.\<close>

definition BAKERY_PROG :: int where "BAKERY_PROG = 0x20000001"
definition BAKERY_VER :: int where "BAKERY_VER = 1"
definition GET_NUMBER :: nat where "GET_NUMBER = 1"
definition BAKERY_WAIT :: nat where "BAKERY_WAIT = 2"
definition BAKERY_SERVICE :: nat where "BAKERY_SERVICE = 3"
definition MONO_BAKERY_SERVICE :: nat where "MONO_BAKERY_SERVICE = 2"

lemmas bakery_numbers = BAKERY_PROG_def BAKERY_VER_def GET_NUMBER_def BAKERY_WAIT_def BAKERY_SERVICE_def
  MONO_BAKERY_SERVICE_def

text \<open>
  What the client programs use of the RPC library and the system: the two XDR primitives,
  \<^verbatim>\<open>clnt_create\<close>, \<^verbatim>\<open>clnt_call\<close>, and the pause (in microseconds), during which the world goes on.
  \<^verbatim>\<open>clnt_call\<close> is given the procedure, the routine and the value it encodes, the routine it
  decodes with and the value it decodes into, and the time-out; \<open>None\<close> is any result but
  \<^verbatim>\<open>RPC_SUCCESS\<close>.
\<close>

type_synonym 'x bakery_xdr = "'x \<Rightarrow> BAKERY \<Rightarrow> bool \<times> 'x \<times> BAKERY"

record ('x, 'w) rpclib =
  x_int :: "'x xdrproc"
  x_char :: "'x xdrproc"
  clnt_create :: "string \<Rightarrow> int \<Rightarrow> int \<Rightarrow> string \<Rightarrow> 'w \<Rightarrow> bool \<times> 'w"
  clnt_call :: "nat \<Rightarrow> 'x bakery_xdr \<Rightarrow> BAKERY \<Rightarrow> 'x bakery_xdr \<Rightarrow> BAKERY \<Rightarrow> int \<times> int \<Rightarrow> 'w \<Rightarrow> BAKERY option \<times> 'w"
  pause :: "int \<Rightarrow> 'w \<Rightarrow> 'w"

abbreviation bakery_xdr_of :: "('x, 'w) rpclib \<Rightarrow> 'x bakery_xdr" where
  "bakery_xdr_of L \<equiv> xdr_BAKERY (x_int L) (x_char L)"

definition TIMEOUT :: "int \<times> int" where "TIMEOUT = (25, 0)"

text \<open>A stub clears its static result and lets the call decode into it.\<close>

definition get_number_1 :: "('x, 'w) rpclib \<Rightarrow> BAKERY \<Rightarrow> 'w \<Rightarrow> BAKERY option \<times> 'w" where
  "get_number_1 L argp = clnt_call L GET_NUMBER (bakery_xdr_of L) argp (bakery_xdr_of L) BAKERY_zero TIMEOUT"

definition bakery_wait_1 :: "('x, 'w) rpclib \<Rightarrow> BAKERY \<Rightarrow> 'w \<Rightarrow> BAKERY option \<times> 'w" where
  "bakery_wait_1 L argp = clnt_call L BAKERY_WAIT (bakery_xdr_of L) argp (bakery_xdr_of L) BAKERY_zero TIMEOUT"

definition bakery_service_1 :: "('x, 'w) rpclib \<Rightarrow> BAKERY \<Rightarrow> 'w \<Rightarrow> BAKERY option \<times> 'w" where
  "bakery_service_1 L argp = clnt_call L BAKERY_SERVICE (bakery_xdr_of L) argp (bakery_xdr_of L) BAKERY_zero TIMEOUT"

text \<open>The stubs of the single-threaded program\<close>

definition mono_number_1 :: "('x, 'w) rpclib \<Rightarrow> BAKERY \<Rightarrow> 'w \<Rightarrow> BAKERY option \<times> 'w" where
  "mono_number_1 L argp = clnt_call L GET_NUMBER (bakery_xdr_of L) argp (bakery_xdr_of L) BAKERY_zero TIMEOUT"

definition mono_service_1 :: "('x, 'w) rpclib \<Rightarrow> BAKERY \<Rightarrow> 'w \<Rightarrow> BAKERY option \<times> 'w" where
  "mono_service_1 L argp = clnt_call L MONO_BAKERY_SERVICE (bakery_xdr_of L) argp (bakery_xdr_of L) BAKERY_zero TIMEOUT"

section \<open>Server dispatch\<close>

text \<open>What the dispatch function makes the library send.\<close>

datatype answer = Void | NoProc | DecodeError | SystemError | Result BAKERY

type_synonym 's handler = "BAKERY \<Rightarrow> 's \<Rightarrow> (fault + BAKERY \<times> 's) option"

text \<open>
  \<open>local\<close> maps a procedure number to its handler; \<open>args\<close> is what \<^verbatim>\<open>svc_getargs\<close> decodes,
  \<open>sent\<close> and \<open>freed\<close> the results of \<^verbatim>\<open>svc_sendreply\<close> and \<^verbatim>\<open>svc_freeargs\<close>. \<open>None\<close> means that the
  handler does not return.
\<close>

definition svc_dispatch ::
  "(nat \<Rightarrow> 's handler option) \<Rightarrow> nat \<Rightarrow> BAKERY option \<Rightarrow> bool \<Rightarrow> bool \<Rightarrow> 's \<Rightarrow>
   (fault + answer \<times> 's) option" where
  "svc_dispatch local rq_proc args sent freed s =
     (if rq_proc = 0 then Some (Inr (Void, s)) else
      case local rq_proc of
        None \<Rightarrow> Some (Inr (NoProc, s))
      | Some h \<Rightarrow>
        (case args of
           None \<Rightarrow> Some (Inr (DecodeError, s))
         | Some argp \<Rightarrow>
           (case h argp s of
              None \<Rightarrow> None
            | Some (Inl f) \<Rightarrow> Some (Inl f)
            | Some (Inr (r, s')) \<Rightarrow>
                if \<not> freed then Some (Inl (Exit 1))
                else Some (Inr (if sent then Result r else SystemError, s')))))"

lemma svc_dispatch_Result:
  "svc_dispatch local p args sent freed s = Some (Inr (Result r, s')) \<longleftrightarrow>
     p \<noteq> 0 \<and> sent \<and> freed \<and>
     (\<exists>h argp. local p = Some h \<and> args = Some argp \<and> h argp s = Some (Inr (r, s')))"
  by (auto simp: svc_dispatch_def split: option.splits sum.splits if_splits)

text \<open>The procedures a request can reach are exactly those of the table; all others leave the state alone.\<close>

lemma svc_dispatch_unknown:
  "p \<noteq> 0 \<Longrightarrow> local p = None \<Longrightarrow> svc_dispatch local p args sent freed s = Some (Inr (NoProc, s))"
  by (simp add: svc_dispatch_def)

section \<open>Tickets\<close>

text \<open>
  The contract of \<^verbatim>\<open>get_number_1_svc\<close>, which both servers implement: a call takes the next
  index and stores there a ticket above every ticket in use; it leaves its array exactly when
  all indices are taken.
\<close>

locale ticket_issuer =
  fixes ok :: "'s \<Rightarrow> bool" and tickets :: "'s \<Rightarrow> int list" and next_index :: "'s \<Rightarrow> int"
    and issue :: "'s \<Rightarrow> fault + BAKERY \<times> 's"
  assumes issue_Inr: "ok s \<Longrightarrow> issue s = Inr (r, s') \<Longrightarrow>
      ok s' \<and> bk_pid r = next_index s \<and> next_index s' = next_index s + 1 \<and>
      0 \<le> next_index s \<and> next_index s < int (length (tickets s)) \<and>
      tickets s' = (tickets s)[nat (next_index s) := bk_num r] \<and>
      0 < bk_num r \<and> (\<forall>x\<in>set (tickets s). x < bk_num r)"
    and issue_full: "ok s \<Longrightarrow> issue s = Inl f \<longleftrightarrow>
      f = OutOfBounds \<and> next_index s = int (length (tickets s))"
begin

lemma ticket_fresh: "ok s \<Longrightarrow> issue s = Inr (r, s') \<Longrightarrow> bk_num r \<notin> set (tickets s)"
  using issue_Inr [of s r s'] by auto

lemma ticket_increases:
  assumes "ok s" "issue s = Inr (r, s')" "issue s' = Inr (r', s'')"
  shows "bk_num r < bk_num r'" and "bk_pid r' = bk_pid r + 1"
proof -
  have 1: "ok s'" "next_index s' = next_index s + 1" "bk_pid r = next_index s" "0 \<le> next_index s"
    "next_index s < int (length (tickets s))" "tickets s' = (tickets s)[nat (next_index s) := bk_num r]"
    using issue_Inr [OF assms(1,2)] by auto
  have 2: "bk_pid r' = next_index s'" "\<forall>x\<in>set (tickets s'). x < bk_num r'"
    using issue_Inr [OF 1(1) assms(3)] by auto
  have "bk_num r \<in> set (tickets s')"
    using 1(4,5) set_update_memI [of "nat (next_index s)" "tickets s" "bk_num r"]
    by (auto simp: 1(6) nat_less_iff)
  with 1 2 show "bk_num r < bk_num r'" and "bk_pid r' = bk_pid r + 1" by auto
qed

end

text \<open>The maximum loop both handlers run over the ticket array.\<close>

definition max_loop :: "int list \<Rightarrow> int" where
  "max_loop ns = foldl (\<lambda>m n. if n > m then n else m) 0 ns"

lemma max_loop_aux: "foldl (\<lambda>m n. if n > m then n else m) a ns = foldl max a ns" for a :: int
  by (induction ns arbitrary: a) (auto simp: max_def)

lemma foldl_max_ge: "a \<le> foldl max a ns \<and> (\<forall>x\<in>set ns. x \<le> foldl max a ns)" for a :: int
proof (induction ns arbitrary: a)
  case Nil
  then show ?case by simp
next
  case (Cons n ns)
  from Cons.IH [of "max a n"] show ?case by auto
qed

lemma max_loop_upper: "0 \<le> max_loop ns" "x \<in> set ns \<Longrightarrow> x \<le> max_loop ns"
  using foldl_max_ge [of 0 ns] by (auto simp: max_loop_def max_loop_aux)

end
