(* ===== verification/Bakery_Multi.thy ===== *)
theory Bakery_Multi
  imports Bakery_RPC
begin

text \<open>
  The multi-threaded bakery server of \<^verbatim>\<open>3/proc/bakery1\<close>: the globals and handlers of
  \<^verbatim>\<open>bakery_server.c\<close>, the client program of \<^verbatim>\<open>bakery_client.c\<close> and their interleaving.
  The RPC library runs one handler at a time (\<^verbatim>\<open>svc_run\<close>); \<^verbatim>\<open>bakery_wait_1_svc\<close>
  starts a thread that runs \<^verbatim>\<open>bakery_service\<close> concurrently with the handlers and with the
  other threads. The steps are those of the source's statements and conditions, in program order, with
  \<^verbatim>\<open>*res = c++\<close> split into its load and its stores. The repeated reads of one element in one round of the maximum loop,
  and the reads of \<^verbatim>\<open>number[j]\<close> and \<^verbatim>\<open>number[i]\<close> in the condition of the second waiting loop, are
  taken together in one step.
\<close>

section \<open>Data\<close>

record thread_arg =
  targ_pid :: int
  targ_num :: int
  targ_res :: int

text \<open>
  Where a thread is in \<^verbatim>\<open>bakery_service\<close>: reading its argument, sleeping, at the test of
  \<^verbatim>\<open>choosing[j]\<close> or of \<^verbatim>\<open>number[j]\<close> in the waiting loop, and then at the load of
  \<^verbatim>\<open>c\<close>, at the stores of \<^verbatim>\<open>c++\<close>, at the wrap-around test, at \<^verbatim>\<open>printf\<close> and at the
  reset of \<^verbatim>\<open>number[i]\<close>.
\<close>

datatype thread_pc =
    T_Start | T_Sleep | T_Choosing nat | T_Number nat
  | T_Enter | T_Load int | T_Store | T_Wrap | T_Exit | T_Done

record thread =
  t_slot :: nat
  t_i :: int
  t_pc :: thread_pc

record server =
  attr :: "bool list"
  thr :: "nat option list"
  res :: "thread_arg list"
  choosing :: "int list"
  number :: "int list"
  num :: int
  letter :: int
  threads :: "thread list"
  printed :: "(int \<times> int \<times> int) list"

definition NSLOT :: nat where "NSLOT = 32"

definition init_server :: server where
  "init_server =
     \<lparr>attr = replicate NSLOT False, thr = replicate NSLOT None,
      res = replicate NSLOT \<lparr>targ_pid = 0, targ_num = 0, targ_res = 0\<rparr>,
      choosing = replicate NSLOT 0, number = replicate NSLOT 0, num = 0,
      letter = of_char CHR ''a'', threads = [], printed = []\<rparr>"

section \<open>Handlers\<close>

text \<open>
  \<^verbatim>\<open>get_number_1_svc\<close>: taking the index and raising \<^verbatim>\<open>choosing\<close>, one round of the
  maximum loop, storing the ticket, and lowering \<^verbatim>\<open>choosing\<close> with the reply. Threads run
  between these steps.
\<close>

definition get_begin :: "server \<Rightarrow> fault + nat \<times> server" where
  "get_begin s =
     (case aput (choosing s) (num s) 1 of
        Inl f \<Rightarrow> Inl f
      | Inr ch \<Rightarrow> Inr (nat (num s), s\<lparr>num := num s + 1, choosing := ch\<rparr>))"

definition get_scan :: "server \<Rightarrow> nat \<Rightarrow> int \<Rightarrow> int" where
  "get_scan s i m = (if number s ! i > m then number s ! i else m)"

definition get_assign :: "nat \<Rightarrow> int \<Rightarrow> server \<Rightarrow> server" where
  "get_assign ind m s = s\<lparr>number := (number s)[ind := m + 1]\<rparr>"

definition get_reply :: "nat \<Rightarrow> server \<Rightarrow> BAKERY \<times> server" where
  "get_reply ind s =
     (\<lparr>bk_num = number s ! ind, bk_pid = int ind, bk_res = 0\<rparr>,
      s\<lparr>choosing := (choosing s)[ind := 0]\<rparr>)"

text \<open>The whole handler, run without interruption.\<close>

definition get_number_1_svc :: "server \<Rightarrow> fault + BAKERY \<times> server" where
  "get_number_1_svc s =
     (case get_begin s of
        Inl f \<Rightarrow> Inl f
      | Inr (ind, s) \<Rightarrow>
          Inr (get_reply ind (get_assign ind (foldl (\<lambda>m i. get_scan s i m) 0 [0..<NSLOT]) s)))"

text \<open>
  \<^verbatim>\<open>bakery_wait_1_svc\<close>; \<open>rc1\<close> and \<open>rc2\<close> are the results of \<^verbatim>\<open>pthread_attr_init\<close> and
  \<^verbatim>\<open>pthread_create\<close>. The static result is never written.
\<close>

definition bakery_wait_1_svc :: "int \<Rightarrow> int \<Rightarrow> BAKERY \<Rightarrow> server \<Rightarrow> fault + BAKERY \<times> server" where
  "bakery_wait_1_svc rc1 rc2 argp s =
     (if \<not> in_bounds (attr s) (bk_pid argp) then Inl OutOfBounds
      else if rc1 \<noteq> 0 then Inl (Exit 1)
      else if rc2 \<noteq> 0 then Inl (Exit 1)
      else let p = nat (bk_pid argp) in
        Inr (\<lparr>bk_num = 0, bk_pid = 0, bk_res = 0\<rparr>,
          s\<lparr>attr := (attr s)[p := True],
             res := (res s)[p := (res s ! p)\<lparr>targ_pid := bk_pid argp, targ_num := bk_num argp\<rparr>],
             thr := (thr s)[p := Some (length (threads s))],
             threads := threads s @ [\<lparr>t_slot = p, t_i = 0, t_pc = T_Start\<rparr>]\<rparr>))"

text \<open>
  \<^verbatim>\<open>bakery_service_1_svc\<close> up to the call of \<^verbatim>\<open>pthread_join\<close>, and after it returned \<open>rc\<close>.
  Joining a slot whose thread was never created has no defined result.
\<close>

definition service_begin :: "int \<Rightarrow> BAKERY \<Rightarrow> server \<Rightarrow> fault + nat \<times> server" where
  "service_begin rc argp s =
     (if \<not> in_bounds (attr s) (bk_pid argp) then Inl OutOfBounds
      else if rc \<noteq> 0 then Inl (Exit 1)
      else case thr s ! nat (bk_pid argp) of
        None \<Rightarrow> Inl NullDeref
      | Some t \<Rightarrow> Inr (t, s\<lparr>attr := (attr s)[nat (bk_pid argp) := False]\<rparr>))"

definition service_end :: "int \<Rightarrow> nat \<Rightarrow> server \<Rightarrow> fault + BAKERY" where
  "service_end rc p s =
     (if rc \<noteq> 0 then Inl (Exit 1)
      else Inr \<lparr>bk_num = 0, bk_pid = 0, bk_res = targ_res (res s ! p)\<rparr>)"

definition issuing :: "server \<Rightarrow> bool" where
  "issuing s \<longleftrightarrow> length (choosing s) = NSLOT \<and> length (number s) = NSLOT \<and>
     0 \<le> num s \<and> num s \<le> int NSLOT"

lemma scan_is_max_loop:
  assumes "length (number s) = NSLOT"
  shows "foldl (\<lambda>m i. get_scan s i m) 0 [0..<NSLOT] = max_loop (number s)"
proof -
  have "foldl (\<lambda>m i. get_scan s i m) 0 [0..<NSLOT] =
      foldl (\<lambda>m n. if n > m then n else m) 0 (map ((!) (number s)) [0..<NSLOT])"
    by (simp add: get_scan_def foldl_map)
  also have "map ((!) (number s)) [0..<NSLOT] = number s" using assms map_nth [of "number s"] by simp
  finally show ?thesis by (simp add: max_loop_def)
qed

interpretation multi_tickets: ticket_issuer issuing number num get_number_1_svc
proof unfold_locales
  fix s r s'
  assume ok: "issuing s" and i: "get_number_1_svc s = Inr (r, s')"
  have le: "x < max_loop (number s) + 1" if "x \<in> set (number s)" for x
    using max_loop_upper(2) [OF that] by simp
  show "issuing s' \<and> bk_pid r = num s \<and> num s' = num s + 1 \<and>
      0 \<le> num s \<and> num s < int (length (number s)) \<and>
      number s' = (number s)[nat (num s) := bk_num r] \<and>
      0 < bk_num r \<and> (\<forall>x\<in>set (number s). x < bk_num r)"
    using ok i le max_loop_upper(1) [of "number s"]
    by (auto simp: get_number_1_svc_def get_begin_def aput_def in_bounds_def get_reply_def
        get_assign_def issuing_def scan_is_max_loop nat_less_iff split: if_splits)
next
  fix s f
  assume "issuing s"
  then show "get_number_1_svc s = Inl f \<longleftrightarrow> f = OutOfBounds \<and> num s = int (length (number s))"
    by (auto simp: get_number_1_svc_def get_begin_def aput_def in_bounds_def issuing_def)
qed

section \<open>The service thread\<close>

definition set_pc :: "nat \<Rightarrow> thread_pc \<Rightarrow> server \<Rightarrow> server" where
  "set_pc t pc s = s\<lparr>threads := (threads s)[t := (threads s ! t)\<lparr>t_pc := pc\<rparr>]\<rparr>"

text \<open>The condition of the second waiting loop, for thread index \<open>i\<close>.\<close>

definition must_wait :: "server \<Rightarrow> int \<Rightarrow> nat \<Rightarrow> bool" where
  "must_wait s i j \<longleftrightarrow>
     number s ! j \<noteq> 0 \<and>
     (number s ! j < number s ! nat i \<or> number s ! j = number s ! nat i \<and> int j < i)"

text \<open>One step of \<^verbatim>\<open>bakery_service\<close>; \<open>None\<close> while it spins and once it has returned.\<close>

definition bakery_service :: "nat \<Rightarrow> server \<Rightarrow> server option" where
  "bakery_service t s =
     (let th = threads s ! t; p = t_slot th in
      case t_pc th of
        T_Start \<Rightarrow>
          Some (s\<lparr>threads := (threads s)[t := th\<lparr>t_i := targ_pid (res s ! p), t_pc := T_Sleep\<rparr>]\<rparr>)
      | T_Sleep \<Rightarrow> Some (set_pc t (T_Choosing 0) s)
      | T_Choosing j \<Rightarrow>
          if j < NSLOT
          then if choosing s ! j \<noteq> 0 then None else Some (set_pc t (T_Number j) s)
          else Some (set_pc t T_Enter s)
      | T_Number j \<Rightarrow>
          if must_wait s (t_i th) j then None else Some (set_pc t (T_Choosing (Suc j)) s)
      | T_Enter \<Rightarrow> Some (set_pc t (T_Load (letter s)) s)
      | T_Load v \<Rightarrow>
          Some (set_pc t T_Store
            (s\<lparr>letter := v + 1, res := (res s)[p := (res s ! p)\<lparr>targ_res := v\<rparr>]\<rparr>))
      | T_Store \<Rightarrow>
          Some (set_pc t T_Wrap
            (if letter s > of_char CHR ''z'' then s\<lparr>letter := of_char CHR ''a''\<rparr> else s))
      | T_Wrap \<Rightarrow>
          Some (set_pc t T_Exit
            (s\<lparr>printed := printed s @
                 [(targ_pid (res s ! p), targ_num (res s ! p), targ_res (res s ! p))]\<rparr>))
      | T_Exit \<Rightarrow> Some (set_pc t T_Done (s\<lparr>number := (number s)[nat (t_i th) := 0]\<rparr>))
      | T_Done \<Rightarrow> None)"

section \<open>The client program\<close>

text \<open>
  A client between its calls: before \<^verbatim>\<open>get_number_1\<close>, before \<^verbatim>\<open>bakery_wait_1\<close>, before
  \<^verbatim>\<open>bakery_service_1\<close>, and finished with the letter it printed. A failed call returns NULL,
  which the client reports and then, but for the second call, dereferences.
\<close>

datatype client = C_Get | C_Wait int int | C_Service int int | C_Done int | C_Crash

fun bakery_prog_1 :: "client \<Rightarrow> BAKERY option \<Rightarrow> client" where
  "bakery_prog_1 C_Get (Some r) = C_Wait (bk_pid r) (bk_num r)"
| "bakery_prog_1 C_Get None = C_Crash"
| "bakery_prog_1 (C_Wait p n) _ = C_Service p n"
| "bakery_prog_1 (C_Service p n) (Some r) = C_Done (bk_res r)"
| "bakery_prog_1 (C_Service p n) None = C_Crash"
| "bakery_prog_1 (C_Done r) _ = C_Done r"
| "bakery_prog_1 C_Crash _ = C_Crash"

section \<open>The system\<close>

text \<open>
  The dispatcher thread: idle, in the maximum loop of \<^verbatim>\<open>get_number_1_svc\<close> for client
  \<open>k\<close>, about to lower \<^verbatim>\<open>choosing\<close>, blocked in \<^verbatim>\<open>pthread_join\<close>, or stopped.
\<close>

datatype dispatcher =
    D_Idle
  | D_Scan nat nat nat int
  | D_Assigned nat nat
  | D_Join nat nat nat
  | D_Stopped fault

record sys =
  srv :: server
  disp :: dispatcher
  clients :: "client list"

definition init_sys :: "sys \<Rightarrow> bool" where
  "init_sys S \<longleftrightarrow> S = \<lparr>srv = init_server, disp = D_Idle, clients = []\<rparr>"

definition reply_to :: "nat \<Rightarrow> BAKERY \<Rightarrow> sys \<Rightarrow> sys" where
  "reply_to k r S = S\<lparr>clients := (clients S)[k := bakery_prog_1 (clients S ! k) (Some r)]\<rparr>"

inductive sys_step :: "sys \<Rightarrow> sys \<Rightarrow> bool" where
  arrive:
    "\<forall>f. disp S \<noteq> D_Stopped f \<Longrightarrow> sys_step S (S\<lparr>clients := clients S @ [C_Get]\<rparr>)"
| call_get:
    "disp S = D_Idle \<Longrightarrow> k < length (clients S) \<Longrightarrow> clients S ! k = C_Get \<Longrightarrow>
     get_begin (srv S) = Inr (ind, s') \<Longrightarrow>
     sys_step S (S\<lparr>srv := s', disp := D_Scan k ind 0 0\<rparr>)"
| call_get_fault:
    "disp S = D_Idle \<Longrightarrow> k < length (clients S) \<Longrightarrow> clients S ! k = C_Get \<Longrightarrow>
     get_begin (srv S) = Inl f \<Longrightarrow> sys_step S (S\<lparr>disp := D_Stopped f\<rparr>)"
| scan:
    "disp S = D_Scan k ind i m \<Longrightarrow> i < NSLOT \<Longrightarrow>
     sys_step S (S\<lparr>disp := D_Scan k ind (Suc i) (get_scan (srv S) i m)\<rparr>)"
| assign:
    "disp S = D_Scan k ind i m \<Longrightarrow> \<not> i < NSLOT \<Longrightarrow>
     sys_step S (S\<lparr>srv := get_assign ind m (srv S), disp := D_Assigned k ind\<rparr>)"
| get_return:
    "disp S = D_Assigned k ind \<Longrightarrow> get_reply ind (srv S) = (r, s') \<Longrightarrow>
     sys_step S (reply_to k r (S\<lparr>srv := s', disp := D_Idle\<rparr>))"
| call_wait:
    "disp S = D_Idle \<Longrightarrow> k < length (clients S) \<Longrightarrow> clients S ! k = C_Wait p n \<Longrightarrow>
     bakery_wait_1_svc rc1 rc2 \<lparr>bk_num = n, bk_pid = p, bk_res = 0\<rparr> (srv S) = Inr (r, s') \<Longrightarrow>
     sys_step S (reply_to k r (S\<lparr>srv := s'\<rparr>))"
| call_wait_fault:
    "disp S = D_Idle \<Longrightarrow> k < length (clients S) \<Longrightarrow> clients S ! k = C_Wait p n \<Longrightarrow>
     bakery_wait_1_svc rc1 rc2 \<lparr>bk_num = n, bk_pid = p, bk_res = 0\<rparr> (srv S) = Inl f \<Longrightarrow>
     sys_step S (S\<lparr>disp := D_Stopped f\<rparr>)"
| call_service:
    "disp S = D_Idle \<Longrightarrow> k < length (clients S) \<Longrightarrow> clients S ! k = C_Service p n \<Longrightarrow>
     service_begin rc \<lparr>bk_num = n, bk_pid = p, bk_res = 0\<rparr> (srv S) = Inr (t, s') \<Longrightarrow>
     sys_step S (S\<lparr>srv := s', disp := D_Join k (nat p) t\<rparr>)"
| call_service_fault:
    "disp S = D_Idle \<Longrightarrow> k < length (clients S) \<Longrightarrow> clients S ! k = C_Service p n \<Longrightarrow>
     service_begin rc \<lparr>bk_num = n, bk_pid = p, bk_res = 0\<rparr> (srv S) = Inl f \<Longrightarrow>
     sys_step S (S\<lparr>disp := D_Stopped f\<rparr>)"
| service_return:
    "disp S = D_Join k p t \<Longrightarrow> t_pc (threads (srv S) ! t) = T_Done \<Longrightarrow>
     service_end 0 p (srv S) = Inr r \<Longrightarrow>
     sys_step S (reply_to k r (S\<lparr>disp := D_Idle\<rparr>))"
| service_fail:
    "disp S = D_Join k p t \<Longrightarrow> service_end rc p (srv S) = Inl f \<Longrightarrow>
     sys_step S (S\<lparr>disp := D_Stopped f\<rparr>)"
| thread_step:
    "\<forall>f. disp S \<noteq> D_Stopped f \<Longrightarrow> t < length (threads (srv S)) \<Longrightarrow>
     bakery_service t (srv S) = Some s' \<Longrightarrow> sys_step S (S\<lparr>srv := s'\<rparr>)"

end
