(* ===== verification/Bakery_Structure.thy ===== *)
theory Bakery_Structure
  imports Bakery_Multi
begin

text \<open>
  The structural invariant of the multi-threaded bakery server: array sizes, which slot each
  thread and client owns, and what the dispatcher is doing; every step of the system keeps it.
\<close>

section \<open>Structural invariant\<close>

definition shape :: "server \<Rightarrow> bool" where
  "shape s \<longleftrightarrow> length (attr s) = NSLOT \<and> length (thr s) = NSLOT \<and> length (res s) = NSLOT \<and>
     length (choosing s) = NSLOT \<and> length (number s) = NSLOT \<and>
     0 \<le> num s \<and> num s \<le> int NSLOT \<and>
     (\<forall>j<NSLOT. 0 \<le> number s ! j \<and> (num s \<le> int j \<longrightarrow> number s ! j = 0 \<and> thr s ! j = None))"

definition thread_ok :: "server \<Rightarrow> nat \<Rightarrow> bool" where
  "thread_ok s t \<longleftrightarrow> (let th = threads s ! t; p = t_slot th in
     p < NSLOT \<and> int p < num s \<and> thr s ! p = Some t \<and> targ_pid (res s ! p) = int p \<and>
     (t_pc th \<noteq> T_Start \<longrightarrow> t_i th = int p) \<and>
     (if t_pc th = T_Done then number s ! p = 0 else 0 < number s ! p))"

definition server_ok :: "server \<Rightarrow> bool" where
  "server_ok s \<longleftrightarrow> shape s \<and> (\<forall>t<length (threads s). thread_ok s t) \<and>
     (\<forall>p<NSLOT. \<forall>t. thr s ! p = Some t \<longrightarrow> t < length (threads s) \<and> t_slot (threads s ! t) = p)"

fun pending :: "dispatcher \<Rightarrow> nat option" where
  "pending (D_Scan k ind i m) = Some ind"
| "pending (D_Assigned k ind) = Some ind"
| "pending d = None"

fun disp_ok :: "server \<Rightarrow> dispatcher \<Rightarrow> bool" where
  "disp_ok s (D_Scan k ind i m) \<longleftrightarrow>
     ind < NSLOT \<and> num s = int ind + 1 \<and> number s ! ind = 0 \<and> thr s ! ind = None \<and>
     i \<le> NSLOT \<and> 0 \<le> m \<and> (\<forall>j<i. number s ! j \<le> m)"
| "disp_ok s (D_Assigned k ind) \<longleftrightarrow>
     ind < NSLOT \<and> num s = int ind + 1 \<and> 0 < number s ! ind \<and> thr s ! ind = None"
| "disp_ok s (D_Join k p t) \<longleftrightarrow> p < NSLOT \<and> thr s ! p = Some t"
| "disp_ok s d \<longleftrightarrow> True"

fun client_ok :: "server \<Rightarrow> dispatcher \<Rightarrow> client \<Rightarrow> bool" where
  "client_ok s d (C_Wait p n) \<longleftrightarrow>
     0 \<le> p \<and> p < num s \<and> thr s ! nat p = None \<and> 0 < number s ! nat p \<and> pending d \<noteq> Some (nat p)"
| "client_ok s d (C_Service p n) \<longleftrightarrow> 0 \<le> p \<and> p < num s \<and> thr s ! nat p \<noteq> None"
| "client_ok s d _ \<longleftrightarrow> True"

definition wait_unique :: "client list \<Rightarrow> bool" where
  "wait_unique cs \<longleftrightarrow> (\<forall>k<length cs. \<forall>l<length cs. \<forall>p n n'.
     cs ! k = C_Wait p n \<longrightarrow> cs ! l = C_Wait p n' \<longrightarrow> k = l)"

definition clients_ok :: "server \<Rightarrow> dispatcher \<Rightarrow> client list \<Rightarrow> bool" where
  "clients_ok s d cs \<longleftrightarrow> (\<forall>k<length cs. client_ok s d (cs ! k)) \<and> wait_unique cs"

text \<open>The client a handler runs for is the one that made the call.\<close>

fun caller_ok :: "client list \<Rightarrow> dispatcher \<Rightarrow> bool" where
  "caller_ok cs (D_Scan k ind i m) \<longleftrightarrow> k < length cs \<and> cs ! k = C_Get"
| "caller_ok cs (D_Assigned k ind) \<longleftrightarrow> k < length cs \<and> cs ! k = C_Get"
| "caller_ok cs (D_Join k p t) \<longleftrightarrow> k < length cs \<and> (\<exists>n. cs ! k = C_Service (int p) n)"
| "caller_ok cs d \<longleftrightarrow> True"

definition sys_ok :: "sys \<Rightarrow> bool" where
  "sys_ok S \<longleftrightarrow> server_ok (srv S) \<and> disp_ok (srv S) (disp S) \<and>
     clients_ok (srv S) (disp S) (clients S) \<and> caller_ok (clients S) (disp S)"

text \<open>What a step of the service thread leaves alone.\<close>

lemma bakery_service_frame:
  assumes "bakery_service t s = Some s'"
  shows "thr s' = thr s" "num s' = num s" "choosing s' = choosing s" "attr s' = attr s"
    "length (threads s') = length (threads s)" "length (res s') = length (res s)"
    "length (number s') = length (number s)"
    "\<And>u. u \<noteq> t \<Longrightarrow> threads s' ! u = threads s ! u"
    "\<And>p. targ_pid (res s' ! p) = targ_pid (res s ! p)"
    "\<And>p. targ_num (res s' ! p) = targ_num (res s ! p)"
  using assms
  by (auto simp: bakery_service_def Let_def set_pc_def nth_update_field
      split: thread_pc.splits if_splits)

lemma bakery_service_slot:
  "bakery_service t s = Some s' \<Longrightarrow> t < length (threads s) \<Longrightarrow>
   t_slot (threads s' ! u) = t_slot (threads s ! u)"
  by (cases "u = t")
     (auto simp: bakery_service_def Let_def set_pc_def split: thread_pc.splits if_splits)

lemma bakery_service_number:
  assumes "bakery_service t s = Some s'" "t < length (threads s)" "thread_ok s t"
  shows "number s' = (if t_pc (threads s ! t) = T_Exit
           then (number s)[t_slot (threads s ! t) := 0] else number s)"
  using assms
  by (auto simp: bakery_service_def Let_def set_pc_def thread_ok_def split: thread_pc.splits if_splits)

lemma bakery_service_own:
  assumes "bakery_service t s = Some s'" "t < length (threads s)" "thread_ok s t"
  shows "t_pc (threads s' ! t) = T_Done \<longleftrightarrow> t_pc (threads s ! t) = T_Exit"
    and "t_pc (threads s' ! t) \<noteq> T_Start" and "t_i (threads s' ! t) = int (t_slot (threads s ! t))"
    and "t_pc (threads s ! t) \<noteq> T_Done"
  using assms
  by (auto simp: bakery_service_def Let_def set_pc_def thread_ok_def split: thread_pc.splits if_splits)

lemma shape_nth: "shape s \<Longrightarrow> j < NSLOT \<Longrightarrow> 0 \<le> number s ! j"
  by (simp add: shape_def)

lemma server_ok_thread: "server_ok s \<Longrightarrow> t < length (threads s) \<Longrightarrow> thread_ok s t"
  by (simp add: server_ok_def)

lemma slot_inj:
  assumes "server_ok s" "t < length (threads s)" "u < length (threads s)"
    "t_slot (threads s ! t) = t_slot (threads s ! u)"
  shows "t = u"
  using server_ok_thread [OF assms(1,2)] server_ok_thread [OF assms(1,3)] assms(4)
  by (simp add: thread_ok_def Let_def)

lemma server_ok_thread_step:
  assumes ok: "server_ok s" and t: "t < length (threads s)" and st: "bakery_service t s = Some s'"
  shows "server_ok s'"
proof -
  note fr = bakery_service_frame [OF st] bakery_service_slot [OF st t]
  note tk = server_ok_thread [OF ok t]
  note own = bakery_service_own [OF st t tk] bakery_service_number [OF st t tk]
  have sh: "shape s'"
    using ok tk own(5) by (auto simp: server_ok_def shape_def thread_ok_def Let_def fr nth_list_update)
  have "thread_ok s' u" if u: "u < length (threads s)" for u
  proof (cases "u = t")
    case True
    with tk own sh show ?thesis by (auto simp: thread_ok_def Let_def fr shape_def nth_list_update)
  next
    case False
    then have "t_slot (threads s ! u) \<noteq> t_slot (threads s ! t)" using slot_inj [OF ok u t] by auto
    with False server_ok_thread [OF ok u] own show ?thesis
      by (auto simp: thread_ok_def Let_def fr nth_list_update)
  qed
  with sh ok show ?thesis by (auto simp: server_ok_def fr)
qed

lemma server_ok_get_begin:
  assumes ok: "server_ok s" and g: "get_begin s = Inr (ind, s')"
  shows "server_ok s'"
    and "ind < NSLOT" "int ind = num s" "num s' = num s + 1" "number s' = number s" "thr s' = thr s"
    and "number s' ! ind = 0" "thr s' ! ind = None" "threads s' = threads s"
  using ok g
  by (auto simp: get_begin_def server_ok_def shape_def thread_ok_def Let_def aput_def in_bounds_def
      split: if_splits)

lemma server_ok_get_assign:
  assumes ok: "server_ok s" and d: "disp_ok s (D_Scan k ind i m)"
  shows "server_ok (get_assign ind m s)"
proof -
  have "t_slot (threads s ! t) \<noteq> ind" if "t < length (threads s)" for t
    using server_ok_thread [OF ok that] d by (auto simp: thread_ok_def Let_def)
  with ok d show ?thesis
    by (auto simp: get_assign_def server_ok_def shape_def thread_ok_def Let_def nth_list_update)
qed

lemma server_ok_get_reply:
  "server_ok s \<Longrightarrow> server_ok (snd (get_reply ind s))"
  by (auto simp: get_reply_def server_ok_def shape_def thread_ok_def Let_def)

lemma server_ok_wait:
  assumes ok: "server_ok s"
    and w: "bakery_wait_1_svc rc1 rc2 argp s = Inr (r, s')"
    and p: "0 \<le> bk_pid argp" "bk_pid argp < num s" "thr s ! nat (bk_pid argp) = None"
      "0 < number s ! nat (bk_pid argp)"
  shows "server_ok s'"
proof -
  let ?p = "nat (bk_pid argp)"
  have s': "s' = s\<lparr>attr := (attr s)[?p := True],
             res := (res s)[?p := (res s ! ?p)\<lparr>targ_pid := bk_pid argp, targ_num := bk_num argp\<rparr>],
             thr := (thr s)[?p := Some (length (threads s))],
             threads := threads s @ [\<lparr>t_slot = ?p, t_i = 0, t_pc = T_Start\<rparr>]\<rparr>"
    using w by (auto simp: bakery_wait_1_svc_def Let_def split: if_splits)
  have sh: "shape s" using ok by (simp add: server_ok_def)
  then have pn: "?p < NSLOT" using p by (auto simp: shape_def)
  have ne: "t_slot (threads s ! t) \<noteq> ?p" if "t < length (threads s)" for t
    using server_ok_thread [OF ok that] p by (auto simp: thread_ok_def Let_def)
  have "shape s'" using sh p pn by (auto simp: s' shape_def nth_list_update)
  moreover have "thread_ok s' t" if "t < length (threads s')" for t
    using that server_ok_thread [OF ok, of t] ne [of t] p pn sh
    by (auto simp: s' thread_ok_def Let_def nth_append less_Suc_eq shape_def)
  moreover have "t < length (threads s') \<and> t_slot (threads s' ! t) = q"
    if "q < NSLOT" "thr s' ! q = Some t" for q t
    using that ok pn sh
    by (auto simp: s' server_ok_def shape_def nth_list_update nth_append split: if_splits)
  ultimately show ?thesis by (simp add: server_ok_def)
qed

lemma server_ok_service_begin:
  "server_ok s \<Longrightarrow> service_begin rc argp s = Inr (t, s') \<Longrightarrow> server_ok s'"
  by (auto simp: service_begin_def server_ok_def shape_def thread_ok_def Let_def
      split: if_splits option.splits)

text \<open>The dispatcher's and the clients' parts, over every change of the server state.\<close>

lemma disp_ok_thread_step:
  assumes "server_ok s" "t < length (threads s)" "bakery_service t s = Some s'" "disp_ok s d"
  shows "disp_ok s' d"
proof -
  note tk = server_ok_thread [OF assms(1,2)]
  note fr = bakery_service_frame [OF assms(3)] bakery_service_number [OF assms(3,2) tk]
  have len: "length (number s) = NSLOT" using assms(1) by (simp add: server_ok_def shape_def)
  show ?thesis
    using assms(4) tk
    by (cases d) (auto simp: fr nth_list_update len thread_ok_def Let_def)
qed

lemma client_ok_thread_step:
  assumes "server_ok s" "t < length (threads s)" "bakery_service t s = Some s'" "client_ok s d cl"
  shows "client_ok s' d cl"
proof -
  note tk = server_ok_thread [OF assms(1,2)]
  note fr = bakery_service_frame [OF assms(3)] bakery_service_number [OF assms(3,2) tk]
  have len: "length (number s) = NSLOT" using assms(1) by (simp add: server_ok_def shape_def)
  show ?thesis
    using assms(4) tk
    by (cases cl) (auto simp: fr nth_list_update len thread_ok_def Let_def)
qed

lemma clients_okD: "clients_ok s d cs \<Longrightarrow> k < length cs \<Longrightarrow> client_ok s d (cs ! k)"
  by (simp add: clients_ok_def)

lemma clients_ok_mono:
  "clients_ok s d cs \<Longrightarrow> (\<And>cl. client_ok s d cl \<Longrightarrow> client_ok s' d' cl) \<Longrightarrow> clients_ok s' d' cs"
  by (auto simp: clients_ok_def)

lemma wait_uniqueD:
  "wait_unique cs \<Longrightarrow> cs ! k = C_Wait p n \<Longrightarrow> cs ! l = C_Wait p n' \<Longrightarrow>
   k < length cs \<Longrightarrow> l < length cs \<Longrightarrow> k = l"
  unfolding wait_unique_def by blast

lemma wait_unique_snoc: "wait_unique cs \<Longrightarrow> wait_unique (cs @ [C_Get])"
  unfolding wait_unique_def
  by (intro allI impI) (auto simp: nth_append less_Suc_eq split: if_splits)

lemma wait_unique_update:
  assumes u: "wait_unique cs"
    and new: "\<And>l p n n'. l < length cs \<Longrightarrow> l \<noteq> k \<Longrightarrow> cl = C_Wait p n \<Longrightarrow> cs ! l \<noteq> C_Wait p n'"
  shows "wait_unique (cs[k := cl])"
  unfolding wait_unique_def
proof (intro allI impI)
  fix l l' p n n'
  assume l: "l < length (cs[k := cl])" "l' < length (cs[k := cl])"
    and e: "cs[k := cl] ! l = C_Wait p n" "cs[k := cl] ! l' = C_Wait p n'"
  consider "l = k" "l' = k" | "l = k" "l' \<noteq> k" | "l \<noteq> k" "l' = k" | "l \<noteq> k" "l' \<noteq> k" by blast
  then show "l = l'"
  proof cases
    case 2 with l e new [of l' p n n'] show ?thesis by simp
  next
    case 3 with l e new [of l p n' n] show ?thesis by simp
  next
    case 4 with l e wait_uniqueD [OF u, of l p n l' n'] show ?thesis by simp
  qed simp
qed

lemma clients_ok_snoc_get: "clients_ok s d cs \<Longrightarrow> clients_ok s d (cs @ [C_Get])"
  by (auto simp: clients_ok_def nth_append less_Suc_eq wait_unique_snoc)

lemma clients_ok_update:
  assumes "clients_ok s d cs" "client_ok s' d' cl"
    "\<And>l. l < length cs \<Longrightarrow> l \<noteq> k \<Longrightarrow> client_ok s d (cs ! l) \<Longrightarrow> client_ok s' d' (cs ! l)"
    "\<And>l p n n'. l < length cs \<Longrightarrow> l \<noteq> k \<Longrightarrow> cl = C_Wait p n \<Longrightarrow> cs ! l \<noteq> C_Wait p n'"
  shows "clients_ok s' d' (cs[k := cl])"
proof -
  have "client_ok s' d' (cs[k := cl] ! l)" if "l < length cs" for l
    using that assms(1-3) by (cases "l = k") (auto simp: clients_ok_def)
  with assms(1,4) show ?thesis by (simp add: clients_ok_def wait_unique_update)
qed

lemma sys_ok_init: "init_sys S \<Longrightarrow> sys_ok S"
  by (simp add: init_sys_def sys_ok_def init_server_def server_ok_def shape_def clients_ok_def
      wait_unique_def)

lemma sys_ok_get_begin:
  assumes ok: "sys_ok S" and d: "disp S = D_Idle" and g: "get_begin (srv S) = Inr (ind, s')"
    and k: "k < length (clients S)" "clients S ! k = C_Get"
  shows "sys_ok (S\<lparr>srv := s', disp := D_Scan k ind 0 0\<rparr>)"
proof -
  have so: "server_ok (srv S)" and co: "clients_ok (srv S) D_Idle (clients S)"
    using ok d by (auto simp: sys_ok_def)
  note g' = server_ok_get_begin [OF so g]
  have "client_ok s' (D_Scan k ind 0 0) cl" if "client_ok (srv S) D_Idle cl" for cl
    using that g' by (cases cl) auto
  then have "clients_ok s' (D_Scan k ind 0 0) (clients S)" by (rule clients_ok_mono [OF co])
  with g' k show ?thesis by (simp add: sys_ok_def)
qed

lemma sys_ok_scan:
  assumes ok: "sys_ok S" and d: "disp S = D_Scan k ind i m" and i: "i < NSLOT"
  shows "sys_ok (S\<lparr>disp := D_Scan k ind (Suc i) (get_scan (srv S) i m)\<rparr>)"
proof -
  have co: "clients_ok (srv S) (disp S) (clients S)" using ok by (simp add: sys_ok_def)
  have "client_ok (srv S) (D_Scan k ind (Suc i) (get_scan (srv S) i m)) cl"
    if "client_ok (srv S) (disp S) cl" for cl
    using that d by (cases cl) auto
  then have "clients_ok (srv S) (D_Scan k ind (Suc i) (get_scan (srv S) i m)) (clients S)"
    by (rule clients_ok_mono [OF co])
  moreover have "number (srv S) ! j \<le> get_scan (srv S) i m" if "j < Suc i" for j
    using that ok d by (force simp: sys_ok_def get_scan_def less_Suc_eq)
  ultimately show ?thesis using ok d i by (auto simp: sys_ok_def get_scan_def)
qed

lemma sys_ok_assign:
  assumes ok: "sys_ok S" and d: "disp S = D_Scan k ind i m"
  shows "sys_ok (S\<lparr>srv := get_assign ind m (srv S), disp := D_Assigned k ind\<rparr>)"
proof -
  have so: "server_ok (srv S)" and dk: "disp_ok (srv S) (D_Scan k ind i m)"
    and co: "clients_ok (srv S) (D_Scan k ind i m) (clients S)"
    using ok d by (auto simp: sys_ok_def)
  have len: "length (number (srv S)) = NSLOT" using so by (simp add: server_ok_def shape_def)
  have "client_ok (get_assign ind m (srv S)) (D_Assigned k ind) cl"
    if "client_ok (srv S) (D_Scan k ind i m) cl" for cl
    using that by (cases cl) (auto simp: get_assign_def)
  then have "clients_ok (get_assign ind m (srv S)) (D_Assigned k ind) (clients S)"
    by (rule clients_ok_mono [OF co])
  with server_ok_get_assign [OF so dk] dk len show ?thesis
    using ok d by (simp add: sys_ok_def) (simp add: get_assign_def)
qed

lemma sys_ok_get_return:
  assumes ok: "sys_ok S" and d: "disp S = D_Assigned k ind"
    and g: "get_reply ind (srv S) = (r, s')"
  shows "sys_ok (reply_to k r (S\<lparr>srv := s', disp := D_Idle\<rparr>))"
proof -
  have so: "server_ok (srv S)" and dk: "disp_ok (srv S) (D_Assigned k ind)"
    and co: "clients_ok (srv S) (D_Assigned k ind) (clients S)"
    using ok d by (auto simp: sys_ok_def)
  have r: "r = \<lparr>bk_num = number (srv S) ! ind, bk_pid = int ind, bk_res = 0\<rparr>"
    and s': "s' = (srv S)\<lparr>choosing := (choosing (srv S))[ind := 0]\<rparr>"
    using g by (auto simp: get_reply_def)
  have "clients_ok s' D_Idle ((clients S)[k := C_Wait (int ind) (number (srv S) ! ind)])"
  proof (rule clients_ok_update [OF co])
    show "client_ok s' D_Idle (C_Wait (int ind) (number (srv S) ! ind))"
      using dk by (simp add: s')
    fix l assume l: "l < length (clients S)"
    show "client_ok (srv S) (D_Assigned k ind) (clients S ! l) \<Longrightarrow> client_ok s' D_Idle (clients S ! l)"
      by (cases "clients S ! l") (auto simp: s')
    fix p n n' assume "C_Wait (int ind) (number (srv S) ! ind) = C_Wait p n"
    then show "clients S ! l \<noteq> C_Wait p n'" using clients_okD [OF co l] by auto
  qed
  moreover have "server_ok s'" using server_ok_get_reply [OF so, of ind] g by simp
  ultimately show ?thesis using ok d by (simp add: sys_ok_def reply_to_def r)
qed

lemma sys_ok_wait:
  assumes ok: "sys_ok S" and d: "disp S = D_Idle" and k: "k < length (clients S)"
    and c: "clients S ! k = C_Wait p n"
    and w: "bakery_wait_1_svc rc1 rc2 \<lparr>bk_num = n, bk_pid = p, bk_res = 0\<rparr> (srv S) = Inr (r, s')"
  shows "sys_ok (reply_to k r (S\<lparr>srv := s'\<rparr>))"
proof -
  have so: "server_ok (srv S)" and co: "clients_ok (srv S) D_Idle (clients S)"
    using ok d by (auto simp: sys_ok_def)
  have p: "0 \<le> p" "p < num (srv S)" "thr (srv S) ! nat p = None" "0 < number (srv S) ! nat p"
    using clients_okD [OF co k] c by auto
  have so': "server_ok s'" using server_ok_wait [OF so w] p by simp
  have s': "num s' = num (srv S)" "number s' = number (srv S)"
    "thr s' = (thr (srv S))[nat p := Some (length (threads (srv S)))]"
    using w by (auto simp: bakery_wait_1_svc_def Let_def split: if_splits)
  have len: "nat p < length (thr (srv S))" using so p by (auto simp: server_ok_def shape_def)
  have "clients_ok s' D_Idle ((clients S)[k := C_Service p n])"
  proof (rule clients_ok_update [OF co])
    show "client_ok s' D_Idle (C_Service p n)" using p len by (simp add: s')
    fix l assume l: "l < length (clients S)" "l \<noteq> k"
    then have "clients S ! l \<noteq> C_Wait p m" for m
      using co c k wait_uniqueD [of "clients S" k p n l m] by (auto simp: clients_ok_def)
    moreover assume "client_ok (srv S) D_Idle (clients S ! l)"
    ultimately show "client_ok s' D_Idle (clients S ! l)"
      using p len by (cases "clients S ! l") (auto simp: s' nth_list_update eq_nat_nat_iff)
  qed simp
  with so' c d show ?thesis by (simp add: sys_ok_def reply_to_def)
qed

lemma sys_ok_service:
  assumes ok: "sys_ok S" and d: "disp S = D_Idle" and k: "k < length (clients S)"
    and c: "clients S ! k = C_Service p n"
    and w: "service_begin rc \<lparr>bk_num = n, bk_pid = p, bk_res = 0\<rparr> (srv S) = Inr (t, s')"
  shows "sys_ok (S\<lparr>srv := s', disp := D_Join k (nat p) t\<rparr>)"
proof -
  have so: "server_ok (srv S)" and co: "clients_ok (srv S) D_Idle (clients S)"
    using ok d by (auto simp: sys_ok_def)
  have s': "num s' = num (srv S)" "number s' = number (srv S)" "thr s' = thr (srv S)"
    "thr (srv S) ! nat p = Some t"
    using w by (auto simp: service_begin_def split: if_splits option.splits)
  have "client_ok s' (D_Join k (nat p) t) cl" if "client_ok (srv S) D_Idle cl" for cl
    using that by (cases cl) (auto simp: s')
  then have "clients_ok s' (D_Join k (nat p) t) (clients S)" by (rule clients_ok_mono [OF co])
  moreover have p: "0 \<le> p" "p < num (srv S)" using clients_okD [OF co k] c by auto
  moreover have "nat p < NSLOT" using so p by (auto simp: server_ok_def shape_def)
  ultimately show ?thesis
    using server_ok_service_begin [OF so w] c k by (simp add: sys_ok_def s')
qed

lemma sys_ok_stop: "sys_ok S \<Longrightarrow> pending (disp S) = None \<Longrightarrow> sys_ok (S\<lparr>disp := D_Stopped f\<rparr>)"
proof -
  assume ok: "sys_ok S" and p: "pending (disp S) = None"
  have "client_ok (srv S) (D_Stopped f) cl" if "client_ok (srv S) (disp S) cl" for cl
    using that by (cases cl) auto
  with ok show ?thesis by (auto simp: sys_ok_def intro: clients_ok_mono)
qed

lemma sys_ok_service_return:
  assumes ok: "sys_ok S" and d: "disp S = D_Join k p t"
  shows "sys_ok (reply_to k r (S\<lparr>disp := D_Idle\<rparr>))"
proof -
  obtain n where k: "k < length (clients S)" "clients S ! k = C_Service (int p) n"
    using ok d by (auto simp: sys_ok_def)
  have co: "clients_ok (srv S) (D_Join k p t) (clients S)" using ok d by (simp add: sys_ok_def)
  have "client_ok (srv S) D_Idle cl" if "client_ok (srv S) (D_Join k p t) cl" for cl
    using that by (cases cl) auto
  then have "clients_ok (srv S) D_Idle ((clients S)[k := C_Done (bk_res r)])"
    by (intro clients_ok_update [OF co]) auto
  with ok k show ?thesis by (simp add: sys_ok_def reply_to_def)
qed

lemma caller_ok_snoc: "caller_ok cs d \<Longrightarrow> caller_ok (cs @ [C_Get]) d"
  by (cases d) (auto simp: nth_append)

lemma sys_ok_thread:
  assumes ok: "sys_ok S" and t: "t < length (threads (srv S))"
    and b: "bakery_service t (srv S) = Some s'"
  shows "sys_ok (S\<lparr>srv := s'\<rparr>)"
proof -
  have so: "server_ok (srv S)" and co: "clients_ok (srv S) (disp S) (clients S)"
    using ok by (auto simp: sys_ok_def)
  have "clients_ok s' (disp S) (clients S)"
    by (rule clients_ok_mono [OF co]) (rule client_ok_thread_step [OF so t b])
  with ok server_ok_thread_step [OF so t b] disp_ok_thread_step [OF so t b] show ?thesis
    by (simp add: sys_ok_def)
qed

lemma sys_ok_step:
  assumes "sys_step S T" "sys_ok S"
  shows "sys_ok T"
  using assms
proof cases
  case arrive
  with assms(2) show ?thesis by (simp add: sys_ok_def clients_ok_snoc_get caller_ok_snoc)
next
  case (call_get k ind s')
  with assms(2) show ?thesis by (simp add: sys_ok_get_begin)
next
  case call_get_fault
  with assms(2) show ?thesis by (simp add: sys_ok_stop)
next
  case scan
  with assms(2) show ?thesis by (simp add: sys_ok_scan)
next
  case assign
  with assms(2) show ?thesis by (simp add: sys_ok_assign)
next
  case get_return
  with assms(2) show ?thesis by (simp add: sys_ok_get_return)
next
  case call_wait
  with assms(2) show ?thesis by (simp add: sys_ok_wait)
next
  case call_wait_fault
  with assms(2) show ?thesis by (simp add: sys_ok_stop)
next
  case call_service
  with assms(2) show ?thesis by (simp add: sys_ok_service)
next
  case call_service_fault
  with assms(2) show ?thesis by (simp add: sys_ok_stop)
next
  case service_return
  with assms(2) show ?thesis by (simp add: sys_ok_service_return)
next
  case service_fail
  with assms(2) show ?thesis by (simp add: sys_ok_stop)
next
  case thread_step
  with assms(2) show ?thesis by (simp add: sys_ok_thread)
qed

end
