(* ===== verification/Bakery_Order.thy ===== *)
theory Bakery_Order
  imports Bakery_Structure
begin

text \<open>
  Tickets of the multi-threaded bakery server grow with the slot, a thread that has left its
  waiting loop has found every lower slot served, and so at most one thread is in its
  critical section.
\<close>

section \<open>Ticket order\<close>

text \<open>The slots a thread has passed in its waiting loop.\<close>

fun passed :: "thread_pc \<Rightarrow> nat \<Rightarrow> bool" where
  "passed T_Start j \<longleftrightarrow> False"
| "passed T_Sleep j \<longleftrightarrow> False"
| "passed (T_Choosing j') j \<longleftrightarrow> j < j'"
| "passed (T_Number j') j \<longleftrightarrow> j < j'"
| "passed T_Done j \<longleftrightarrow> False"
| "passed _ j \<longleftrightarrow> True"

definition increasing :: "server \<Rightarrow> bool" where
  "increasing s \<longleftrightarrow> (\<forall>j<NSLOT. \<forall>i<j. 0 < number s ! i \<longrightarrow> 0 < number s ! j \<longrightarrow> number s ! i < number s ! j)"

definition bounded :: "server \<Rightarrow> bool" where
  "bounded s \<longleftrightarrow> (\<forall>j<NSLOT. number s ! j \<le> int j + 1)"

definition ahead_served :: "server \<Rightarrow> bool" where
  "ahead_served s \<longleftrightarrow> (\<forall>t<length (threads s). \<forall>j<t_slot (threads s ! t).
     passed (t_pc (threads s ! t)) j \<longrightarrow> number s ! j = 0)"

definition served_done :: "server \<Rightarrow> dispatcher \<Rightarrow> bool" where
  "served_done s d \<longleftrightarrow> (\<forall>j<NSLOT. int j < num s \<longrightarrow> number s ! j = 0 \<longrightarrow>
     pending d = Some j \<or> (\<exists>t. thr s ! j = Some t \<and> t_pc (threads s ! t) = T_Done))"

fun scan_bound :: "dispatcher \<Rightarrow> bool" where
  "scan_bound (D_Scan k ind i m) \<longleftrightarrow> m \<le> int ind"
| "scan_bound d \<longleftrightarrow> True"

definition order_ok :: "sys \<Rightarrow> bool" where
  "order_ok S \<longleftrightarrow> increasing (srv S) \<and> bounded (srv S) \<and> ahead_served (srv S) \<and>
     served_done (srv S) (disp S) \<and> scan_bound (disp S)"

lemma order_ok_init: "init_sys S \<Longrightarrow> order_ok S"
  by (simp add: init_sys_def order_ok_def init_server_def increasing_def bounded_def
      ahead_served_def served_done_def)

text \<open>The order invariant reads nothing but these fields.\<close>

lemma order_ok_frame:
  assumes "order_ok S" "number (srv T) = number (srv S)" "threads (srv T) = threads (srv S)"
    "thr (srv T) = thr (srv S)" "num (srv T) = num (srv S)" "pending (disp T) = pending (disp S)"
    "scan_bound (disp T)"
  shows "order_ok T"
  using assms by (simp add: order_ok_def increasing_def bounded_def ahead_served_def served_done_def)

lemma order_ok_get_begin:
  assumes "sys_ok S" "order_ok S" "disp S = D_Idle" "get_begin (srv S) = Inr (ind, s')"
  shows "order_ok (S\<lparr>srv := s', disp := D_Scan k ind 0 0\<rparr>)"
proof -
  have so: "server_ok (srv S)" using assms by (simp add: sys_ok_def)
  note g = server_ok_get_begin [OF so assms(4)]
  show ?thesis
    using assms(2,3) g
    by (auto simp: order_ok_def increasing_def bounded_def ahead_served_def served_done_def)
qed

lemma order_ok_scan:
  assumes "sys_ok S" "order_ok S" "disp S = D_Scan k ind i m" "i < NSLOT"
  shows "order_ok (S\<lparr>disp := D_Scan k ind (Suc i) (get_scan (srv S) i m)\<rparr>)"
proof (rule order_ok_frame [OF assms(2)])
  have "number (srv S) ! i \<le> int ind"
  proof (cases "i < ind")
    case True
    with assms(2,4) show ?thesis by (fastforce simp: order_ok_def bounded_def)
  next
    case False
    with assms(1,3,4) have "number (srv S) ! i = 0"
      by (cases "i = ind") (auto simp: sys_ok_def server_ok_def shape_def)
    then show ?thesis by simp
  qed
  with assms(2,3) show "scan_bound (disp (S\<lparr>disp := D_Scan k ind (Suc i) (get_scan (srv S) i m)\<rparr>))"
    by (auto simp: order_ok_def get_scan_def)
qed (simp_all add: assms(3))

lemma order_ok_assign:
  assumes ok: "sys_ok S" and or: "order_ok S" and d: "disp S = D_Scan k ind i m"
    and i: "\<not> i < NSLOT"
  shows "order_ok (S\<lparr>srv := get_assign ind m (srv S), disp := D_Assigned k ind\<rparr>)"
proof -
  let ?s = "srv S" and ?s' = "get_assign ind m (srv S)"
  have so: "server_ok ?s" and dk: "disp_ok ?s (D_Scan k ind i m)" using ok d by (auto simp: sys_ok_def)
  have len: "length (number ?s) = NSLOT" using so by (simp add: server_ok_def shape_def)
  have num': "number ?s' ! j = (if j = ind then m + 1 else number ?s ! j)" for j
    using dk len by (simp add: get_assign_def nth_list_update)
  have above: "number ?s ! j = 0" if "ind < j" "j < NSLOT" for j
    using that so dk by (auto simp: server_ok_def shape_def)
  have le: "number ?s ! j \<le> m" if "j < NSLOT" for j using that dk i by auto
  have inc: "increasing ?s'"
    unfolding increasing_def num'
    using or above le by (fastforce simp: order_ok_def increasing_def)
  have bnd: "bounded ?s'"
    using or d by (auto simp: order_ok_def bounded_def num')
  have "ind \<noteq> j" if "t < length (threads ?s)" "j < t_slot (threads ?s ! t)" for t j
    using server_ok_thread [OF so that(1)] that(2) dk by (auto simp: thread_ok_def Let_def)
  then have ah: "ahead_served ?s'"
    using or by (auto simp: order_ok_def ahead_served_def num') (auto simp: get_assign_def)
  have sd: "served_done ?s' (D_Assigned k ind)"
    using or d by (auto simp: order_ok_def served_done_def num') (auto simp: get_assign_def)
  show ?thesis using inc bnd ah sd by (simp add: order_ok_def)
qed

lemma order_ok_get_return:
  assumes "sys_ok S" "order_ok S" "disp S = D_Assigned k ind" "get_reply ind (srv S) = (r, s')"
  shows "order_ok (reply_to k r (S\<lparr>srv := s', disp := D_Idle\<rparr>))"
  using assms
  by (auto simp: order_ok_def reply_to_def get_reply_def sys_ok_def increasing_def bounded_def
      ahead_served_def served_done_def)

lemma order_ok_wait:
  assumes "sys_ok S" "order_ok S" "disp S = D_Idle" "k < length (clients S)"
    "clients S ! k = C_Wait p n"
    "bakery_wait_1_svc rc1 rc2 \<lparr>bk_num = n, bk_pid = p, bk_res = 0\<rparr> (srv S) = Inr (r, s')"
  shows "order_ok (reply_to k r (S\<lparr>srv := s'\<rparr>))"
proof -
  have so: "server_ok (srv S)" and "client_ok (srv S) D_Idle (C_Wait p n)"
    using assms by (auto simp: sys_ok_def dest: clients_okD)
  then have p: "0 < number (srv S) ! nat p" "0 \<le> p" "p < num (srv S)" by auto
  have s': "num s' = num (srv S)" "number s' = number (srv S)"
    "thr s' = (thr (srv S))[nat p := Some (length (threads (srv S)))]"
    "threads s' = threads (srv S) @ [\<lparr>t_slot = nat p, t_i = 0, t_pc = T_Start\<rparr>]"
    using assms(6) by (auto simp: bakery_wait_1_svc_def Let_def split: if_splits)
  have "ahead_served s'"
    using assms(2) by (auto simp: order_ok_def ahead_served_def s' nth_append)
  moreover have "served_done s' D_Idle"
    unfolding served_done_def
  proof (intro allI impI)
    fix j assume j: "j < NSLOT" "int j < num s'" "number s' ! j = 0"
    then obtain t where t: "thr (srv S) ! j = Some t" "t_pc (threads (srv S) ! t) = T_Done"
      using assms(2,3) by (auto simp: order_ok_def served_done_def s')
    moreover have "t < length (threads (srv S))" using so t j(1) by (auto simp: server_ok_def)
    moreover have "j \<noteq> nat p" using p j(3) by (auto simp: s')
    ultimately show "pending D_Idle = Some j \<or>
        (\<exists>t. thr s' ! j = Some t \<and> t_pc (threads s' ! t) = T_Done)"
      by (auto simp: s' nth_append)
  qed
  ultimately show ?thesis
    using assms(2,3) by (simp add: order_ok_def reply_to_def increasing_def bounded_def s')
qed

lemma bakery_service_passed:
  assumes "bakery_service t s = Some s'" "t < length (threads s)" "thread_ok s t"
    "j < NSLOT" "passed (t_pc (threads s' ! t)) j"
  shows "passed (t_pc (threads s ! t)) j \<or>
     t_pc (threads s ! t) = T_Number j \<and> \<not> must_wait s (int (t_slot (threads s ! t))) j"
  using assms
  by (auto simp: bakery_service_def Let_def set_pc_def thread_ok_def less_Suc_eq
      split: thread_pc.splits if_splits)

text \<open>A thread that stops waiting for a lower slot has found it free.\<close>

lemma not_must_wait_lower:
  assumes "increasing s" "j < p" "p < NSLOT" "0 < number s ! p" "0 \<le> number s ! j"
    "\<not> must_wait s (int p) j"
  shows "number s ! j = 0"
proof (rule ccontr)
  assume "number s ! j \<noteq> 0"
  with assms(5) have "0 < number s ! j" by simp
  with assms have "number s ! j < number s ! p" by (simp add: increasing_def)
  with assms(6) \<open>number s ! j \<noteq> 0\<close> show False by (simp add: must_wait_def)
qed

lemma order_ok_thread:
  assumes ok: "sys_ok S" and or: "order_ok S" and t: "t < length (threads (srv S))"
    and b: "bakery_service t (srv S) = Some s'"
  shows "order_ok (S\<lparr>srv := s'\<rparr>)"
proof -
  let ?s = "srv S" and ?p = "t_slot (threads (srv S) ! t)"
  have so: "server_ok ?s" using ok by (simp add: sys_ok_def)
  note tk = server_ok_thread [OF so t]
  note fr = bakery_service_frame [OF b] bakery_service_slot [OF b t]
  note own = bakery_service_own [OF b t tk]
  have p: "?p < NSLOT" "0 < number ?s ! ?p" "thr ?s ! ?p = Some t"
    using tk own(4) by (auto simp: thread_ok_def Let_def)
  have len: "length (number ?s) = NSLOT" using so by (simp add: server_ok_def shape_def)
  have num': "number s' ! j = (if t_pc (threads ?s ! t) = T_Exit \<and> j = ?p then 0 else number ?s ! j)" for j
    using p len by (simp add: bakery_service_number [OF b t tk] nth_list_update)
  have inc: "increasing s'" using or by (auto simp: order_ok_def increasing_def num')
  have bnd: "bounded s'" using or by (auto simp: order_ok_def bounded_def num')
  have ah: "ahead_served s'"
    unfolding ahead_served_def fr
  proof (intro allI impI)
    fix u j
    assume u: "u < length (threads ?s)" and j: "j < t_slot (threads ?s ! u)"
      and ps: "passed (t_pc (threads s' ! u)) j"
    have jn: "j < NSLOT" using j server_ok_thread [OF so u] by (auto simp: thread_ok_def Let_def)
    have "number ?s ! j = 0"
    proof (cases "passed (t_pc (threads ?s ! u)) j")
      case True
      with or u j show ?thesis by (simp add: order_ok_def ahead_served_def)
    next
      case False
      with ps have [simp]: "u = t" using fr(8) by fastforce
      have nw: "\<not> must_wait ?s (int ?p) j"
        using bakery_service_passed [OF b t tk jn] ps False by simp
      have "0 \<le> number ?s ! j" "increasing ?s"
        using so jn or by (auto simp: order_ok_def server_ok_def shape_def)
      then show ?thesis using not_must_wait_lower [OF _ _ p(1,2) _ nw] j by simp
    qed
    then show "number s' ! j = 0" by (simp add: num')
  qed
  have sd: "served_done s' (disp S)"
    unfolding served_done_def fr
  proof (intro allI impI)
    fix j assume j: "j < NSLOT" "int j < num ?s" "number s' ! j = 0"
    show "pending (disp S) = Some j \<or> (\<exists>t. thr ?s ! j = Some t \<and> t_pc (threads s' ! t) = T_Done)"
    proof (cases "number ?s ! j = 0")
      case True
      with or j obtain u where "pending (disp S) = Some j \<or>
          thr ?s ! j = Some u \<and> t_pc (threads ?s ! u) = T_Done"
        by (auto simp: order_ok_def served_done_def)
      moreover have "u \<noteq> t" if "t_pc (threads ?s ! u) = T_Done" using that own(4) by auto
      ultimately show ?thesis using fr(8) by auto
    next
      case False
      with j have "j = ?p" "t_pc (threads ?s ! t) = T_Exit" by (auto simp: num' split: if_splits)
      with own(1) p show ?thesis by blast
    qed
  qed
  show ?thesis using or inc bnd ah sd by (simp add: order_ok_def)
qed

lemma order_ok_step:
  assumes "sys_step S T" "sys_ok S" "order_ok S"
  shows "order_ok T"
  using assms
proof cases
  case arrive
  with assms(3) show ?thesis by (simp add: order_ok_def)
next
  case call_get
  with assms(2,3) show ?thesis by (simp add: order_ok_get_begin)
next
  case scan
  with assms(2,3) show ?thesis by (simp add: order_ok_scan)
next
  case assign
  with assms(2,3) show ?thesis by (simp add: order_ok_assign)
next
  case get_return
  with assms(2,3) show ?thesis by (simp add: order_ok_get_return)
next
  case call_wait
  with assms(2,3) show ?thesis by (simp add: order_ok_wait)
next
  case (call_service k p n rc t s')
  then have "number s' = number (srv S)" "threads s' = threads (srv S)" "thr s' = thr (srv S)"
    "num s' = num (srv S)"
    by (auto simp: service_begin_def split: if_splits option.splits)
  with call_service show ?thesis by (auto intro: order_ok_frame [OF assms(3)])
next
  case thread_step
  with assms(2,3) show ?thesis by (simp add: order_ok_thread)
qed (auto simp: reply_to_def intro: order_ok_frame [OF assms(3)])

interpretation bakery_order: step_invariant init_sys sys_step "\<lambda>S. sys_ok S \<and> order_ok S"
  by unfold_locales (auto intro: sys_ok_init order_ok_init sys_ok_step order_ok_step)

section \<open>Mutual exclusion\<close>

fun in_critical :: "thread_pc \<Rightarrow> bool" where
  "in_critical T_Enter \<longleftrightarrow> True"
| "in_critical (T_Load v) \<longleftrightarrow> True"
| "in_critical T_Store \<longleftrightarrow> True"
| "in_critical T_Wrap \<longleftrightarrow> True"
| "in_critical T_Exit \<longleftrightarrow> True"
| "in_critical _ \<longleftrightarrow> False"

lemma in_critical_passed: "in_critical pc \<Longrightarrow> passed pc j"
  by (cases pc) auto

lemma critical_not_lower:
  assumes "sys_ok S" "order_ok S" "t < length (threads (srv S))" "u < length (threads (srv S))"
    "in_critical (t_pc (threads (srv S) ! t))" "t_pc (threads (srv S) ! u) \<noteq> T_Done"
  shows "\<not> t_slot (threads (srv S) ! u) < t_slot (threads (srv S) ! t)"
proof
  assume lt: "t_slot (threads (srv S) ! u) < t_slot (threads (srv S) ! t)"
  have "server_ok (srv S)" using assms by (simp add: sys_ok_def)
  then have "0 < number (srv S) ! t_slot (threads (srv S) ! u)"
    using server_ok_thread [OF _ assms(4)] assms(6) by (auto simp: thread_ok_def Let_def)
  moreover have "number (srv S) ! t_slot (threads (srv S) ! u) = 0"
    using assms lt in_critical_passed by (auto simp: order_ok_def ahead_served_def)
  ultimately show False by simp
qed

lemma critical_unique:
  assumes "sys_ok S" "order_ok S" "t < length (threads (srv S))" "u < length (threads (srv S))"
    "in_critical (t_pc (threads (srv S) ! t))" "in_critical (t_pc (threads (srv S) ! u))"
  shows "t = u"
proof -
  have "t_slot (threads (srv S) ! t) = t_slot (threads (srv S) ! u)"
    using critical_not_lower [of S t u] critical_not_lower [of S u t] assms by fastforce
  then show ?thesis using slot_inj assms by (auto simp: sys_ok_def)
qed

end
