(* ===== verification/Letters.thy ===== *)
theory Letters
  imports Prelude
begin

text \<open>
  The letters both bakery servers hand out: the global \<^verbatim>\<open>c\<close> starts at \<^verbatim>\<open>'a'\<close>, is
  incremented for each client and wraps from \<^verbatim>\<open>'z'\<close> to \<^verbatim>\<open>'a'\<close>.
\<close>

definition letter_at :: "nat \<Rightarrow> int" where
  "letter_at k = 97 + int (k mod 26)"

lemma letter_at_range: "97 \<le> letter_at k" "letter_at k \<le> 122"
  using mod_less_divisor [of 26 k] by (auto simp: letter_at_def)

lemma letter_at_0 [simp]: "letter_at 0 = 97"
  by (simp add: letter_at_def)

lemma letter_wrap: "letter_at k + 1 > 122 \<Longrightarrow> letter_at (Suc k) = 97"
  using mod_less_divisor [of 26 k] by (auto simp: letter_at_def mod_Suc)

lemma letter_next: "\<not> letter_at k + 1 > 122 \<Longrightarrow> letter_at (Suc k) = letter_at k + 1"
  by (auto simp: letter_at_def mod_Suc)

lemmas letter_simps = letter_wrap letter_next

text \<open>
  A dispenser holds the current letter; taking one returns it and leaves the next. Whatever
  implements the two laws hands out the alphabet cyclically.
\<close>

locale dispenser =
  fixes cur :: "'s \<Rightarrow> int" and take :: "'s \<Rightarrow> int \<times> 's"
  assumes take_cur: "fst (take s) = cur s"
    and take_next: "cur (snd (take s)) = (if cur s + 1 > 122 then 97 else cur s + 1)"
begin

lemma take_letter:
  assumes "cur s = letter_at k"
  shows "fst (take s) = letter_at k" and "cur (snd (take s)) = letter_at (Suc k)"
  using assms by (auto simp: take_cur take_next letter_simps)

end

end
