(* ===== verification/Bakery_Letters.thy ===== *)
theory Bakery_Letters
  imports Bakery_Order Letters
begin

text \<open>
  What the multi-threaded bakery server hands out: clients are served in the order of their
  tickets, and the \<open>k\<close>-th one gets the \<open>k\<close>-th letter of the repeated alphabet.
\<close>

section \<open>Who is served, and with which letter\<close>

definition thread_letter :: "server \<Rightarrow> thread \<Rightarrow> bool" where
  "thread_letter s th \<longleftrightarrow> (let k = length (printed s); p = t_slot th in
     case t_pc th of
       T_Load v \<Rightarrow> v = letter_at k
     | T_Store \<Rightarrow> letter s = letter_at k + 1 \<and> targ_res (res s ! p) = letter_at k
     | T_Wrap \<Rightarrow> letter s = letter_at (Suc k) \<and> targ_res (res s ! p) = letter_at k
     | T_Exit \<Rightarrow> p < k \<and> targ_res (res s ! p) = letter_at p
     | T_Done \<Rightarrow> p < k \<and> targ_res (res s ! p) = letter_at p
     | _ \<Rightarrow> True)"

definition printed_ok :: "server \<Rightarrow> bool" where
  "printed_ok s \<longleftrightarrow> (\<forall>j<length (printed s).
     fst (printed s ! j) = int j \<and> snd (snd (printed s ! j)) = letter_at j)"

definition unserved :: "server \<Rightarrow> bool" where
  "unserved s \<longleftrightarrow> (\<forall>t<length (threads s). t_slot (threads s ! t) < length (printed s) \<longrightarrow>
     t_pc (threads s ! t) = T_Exit \<or> t_pc (threads s ! t) = T_Done)"

definition holds_letter :: "thread_pc \<Rightarrow> bool" where
  "holds_letter pc \<longleftrightarrow> pc = T_Store \<or> pc = T_Wrap"

definition letters_ok :: "server \<Rightarrow> bool" where
  "letters_ok s \<longleftrightarrow> printed_ok s \<and> unserved s \<and> (\<forall>j<length (printed s). thr s ! j \<noteq> None) \<and>
     (\<forall>t<length (threads s). thread_letter s (threads s ! t)) \<and>
     ((\<forall>t<length (threads s). \<not> holds_letter (t_pc (threads s ! t))) \<longrightarrow>
       letter s = letter_at (length (printed s)))"

lemma letters_ok_init: "init_sys S \<Longrightarrow> letters_ok (srv S)"
  by (simp add: init_sys_def letters_ok_def init_server_def printed_ok_def unserved_def)

lemma thread_letter_start: "t_pc th = T_Start \<Longrightarrow> thread_letter s th"
  by (simp add: thread_letter_def Let_def)

lemma thread_letter_cong:
  assumes "length (printed s') = length (printed s)" "letter s' = letter s"
    "targ_res (res s' ! t_slot th) = targ_res (res s ! t_slot th)"
  shows "thread_letter s' th = thread_letter s th"
  using assms by (cases "t_pc th") (auto simp: thread_letter_def)

lemma letters_ok_frame:
  assumes "letters_ok s" "threads s' = threads s" "printed s' = printed s" "letter s' = letter s"
    "thr s' = thr s" "res s' = res s"
  shows "letters_ok s'"
proof -
  have "thread_letter s' th = thread_letter s th" for th
    using assms by (intro thread_letter_cong) auto
  with assms show ?thesis by (simp add: letters_ok_def printed_ok_def unserved_def)
qed

text \<open>The thread in the critical section that has not printed yet owns the next slot.\<close>

lemma critical_slot:
  assumes ok: "sys_ok S" and or: "order_ok S" and le: "letters_ok (srv S)"
    and t: "t < length (threads (srv S))" "in_critical (t_pc (threads (srv S) ! t))"
      "t_pc (threads (srv S) ! t) \<noteq> T_Exit"
  shows "t_slot (threads (srv S) ! t) = length (printed (srv S))"
proof (rule antisym)
  let ?s = "srv S" and ?p = "t_slot (threads (srv S) ! t)"
  have so: "server_ok ?s" using ok by (simp add: sys_ok_def)
  have tk: "thread_ok ?s t" by (rule server_ok_thread [OF so t(1)])
  have "\<not> ?p < length (printed ?s)"
    using le t by (auto simp: letters_ok_def unserved_def)
  then show "length (printed ?s) \<le> ?p" by simp
  show "?p \<le> length (printed ?s)"
  proof (rule ccontr)
    assume "\<not> ?p \<le> length (printed ?s)"
    then have j: "length (printed ?s) < ?p" by simp
    let ?j = "length (printed ?s)"
    have jn: "?j < NSLOT" "int ?j < num ?s" using j tk by (auto simp: thread_ok_def Let_def)
    have "number ?s ! ?j = 0"
      using or t j in_critical_passed by (auto simp: order_ok_def ahead_served_def)
    then have "pending (disp S) = Some ?j \<or> (\<exists>u. thr ?s ! ?j = Some u \<and> t_pc (threads ?s ! u) = T_Done)"
      using or jn by (auto simp: order_ok_def served_done_def)
    then show False
    proof
      assume "pending (disp S) = Some ?j"
      then have "num ?s = int ?j + 1" using ok by (cases "disp S") (auto simp: sys_ok_def)
      with j tk show False by (auto simp: thread_ok_def Let_def)
    next
      assume "\<exists>u. thr ?s ! ?j = Some u \<and> t_pc (threads ?s ! u) = T_Done"
      then obtain u where u: "thr ?s ! ?j = Some u" "t_pc (threads ?s ! u) = T_Done" by blast
      then have "u < length (threads ?s)" "t_slot (threads ?s ! u) = ?j"
        using so jn by (auto simp: server_ok_def)
      with le u show False by (auto simp: letters_ok_def thread_letter_def Let_def)
    qed
  qed
qed

lemma letters_ok_wait:
  assumes ok: "sys_ok S" and le: "letters_ok (srv S)" and d: "disp S = D_Idle"
    and k: "k < length (clients S)" "clients S ! k = C_Wait p n"
    and w: "bakery_wait_1_svc rc1 rc2 \<lparr>bk_num = n, bk_pid = p, bk_res = 0\<rparr> (srv S) = Inr (r, s')"
  shows "letters_ok s'"
proof -
  let ?s = "srv S"
  have so: "server_ok ?s" and co: "client_ok ?s D_Idle (C_Wait p n)"
    using ok d k by (auto simp: sys_ok_def dest: clients_okD)
  have p: "0 \<le> p" "p < num ?s" "thr ?s ! nat p = None" using co by auto
  have np: "nat p < NSLOT" using p so by (auto simp: server_ok_def shape_def)
  have s': "s' = ?s\<lparr>attr := (attr ?s)[nat p := True],
             res := (res ?s)[nat p := (res ?s ! nat p)\<lparr>targ_pid := p, targ_num := n\<rparr>],
             thr := (thr ?s)[nat p := Some (length (threads ?s))],
             threads := threads ?s @ [\<lparr>t_slot = nat p, t_i = 0, t_pc = T_Start\<rparr>]\<rparr>"
    using w by (auto simp: bakery_wait_1_svc_def Let_def split: if_splits)
  have res': "targ_res (res s' ! q) = targ_res (res ?s ! q)" for q
    by (simp add: s' nth_update_field)
  have fresh: "\<not> nat p < length (printed ?s)" using le p by (auto simp: letters_ok_def)
  have fld: "printed s' = printed ?s" "letter s' = letter ?s"
    "threads s' = threads ?s @ [\<lparr>t_slot = nat p, t_i = 0, t_pc = T_Start\<rparr>]"
    "\<And>j. thr ?s ! j \<noteq> None \<Longrightarrow> thr s' ! j \<noteq> None"
    using np so by (auto simp: s' server_ok_def shape_def nth_list_update)
  have tl: "thread_letter s' th = thread_letter ?s th" for th
    by (rule thread_letter_cong) (simp_all add: fld res')
  have "thread_letter s' (threads s' ! t)" if "t < length (threads s')" for t
    using that le
    by (auto simp: fld(3) tl letters_ok_def nth_append less_Suc_eq thread_letter_start)
  moreover have "unserved s'"
    using le fresh by (auto simp: fld letters_ok_def unserved_def nth_append less_Suc_eq)
  moreover have "letter s' = letter_at (length (printed s'))"
    if "\<forall>t<length (threads s'). \<not> holds_letter (t_pc (threads s' ! t))"
  proof -
    have "\<not> holds_letter (t_pc (threads ?s ! t))" if "t < length (threads ?s)" for t
      using \<open>\<forall>t<_. _\<close> [rule_format, of t] that by (simp add: fld nth_append)
    with le show ?thesis by (auto simp: fld letters_ok_def)
  qed
  ultimately show ?thesis using le fld(4) by (auto simp: letters_ok_def printed_ok_def fld)
qed

text \<open>A step outside the critical section does not touch what the letters depend on.\<close>

lemma letters_ok_quiet:
  assumes le: "letters_ok s" and t: "t < length (threads s)"
    and f: "printed s' = printed s" "letter s' = letter s" "res s' = res s" "thr s' = thr s"
      "threads s' = (threads s)[t := th']" "t_slot th' = t_slot (threads s ! t)"
    and h: "\<not> holds_letter (t_pc th')" "\<not> holds_letter (t_pc (threads s ! t))"
    and l: "thread_letter s' th'"
    and u: "t_pc (threads s ! t) = T_Exit \<or> t_pc (threads s ! t) = T_Done \<longrightarrow>
      t_pc th' = T_Exit \<or> t_pc th' = T_Done"
  shows "letters_ok s'"
proof -
  have th: "threads s' ! v = (if v = t then th' else threads s ! v)" if "v < length (threads s)" for v
    using that by (simp add: f nth_list_update)
  have tl: "thread_letter s' x = thread_letter s x" for x
    by (rule thread_letter_cong) (simp_all add: f)
  have "thread_letter s' (threads s' ! v)" if "v < length (threads s')" for v
    using that le l th [of v] by (cases "v = t") (auto simp: letters_ok_def tl f(5))
  moreover have "unserved s'"
    unfolding unserved_def
  proof (intro allI impI)
    fix v assume v: "v < length (threads s')" "t_slot (threads s' ! v) < length (printed s')"
    then have "t_pc (threads s ! v) = T_Exit \<or> t_pc (threads s ! v) = T_Done"
      using le f(6) t by (cases "v = t") (auto simp: letters_ok_def unserved_def f(1,5))
    then show "t_pc (threads s' ! v) = T_Exit \<or> t_pc (threads s' ! v) = T_Done"
      using u t by (cases "v = t") (auto simp: f(5))
  qed
  moreover have "letter s' = letter_at (length (printed s'))"
    if "\<forall>v<length (threads s'). \<not> holds_letter (t_pc (threads s' ! v))"
  proof -
    have "\<not> holds_letter (t_pc (threads s ! v))" if "v < length (threads s)" for v
      using \<open>\<forall>v<_. _\<close> [rule_format, of v] that h by (cases "v = t") (auto simp: f)
    with le show ?thesis by (auto simp: letters_ok_def f)
  qed
  ultimately show ?thesis using le by (auto simp: letters_ok_def printed_ok_def f)
qed

text \<open>In the critical section the other threads hold no letter and keep their own results.\<close>

lemma letters_ok_critical:
  assumes ok: "sys_ok S" and or: "order_ok S" and le: "letters_ok (srv S)"
    and t: "t < length (threads (srv S))" "in_critical (t_pc (threads (srv S) ! t))"
      "t_pc (threads (srv S) ! t) \<noteq> T_Exit"
    and f: "thr s' = thr (srv S)" "threads s' = (threads (srv S))[t := th']"
      "t_slot th' = t_slot (threads (srv S) ! t)" "in_critical (t_pc th')"
      "\<And>q. q \<noteq> t_slot th' \<Longrightarrow> res s' ! q = res (srv S) ! q"
    and pr: "printed s' = printed (srv S) \<and> t_pc th' \<noteq> T_Exit \<or>
      printed s' = printed (srv S) @ [x] \<and> t_pc th' = T_Exit \<and>
      fst x = int (t_slot th') \<and> snd (snd x) = letter_at (t_slot th')"
    and l: "thread_letter s' th'"
    and c: "\<not> holds_letter (t_pc th') \<Longrightarrow> letter s' = letter_at (length (printed s'))"
  shows "letters_ok s'"
proof -
  let ?s = "srv S" and ?n = "length (printed (srv S))"
  have so: "server_ok ?s" using ok by (simp add: sys_ok_def)
  have slot: "t_slot (threads ?s ! t) = ?n" by (rule critical_slot [OF ok or le t])
  have th: "threads s' ! v = (if v = t then th' else threads ?s ! v)" if "v < length (threads ?s)" for v
    using that by (simp add: f nth_list_update)
  have other: "\<not> in_critical (t_pc (threads ?s ! v)) \<and> t_slot (threads ?s ! v) \<noteq> ?n"
    if "v < length (threads ?s)" "v \<noteq> t" for v
    using that critical_unique [OF ok or _ t(1) _ t(2), of v] slot_inj [OF so _ t(1), of v] slot by auto
  have "thread_letter s' (threads s' ! v)" if v: "v < length (threads s')" for v
  proof (cases "v = t")
    case True
    with l t(1) show ?thesis by (simp add: f)
  next
    case False
    with v have "thread_letter ?s (threads ?s ! v)" "\<not> in_critical (t_pc (threads ?s ! v))"
      "t_slot (threads ?s ! v) \<noteq> t_slot th'"
      using le other [of v] slot f(3) by (auto simp: f(2) letters_ok_def)
    with False v pr f(5) show ?thesis
      by (cases "t_pc (threads ?s ! v)") (auto simp: f(2) thread_letter_def Let_def)
  qed
  moreover have "unserved s'"
    unfolding unserved_def
  proof (intro allI impI)
    fix v assume v: "v < length (threads s')" "t_slot (threads s' ! v) < length (printed s')"
    show "t_pc (threads s' ! v) = T_Exit \<or> t_pc (threads s' ! v) = T_Done"
    proof (cases "v = t")
      case True
      with v pr slot f(3) t(1) show ?thesis by (auto simp: f(2))
    next
      case False
      with v pr other [of v] have "t_slot (threads ?s ! v) < ?n" by (auto simp: f(2))
      with False v le show ?thesis by (auto simp: f(2) letters_ok_def unserved_def)
    qed
  qed
  moreover have "printed_ok s'"
    using le pr slot f(3) by (auto simp: letters_ok_def printed_ok_def nth_append less_Suc_eq)
  moreover have "thr s' ! j \<noteq> None" if "j < length (printed s')" for j
  proof (cases "j < ?n")
    case True
    with le show ?thesis by (simp add: f(1) letters_ok_def)
  next
    case False
    with that pr have "j = t_slot (threads ?s ! t)" by (auto simp: slot)
    then show ?thesis using server_ok_thread [OF so t(1)] by (simp add: f(1) thread_ok_def Let_def)
  qed
  moreover have "letter s' = letter_at (length (printed s'))"
    if "\<forall>v<length (threads s'). \<not> holds_letter (t_pc (threads s' ! v))"
    using that [rule_format, of t] t(1) c by (simp add: f(2))
  ultimately show ?thesis by (simp add: letters_ok_def)
qed

text \<open>The critical steps one by one, then every step of a thread.\<close>

lemma letters_ok_thread:
  assumes ok: "sys_ok S" and or: "order_ok S" and le: "letters_ok (srv S)"
    and t: "t < length (threads (srv S))" and b: "bakery_service t (srv S) = Some s'"
  shows "letters_ok s'"
proof -
  let ?s = "srv S" and ?th = "threads (srv S) ! t"
  have so: "server_ok ?s" using ok by (simp add: sys_ok_def)
  have tk: "thread_ok ?s t" by (rule server_ok_thread [OF so t])
  have len: "t_slot ?th < length (res ?s)" and pid: "targ_pid (res ?s ! t_slot ?th) = int (t_slot ?th)"
    using so tk by (auto simp: server_ok_def shape_def thread_ok_def Let_def)
  have tl: "thread_letter ?s ?th" using le t by (simp add: letters_ok_def)
  note slot = critical_slot [OF ok or le t]
  note quiet = letters_ok_quiet [OF le t] and crit = letters_ok_critical [OF ok or le t]
  note step = bakery_service_def Let_def set_pc_def
  have calm: "letter ?s = letter_at (length (printed ?s))"
    if "in_critical (t_pc ?th)" "\<not> holds_letter (t_pc ?th)"
  proof -
    have "\<not> holds_letter (t_pc (threads ?s ! v))" if v: "v < length (threads ?s)" for v
      using critical_unique [OF ok or v t] that \<open>\<not> holds_letter (t_pc ?th)\<close> \<open>in_critical (t_pc ?th)\<close>
      by (cases "v = t") (auto simp: holds_letter_def)
    with le show ?thesis by (simp add: letters_ok_def)
  qed
  show ?thesis
  proof (cases "t_pc ?th")
    case (T_Load v)
    with b have s': "s' = set_pc t T_Store
        (?s\<lparr>letter := v + 1, res := (res ?s)[t_slot ?th := (res ?s ! t_slot ?th)\<lparr>targ_res := v\<rparr>]\<rparr>)"
      by (simp add: step)
    show ?thesis
      by (rule crit [where th' = "?th\<lparr>t_pc := T_Store\<rparr>"])
         (use T_Load tl len in \<open>auto simp: s' set_pc_def thread_letter_def Let_def holds_letter_def\<close>)
  next
    case T_Store
    with b have s': "s' = set_pc t T_Wrap (if letter ?s > 122 then ?s\<lparr>letter := 97\<rparr> else ?s)"
      by (auto simp: step)
    show ?thesis
      by (rule crit [where th' = "?th\<lparr>t_pc := T_Wrap\<rparr>"])
         (use T_Store tl in \<open>auto simp: s' set_pc_def thread_letter_def Let_def holds_letter_def
            letter_simps\<close>)
  next
    case T_Wrap
    with b have s': "s' = set_pc t T_Exit (?s\<lparr>printed := printed ?s @
        [(targ_pid (res ?s ! t_slot ?th), targ_num (res ?s ! t_slot ?th), targ_res (res ?s ! t_slot ?th))]\<rparr>)"
      by (simp add: step)
    show ?thesis
      by (rule crit [where th' = "?th\<lparr>t_pc := T_Exit\<rparr>"])
         (use T_Wrap tl pid slot in \<open>auto simp: s' set_pc_def thread_letter_def Let_def\<close>)
  next
    case T_Enter
    with b have s': "s' = set_pc t (T_Load (letter ?s)) ?s" by (simp add: step)
    show ?thesis
      by (rule quiet [where th' = "?th\<lparr>t_pc := T_Load (letter ?s)\<rparr>"])
         (use T_Enter calm in \<open>auto simp: s' set_pc_def thread_letter_def Let_def holds_letter_def\<close>)
  next
    case T_Exit
    with b have s': "s' = set_pc t T_Done (?s\<lparr>number := (number ?s)[nat (t_i ?th) := 0]\<rparr>)"
      by (simp add: step)
    show ?thesis
      by (rule quiet [where th' = "?th\<lparr>t_pc := T_Done\<rparr>"])
         (use T_Exit tl in \<open>auto simp: s' set_pc_def thread_letter_def Let_def holds_letter_def\<close>)
  next
    case T_Done
    with b show ?thesis by (simp add: step)
  qed (use b in \<open>auto simp: step thread_letter_def holds_letter_def split: if_splits intro!: quiet\<close>)
qed

lemma letters_ok_step:
  assumes "sys_step S T" "sys_ok S" "order_ok S" "letters_ok (srv S)"
  shows "letters_ok (srv T)"
  using assms
proof cases
  case call_get
  then show ?thesis
    by (auto intro!: letters_ok_frame [OF assms(4)] simp: get_begin_def split: sum.splits)
next
  case call_wait
  with assms show ?thesis by (simp add: reply_to_def letters_ok_wait)
next
  case thread_step
  with assms show ?thesis by (simp add: letters_ok_thread)
qed (auto intro!: letters_ok_frame [OF assms(4)]
       simp: reply_to_def get_assign_def get_reply_def service_begin_def
       split: if_splits option.splits)

interpretation bakery: step_invariant init_sys sys_step
    "\<lambda>S. sys_ok S \<and> order_ok S \<and> letters_ok (srv S)"
  by unfold_locales
     (auto intro: sys_ok_init order_ok_init letters_ok_init sys_ok_step order_ok_step letters_ok_step)

end
