(* ===== verification/Bakery_Runs.thy ===== *)
theory Bakery_Runs
  imports Bakery_Letters
begin

text \<open>
  A service thread running alone: how many steps it still has to take, and that it takes them all
  if its ticket is at the head of the queue.
\<close>

fun pc_left :: "thread_pc \<Rightarrow> nat" where
  "pc_left T_Start = 2 * NSLOT + 8"
| "pc_left T_Sleep = 2 * NSLOT + 7"
| "pc_left (T_Choosing j) = 2 * (NSLOT - j) + 6"
| "pc_left (T_Number j) = 2 * (NSLOT - j) + 5"
| "pc_left T_Enter = 5"
| "pc_left (T_Load v) = 4"
| "pc_left T_Store = 3"
| "pc_left T_Wrap = 2"
| "pc_left T_Exit = 1"
| "pc_left T_Done = 0"

abbreviation left_of :: "nat \<Rightarrow> server \<Rightarrow> nat" where
  "left_of t s \<equiv> pc_left (t_pc (threads s ! t))"

lemma pc_left_bound: "pc_left pc \<le> 72"
  by (cases pc) (auto simp: NSLOT_def)

definition own_step :: "nat \<Rightarrow> server \<Rightarrow> server \<Rightarrow> bool" where
  "own_step t s s' \<longleftrightarrow> bakery_service t s = Some s'"

text \<open>Thread \<open>t\<close> runs on the ticket of slot \<open>p\<close>, which nobody it has to wait for is ahead of.\<close>

definition on_ticket :: "nat \<Rightarrow> nat \<Rightarrow> server \<Rightarrow> bool" where
  "on_ticket t p s \<longleftrightarrow> t < length (threads s) \<and> t_slot (threads s ! t) = p \<and> targ_pid (res s ! p) = int p \<and>
     (t_pc (threads s ! t) \<noteq> T_Start \<longrightarrow> t_i (threads s ! t) = int p) \<and>
     (\<forall>j. t_pc (threads s ! t) = T_Number j \<longrightarrow> j < NSLOT)"

definition unblocked :: "nat \<Rightarrow> server \<Rightarrow> bool" where
  "unblocked p s \<longleftrightarrow> (\<forall>j<NSLOT. choosing s ! j = 0 \<and> \<not> must_wait s (int p) j)"

lemma unblocked_frame: "number s' = number s \<Longrightarrow> choosing s' = choosing s \<Longrightarrow> unblocked p s' \<longleftrightarrow> unblocked p s"
  by (simp add: unblocked_def must_wait_def)

lemma own_step_next:
  assumes "on_ticket t p s" "unblocked p s" "0 < left_of t s"
  shows "\<exists>s'. own_step t s s' \<and> Suc (left_of t s') = left_of t s"
  using assms
  by (cases "t_pc (threads s ! t)")
     (auto simp: own_step_def on_ticket_def unblocked_def bakery_service_def Let_def set_pc_def)

lemma own_step_keeps:
  assumes "own_step t s s'" "on_ticket t p s"
  shows "on_ticket t p s'" "1 < left_of t s \<Longrightarrow> number s' = number s" "choosing s' = choosing s"
    "4 < left_of t s \<Longrightarrow> letter s' = letter s \<and> res s' = res s"
    "length (threads s') = length (threads s)" "u \<noteq> t \<Longrightarrow> threads s' ! u = threads s ! u"
  using assms
  by (auto simp: own_step_def on_ticket_def bakery_service_def Let_def set_pc_def nth_update_field split: thread_pc.splits if_splits)

text \<open>Such a thread runs to any point ahead of it.\<close>

lemma own_run:
  assumes "on_ticket t p s" "unblocked p s" "k \<le> left_of t s"
  shows "\<exists>s'. (own_step t ^^ (left_of t s - k)) s s' \<and> left_of t s' = k \<and> on_ticket t p s' \<and>
    (0 < k \<longrightarrow> number s' = number s \<and> choosing s' = choosing s) \<and>
    (4 \<le> k \<longrightarrow> letter s' = letter s \<and> res s' = res s) \<and>
    length (threads s') = length (threads s) \<and> (\<forall>u. u \<noteq> t \<longrightarrow> threads s' ! u = threads s ! u)"
  using assms
proof (induction "left_of t s - k" arbitrary: s)
  case 0
  then show ?case by (intro exI [of _ s]) simp
next
  case (Suc n)
  from Suc.hyps(2) have pos: "0 < left_of t s" "k < left_of t s" by simp_all
  from own_step_next [OF Suc.prems(1,2) pos(1)] obtain s1 where s1: "own_step t s s1" "Suc (left_of t s1) = left_of t s" by blast
  note keeps = own_step_keeps [OF s1(1) Suc.prems(1)]
  have n: "n = left_of t s1 - k" and k: "k \<le> left_of t s1" using Suc.hyps(2) s1(2) by simp_all
  show ?case
  proof (cases "left_of t s1 = 0")
    case True
    with k s1(2) have zero: "k = 0" and one: "left_of t s = Suc 0" by simp_all
    have "(own_step t ^^ (left_of t s - k)) s s1" unfolding zero one using s1(1) by auto
    then show ?thesis using keeps True zero by (intro exI [of _ s1]) auto
  next
    case False
    then have "1 < left_of t s" using s1(2) by simp
    with keeps have same: "number s1 = number s" "choosing s1 = choosing s" by simp_all
    then have "unblocked p s1" using Suc.prems(2) unblocked_frame by blast
    from Suc.hyps(1) [OF n keeps(1) this k] obtain s2 where s2: "(own_step t ^^ (left_of t s1 - k)) s1 s2" "left_of t s2 = k"
      "on_ticket t p s2" "0 < k \<longrightarrow> number s2 = number s1 \<and> choosing s2 = choosing s1"
      "4 \<le> k \<longrightarrow> letter s2 = letter s1 \<and> res s2 = res s1"
      "length (threads s2) = length (threads s1)" "\<forall>u. u \<noteq> t \<longrightarrow> threads s2 ! u = threads s1 ! u"
      by (elim exE conjE) (rule that; assumption)
    have "(own_step t ^^ (left_of t s - k)) s s2"
      using s1(1) s2(1) Suc.hyps(2) n by (metis relpowp_Suc_I2)
    moreover have "4 \<le> k \<longrightarrow> letter s2 = letter s \<and> res s2 = res s"
      using s2(5) keeps(4) pos(2) by auto
    ultimately show ?thesis using s2 same keeps by (intro exI [of _ s2]) simp
  qed
qed

lemma left_0: "left_of t s = 0 \<longleftrightarrow> t_pc (threads s ! t) = T_Done"
  by (cases "t_pc (threads s ! t)") auto

lemma left_5: "on_ticket t p s \<Longrightarrow> left_of t s = 5 \<longleftrightarrow> t_pc (threads s ! t) = T_Enter"
  by (cases "t_pc (threads s ! t)") (auto simp: on_ticket_def NSLOT_def)

end
