(* ===== verification/Bakery_Service.thy ===== *)
theory Bakery_Service
  imports Bakery_Runs
begin

text \<open>
  The properties of the multi-threaded bakery server, over every reachable state of the
  interleaved system: mutual exclusion, service in ticket order, bounds, progress of the
  thread at the head of the queue, and the deadlock of \<^verbatim>\<open>pthread_join\<close> with a client that has
  a ticket but no thread yet. Schedules make concrete reachable states executable.
\<close>

section \<open>The choosing flags\<close>

definition choosing_ok :: "sys \<Rightarrow> bool" where
  "choosing_ok S \<longleftrightarrow> (\<forall>j<NSLOT. choosing (srv S) ! j \<noteq> 0 \<longrightarrow> pending (disp S) = Some j)"

lemma choosing_ok_init: "init_sys S \<Longrightarrow> choosing_ok S"
  by (simp add: init_sys_def choosing_ok_def init_server_def)

lemma choosing_ok_step:
  assumes "sys_step S T" "sys_ok S" "choosing_ok S"
  shows "choosing_ok T"
  using assms
proof cases
  case (call_get k ind s')
  then show ?thesis
    using assms(3)
    by (auto simp: choosing_ok_def get_begin_def aput_def nth_list_update in_bounds_def
        split: sum.splits if_splits)
next
  case get_return
  with assms show ?thesis
    by (auto simp: choosing_ok_def reply_to_def get_reply_def nth_list_update sys_ok_def
        server_ok_def shape_def split: if_splits)
next
  case thread_step
  with assms(3) show ?thesis by (simp add: choosing_ok_def bakery_service_frame)
qed (use assms(3) in \<open>auto simp: choosing_ok_def reply_to_def get_assign_def service_begin_def
       bakery_wait_1_svc_def Let_def split: if_splits option.splits\<close>)

text \<open>The index of the waiting loop stays inside the arrays.\<close>

definition loop_ok :: "sys \<Rightarrow> bool" where
  "loop_ok S \<longleftrightarrow> (\<forall>t<length (threads (srv S)). \<forall>j. t_pc (threads (srv S) ! t) = T_Number j \<longrightarrow> j < NSLOT)"

lemma loop_ok_init: "init_sys S \<Longrightarrow> loop_ok S"
  by (simp add: init_sys_def loop_ok_def init_server_def)

lemma loop_ok_frame: "loop_ok S \<Longrightarrow> threads (srv T) = threads (srv S) \<Longrightarrow> loop_ok T"
  by (simp add: loop_ok_def)

lemma bakery_service_loop:
  "bakery_service t s = Some s' \<Longrightarrow> t < length (threads s) \<Longrightarrow>
   t_pc (threads s' ! t) = T_Number j \<Longrightarrow> j < NSLOT"
  by (auto simp: bakery_service_def Let_def set_pc_def split: thread_pc.splits if_splits)

lemma loop_ok_step:
  assumes "sys_step S T" "loop_ok S"
  shows "loop_ok T"
  using assms
proof cases
  case (thread_step t s')
  show ?thesis
    unfolding loop_ok_def
  proof (intro allI impI)
    fix u j
    assume "u < length (threads (srv T))" "t_pc (threads (srv T) ! u) = T_Number j"
    with thread_step assms(2) bakery_service_frame(5,8) [OF thread_step(4)]
      bakery_service_loop [OF thread_step(4,3)]
    show "j < NSLOT" by (cases "u = t") (auto simp: loop_ok_def)
  qed
next
  case call_wait
  with assms(2) show ?thesis
    by (auto simp: loop_ok_def reply_to_def bakery_wait_1_svc_def Let_def nth_append split: if_splits)
qed (auto intro!: loop_ok_frame [OF assms(2)]
       simp: reply_to_def get_begin_def get_assign_def get_reply_def service_begin_def
       split: if_splits option.splits sum.splits)

definition bakery_inv :: "sys \<Rightarrow> bool" where
  "bakery_inv S \<longleftrightarrow> sys_ok S \<and> order_ok S \<and> letters_ok (srv S) \<and> choosing_ok S \<and> loop_ok S"

interpretation bakery_system: step_invariant init_sys sys_step bakery_inv
  by unfold_locales
     (auto simp: bakery_inv_def intro: sys_ok_init order_ok_init letters_ok_init choosing_ok_init
        loop_ok_init sys_ok_step order_ok_step letters_ok_step choosing_ok_step loop_ok_step)

section \<open>Running the system\<close>

text \<open>A schedule names the step to take; running it yields a reachable state.\<close>

datatype action =
  A_Arrive | A_Get nat | A_Scan | A_Assign | A_Return | A_Wait nat | A_Service nat | A_Joined | A_Thread nat

definition stopped :: "dispatcher \<Rightarrow> bool" where
  "stopped d \<longleftrightarrow> (case d of D_Stopped f \<Rightarrow> True | _ \<Rightarrow> False)"

fun exec :: "action \<Rightarrow> sys \<Rightarrow> sys option" where
  "exec A_Arrive S = (if stopped (disp S) then None else Some (S\<lparr>clients := clients S @ [C_Get]\<rparr>))"
| "exec (A_Get k) S =
     (if disp S = D_Idle \<and> k < length (clients S) \<and> clients S ! k = C_Get
      then case get_begin (srv S) of
        Inl f \<Rightarrow> Some (S\<lparr>disp := D_Stopped f\<rparr>)
      | Inr (ind, s') \<Rightarrow> Some (S\<lparr>srv := s', disp := D_Scan k ind 0 0\<rparr>)
      else None)"
| "exec A_Scan S = (case disp S of
      D_Scan k ind i m \<Rightarrow>
        if i < NSLOT then Some (S\<lparr>disp := D_Scan k ind (Suc i) (get_scan (srv S) i m)\<rparr>) else None
    | _ \<Rightarrow> None)"
| "exec A_Assign S = (case disp S of
      D_Scan k ind i m \<Rightarrow>
        if i < NSLOT then None
        else Some (S\<lparr>srv := get_assign ind m (srv S), disp := D_Assigned k ind\<rparr>)
    | _ \<Rightarrow> None)"
| "exec A_Return S = (case disp S of
      D_Assigned k ind \<Rightarrow> (case get_reply ind (srv S) of (r, s') \<Rightarrow>
        Some (reply_to k r (S\<lparr>srv := s', disp := D_Idle\<rparr>)))
    | _ \<Rightarrow> None)"
| "exec (A_Wait k) S =
     (if disp S = D_Idle \<and> k < length (clients S)
      then case clients S ! k of
        C_Wait p n \<Rightarrow>
          (case bakery_wait_1_svc 0 0 \<lparr>bk_num = n, bk_pid = p, bk_res = 0\<rparr> (srv S) of
             Inl f \<Rightarrow> None | Inr (r, s') \<Rightarrow> Some (reply_to k r (S\<lparr>srv := s'\<rparr>)))
      | _ \<Rightarrow> None
      else None)"
| "exec (A_Service k) S =
     (if disp S = D_Idle \<and> k < length (clients S)
      then case clients S ! k of
        C_Service p n \<Rightarrow>
          (case service_begin 0 \<lparr>bk_num = n, bk_pid = p, bk_res = 0\<rparr> (srv S) of
             Inl f \<Rightarrow> None | Inr (t, s') \<Rightarrow> Some (S\<lparr>srv := s', disp := D_Join k (nat p) t\<rparr>))
      | _ \<Rightarrow> None
      else None)"
| "exec A_Joined S = (case disp S of
      D_Join k p t \<Rightarrow>
        if t_pc (threads (srv S) ! t) = T_Done
        then case service_end 0 p (srv S) of
          Inl f \<Rightarrow> None | Inr r \<Rightarrow> Some (reply_to k r (S\<lparr>disp := D_Idle\<rparr>))
        else None
    | _ \<Rightarrow> None)"
| "exec (A_Thread t) S =
     (if \<not> stopped (disp S) \<and> t < length (threads (srv S))
      then map_option (\<lambda>s'. S\<lparr>srv := s'\<rparr>) (bakery_service t (srv S)) else None)"

fun exec_all :: "action list \<Rightarrow> sys \<Rightarrow> sys option" where
  "exec_all [] S = Some S"
| "exec_all (a # as) S = (case exec a S of None \<Rightarrow> None | Some T \<Rightarrow> exec_all as T)"

lemma stopped_iff: "stopped d \<longleftrightarrow> (\<exists>f. d = D_Stopped f)"
  by (auto simp: stopped_def split: dispatcher.splits)

lemma exec_step: "exec a S = Some T \<Longrightarrow> sys_step S T"
  by (cases a)
     (auto simp: stopped_iff intro: sys_step.intros
       split: if_splits sum.splits dispatcher.splits client.splits prod.splits)

lemma exec_all_reachable:
  "exec_all as S = Some T \<Longrightarrow> reachable init_sys sys_step S \<Longrightarrow> reachable init_sys sys_step T"
proof (induction as arbitrary: S)
  case Nil
  then show ?case by simp
next
  case (Cons a as)
  then show ?case by (auto split: option.splits intro: reach_step dest: exec_step)
qed

definition start_sys :: sys where
  "start_sys = \<lparr>srv = init_server, disp = D_Idle, clients = []\<rparr>"

lemma exec_all_start: "exec_all as start_sys = Some T \<Longrightarrow> reachable init_sys sys_step T"
  by (erule exec_all_reachable) (simp add: reach_init init_sys_def start_sys_def)

definition get_schedule :: "nat \<Rightarrow> action list" where
  "get_schedule k = [A_Arrive, A_Get k] @ replicate NSLOT A_Scan @ [A_Assign, A_Return]"

definition wait_schedule :: "nat \<Rightarrow> nat \<Rightarrow> action list" where
  "wait_schedule t j = replicate (2 + 2 * j) (A_Thread t)"

text \<open>Client 0 has its ticket; client 1 waits, and its thread spins on slot 0.\<close>

definition stuck_schedule :: "action list" where
  "stuck_schedule = get_schedule 0 @ get_schedule 1 @ [A_Wait 1, A_Service 1] @ replicate 3 (A_Thread 0)"

definition enter_schedule :: "action list" where
  "enter_schedule = get_schedule 0 @ [A_Wait 0] @ wait_schedule 0 NSLOT @ [A_Thread 0]"

text \<open>The thread of client 0 is in its waiting loop while client 1 gets its ticket.\<close>

definition issue_schedule :: "action list" where
  "issue_schedule = get_schedule 0 @ [A_Wait 0] @ wait_schedule 0 1 @ [A_Arrive, A_Get 1, A_Scan]"

definition join_schedule :: "action list" where
  "join_schedule = get_schedule 0 @ [A_Wait 0, A_Service 0] @ wait_schedule 0 NSLOT @ replicate 6 (A_Thread 0)"

text \<open>The states these schedules lead to.\<close>

definition state_after :: "action list \<Rightarrow> sys" where
  "state_after as = (case exec_all as start_sys of Some T \<Rightarrow> T | None \<Rightarrow> start_sys)"

lemma state_after_reachable: "reachable init_sys sys_step (state_after as)"
  by (auto simp: state_after_def start_sys_def init_sys_def reach_init
      split: option.splits intro: exec_all_start)

section \<open>A blocked join\<close>

text \<open>
  The dispatcher waits in \<^verbatim>\<open>pthread_join\<close> for the thread of slot \<open>p\<close>, which spins on a lower
  slot \<open>j\<close> whose client has its ticket but has not called \<^verbatim>\<open>bakery_wait_1\<close> yet.
\<close>

definition deadlocked :: "nat \<Rightarrow> nat \<Rightarrow> nat \<Rightarrow> nat \<Rightarrow> sys \<Rightarrow> bool" where
  "deadlocked k p t j S \<longleftrightarrow> disp S = D_Join k p t \<and> t < length (threads (srv S)) \<and>
     t_slot (threads (srv S) ! t) = p \<and> t_pc (threads (srv S) ! t) = T_Number j \<and>
     j < NSLOT \<and> thr (srv S) ! j = None \<and> must_wait (srv S) (int p) j"

lemma deadlocked_thread:
  assumes ok: "sys_ok S" and d: "deadlocked k p t j S" and u: "u < length (threads (srv S))"
    and b: "bakery_service u (srv S) = Some s'"
  shows "deadlocked k p t j (S\<lparr>srv := s'\<rparr>)"
proof -
  let ?s = "srv S"
  have so: "server_ok ?s" using ok by (simp add: sys_ok_def)
  note fr = bakery_service_frame [OF b] bakery_service_slot [OF b u]
  have tu: "thread_ok ?s u" and tt: "thread_ok ?s t"
    using server_ok_thread [OF so] u d by (auto simp: deadlocked_def)
  have "u \<noteq> t"
    using b d tt by (auto simp: bakery_service_def deadlocked_def thread_ok_def Let_def)
  then have "t_slot (threads ?s ! u) \<noteq> p"
    using slot_inj [OF so u] d by (auto simp: deadlocked_def)
  moreover have "t_slot (threads ?s ! u) \<noteq> j" using tu d by (auto simp: deadlocked_def thread_ok_def Let_def)
  ultimately have "number s' ! p = number ?s ! p" "number s' ! j = number ?s ! j"
    by (auto simp: bakery_service_number [OF b u tu])
  with d fr \<open>u \<noteq> t\<close> show ?thesis by (auto simp: deadlocked_def must_wait_def)
qed

lemma deadlocked_step:
  assumes "sys_step S T" "sys_ok S" "deadlocked k p t j S"
  shows "(deadlocked k p t j T \<or> stopped (disp T)) \<and> clients T ! k = clients S ! k"
  using assms
proof cases
  case arrive
  with assms(2,3) show ?thesis by (auto simp: deadlocked_def sys_ok_def nth_append)
next
  case thread_step
  with assms(2,3) show ?thesis by (simp add: deadlocked_thread)
next
  case service_return
  with assms(3) show ?thesis by (auto simp: deadlocked_def)
qed (use assms(3) in \<open>auto simp: deadlocked_def stopped_iff\<close>)

lemma stopped_no_step: "sys_step S T \<Longrightarrow> \<not> stopped (disp S)"
  by (cases rule: sys_step.cases) (auto simp: stopped_iff)

text \<open>A thread all of whose lower slots are served never waits.\<close>

lemma head_not_waiting:
  assumes "j < NSLOT" "increasing s" "i = int p" "0 < number s ! p"
    and "\<forall>q<p. number s ! q = 0" "\<forall>q<NSLOT. 0 \<le> number s ! q"
  shows "\<not> must_wait s i j"
proof -
  consider "j < p" | "j = p" | "p < j" by linarith
  then show ?thesis
  proof cases
    case 3
    then have "number s ! p < number s ! j" if "number s ! j \<noteq> 0"
      using assms that by (simp add: increasing_def less_le)
    with assms(3) show ?thesis by (auto simp: must_wait_def)
  qed (use assms in \<open>auto simp: must_wait_def\<close>)
qed

section \<open>The head of the queue\<close>

text \<open>What is left of the ticket the dispatcher is issuing.\<close>

fun issue_rest :: "dispatcher \<Rightarrow> action list" where
  "issue_rest (D_Scan k ind i m) = replicate (NSLOT - i) A_Scan @ [A_Assign, A_Return]"
| "issue_rest (D_Assigned k ind) = [A_Return]"
| "issue_rest d = []"

lemma issue_rest_short: "length (issue_rest d) \<le> 34"
  by (cases d) (simp_all add: NSLOT_def)

lemma exec_all_append:
  "exec_all (as @ bs) S = (case exec_all as S of None \<Rightarrow> None | Some T \<Rightarrow> exec_all bs T)"
  by (induction as arbitrary: S) (simp_all split: option.split)

lemma exec_scans:
  "disp S = D_Scan k ind i m \<Longrightarrow> i + n = NSLOT \<Longrightarrow>
   \<exists>m'. exec_all (replicate n A_Scan) S = Some (S\<lparr>disp := D_Scan k ind NSLOT m'\<rparr>)"
proof (induction n arbitrary: S i m)
  case 0
  then have "S\<lparr>disp := D_Scan k ind NSLOT m\<rparr> = S" by simp
  then show ?case by (metis exec_all.simps(1) replicate_0)
next
  case (Suc n)
  let ?T = "S\<lparr>disp := D_Scan k ind (Suc i) (get_scan (srv S) i m)\<rparr>"
  have "exec A_Scan S = Some ?T" using Suc.prems by simp
  moreover from Suc.IH [of ?T "Suc i" "get_scan (srv S) i m"] Suc.prems
  obtain m' where "exec_all (replicate n A_Scan) ?T = Some (S\<lparr>disp := D_Scan k ind NSLOT m'\<rparr>)" by auto
  ultimately show ?case by (intro exI [of _ m']) (simp del: exec.simps)
qed

lemma issue_rest_runs:
  assumes "bakery_inv S"
  shows "\<exists>T. exec_all (issue_rest (disp S)) S = Some T \<and> pending (disp T) = None \<and>
    threads (srv T) = threads (srv S) \<and>
    (\<forall>j<NSLOT. pending (disp S) \<noteq> Some j \<longrightarrow> number (srv T) ! j = number (srv S) ! j) \<and>
    (pending (disp S) = None \<longrightarrow> T = S)"
proof (cases "disp S")
  case (D_Scan k ind i m)
  with assms have "i \<le> NSLOT" by (auto simp: bakery_inv_def sys_ok_def)
  with exec_scans [OF D_Scan, of "NSLOT - i"] obtain m' where
    "exec_all (replicate (NSLOT - i) A_Scan) S = Some (S\<lparr>disp := D_Scan k ind NSLOT m'\<rparr>)" by auto
  with D_Scan show ?thesis
    by (auto simp: exec_all_append reply_to_def get_reply_def get_assign_def nth_list_update)
qed (auto simp: reply_to_def get_reply_def)

text \<open>A ticket that is being issued is for a slot above those of all threads.\<close>

lemma issuing_above:
  assumes "bakery_inv S" "t < length (threads (srv S))" "j < t_slot (threads (srv S) ! t)"
  shows "j < NSLOT \<and> pending (disp S) \<noteq> Some j"
proof -
  let ?p = "t_slot (threads (srv S) ! t)"
  have "thread_ok (srv S) t" using assms by (auto simp: bakery_inv_def sys_ok_def server_ok_def)
  then have p: "?p < NSLOT" "int ?p < num (srv S)" "thr (srv S) ! ?p = Some t"
    by (auto simp: thread_ok_def Let_def)
  have "disp_ok (srv S) (disp S)" using assms(1) by (simp add: bakery_inv_def sys_ok_def)
  then have "int ?p < int j + 1 \<and> ?p \<noteq> j" if "pending (disp S) = Some j"
    using that p by (cases "disp S") auto
  with p(1) assms(3) show ?thesis by auto
qed

lemma head_returns:
  assumes inv: "bakery_inv S" and "pending (disp S) = None"
    and "t < length (threads (srv S))" and "t_pc (threads (srv S) ! t) \<noteq> T_Done"
    and "\<forall>j < t_slot (threads (srv S) ! t). number (srv S) ! j = 0"
  shows "\<exists>n s'. n \<le> 72 \<and> ((\<lambda>a b. bakery_service t a = Some b) ^^ n) (srv S) s' \<and> t_pc (threads s' ! t) = T_Done"
proof -
  let ?s = "srv S" and ?th = "threads (srv S) ! t"
  have so: "server_ok ?s" using inv by (simp add: bakery_inv_def sys_ok_def)
  note tk = server_ok_thread [OF so assms(3)]
  have "choosing ?s ! j = 0" if "j < NSLOT" for j
    using inv that assms(2) by (auto simp: bakery_inv_def choosing_ok_def)
  moreover have "\<not> must_wait ?s (int (t_slot ?th)) j" if "j < NSLOT" for j
  proof (rule head_not_waiting [OF that])
    show "increasing ?s" using inv by (simp add: bakery_inv_def order_ok_def)
    show "0 < number ?s ! t_slot ?th" using tk assms(4) by (auto simp: thread_ok_def Let_def)
  qed (use so assms(5) in \<open>auto simp: server_ok_def shape_def\<close>)
  ultimately have "unblocked (t_slot ?th) ?s" by (simp add: unblocked_def)
  moreover have "on_ticket t (t_slot ?th) ?s"
    using tk assms(3) inv by (auto simp: on_ticket_def thread_ok_def Let_def bakery_inv_def loop_ok_def)
  ultimately obtain s' where "(own_step t ^^ left_of t ?s) ?s s'" "left_of t s' = 0"
    using own_run [of t _ ?s 0] by (metis diff_zero le0)
  then show ?thesis
    using pc_left_bound unfolding left_0 own_step_def [abs_def] by blast
qed

section \<open>Properties\<close>

text \<open>
  C1: mutual exclusion. In every reachable state of the multi-threaded server at most one
  service thread is between its waiting loop and the reset of its ticket.
\<close>

theorem bakery_mutual_exclusion:
  assumes "reachable init_sys sys_step S"
    and "t < length (threads (srv S))" "u < length (threads (srv S))"
    and "in_critical (t_pc (threads (srv S) ! t))" "in_critical (t_pc (threads (srv S) ! u))"
  shows "t = u"
proof -
  have "bakery_inv S" using assms(1) by (rule bakery_system.reachable_inv)
  with assms show ?thesis by (auto simp: bakery_inv_def intro: critical_unique)
qed

theorem bakery_mutual_exclusion_witness:
  "{u. u < length (threads (srv (state_after enter_schedule))) \<and>
     in_critical (t_pc (threads (srv (state_after enter_schedule)) ! u))} = {0}"
proof -
  have "0 < length (threads (srv (state_after enter_schedule)))"
    "in_critical (t_pc (threads (srv (state_after enter_schedule)) ! 0))"
    by code_simp+
  then show ?thesis
    using bakery_mutual_exclusion [OF state_after_reachable [of enter_schedule], of 0] by blast
qed

text \<open>
  C5: first come, first served. The clients are served in the order of their slots, without
  a gap, and the \<open>j\<close>-th service prints the \<open>j\<close>-th letter of the repeated alphabet, although
  every thread increments the shared letter without a lock.
\<close>

theorem bakery_service_order:
  assumes "reachable init_sys sys_step S" and "j < length (printed (srv S))"
  shows "fst (printed (srv S) ! j) = int j \<and> snd (snd (printed (srv S) ! j)) = letter_at j"
proof -
  have "bakery_inv S" using assms(1) by (rule bakery_system.reachable_inv)
  with assms(2) show ?thesis by (simp add: bakery_inv_def letters_ok_def printed_ok_def)
qed

theorem bakery_service_order_witness:
  "0 < length (printed (srv (state_after join_schedule))) \<and>
   fst (printed (srv (state_after join_schedule)) ! 0) = 0 \<and>
   snd (snd (printed (srv (state_after join_schedule)) ! 0)) = 97"
proof -
  have "0 < length (printed (srv (state_after join_schedule)))" by code_simp
  then show ?thesis
    using bakery_service_order [OF state_after_reachable [of join_schedule], of 0] by simp
qed

text \<open>
  C30: the reply. When \<^verbatim>\<open>pthread_join\<close> returns for slot \<open>p\<close>, the client receives the letter of
  its own ticket: \<open>'a' + p mod 26\<close>.
\<close>

theorem bakery_reply_letter:
  assumes "reachable init_sys sys_step S" and "disp S = D_Join k p t"
    and "t_pc (threads (srv S) ! t) = T_Done"
  shows "service_end 0 p (srv S) = Inr \<lparr>bk_num = 0, bk_pid = 0, bk_res = letter_at p\<rparr>"
proof -
  have inv: "bakery_inv S" using assms(1) by (rule bakery_system.reachable_inv)
  then have "t < length (threads (srv S))" "t_slot (threads (srv S) ! t) = p"
    using assms(2) by (auto simp: bakery_inv_def sys_ok_def server_ok_def)
  with inv assms(3) have "targ_res (res (srv S) ! p) = letter_at p"
    by (auto simp: bakery_inv_def letters_ok_def thread_letter_def Let_def)
  then show ?thesis by (simp add: service_end_def)
qed

theorem bakery_reply_letter_witness:
  "disp (state_after join_schedule) = D_Join 0 0 0 \<and>
   service_end 0 0 (srv (state_after join_schedule)) = Inr \<lparr>bk_num = 0, bk_pid = 0, bk_res = 97\<rparr>"
proof -
  have "disp (state_after join_schedule) = D_Join 0 0 0"
    "t_pc (threads (srv (state_after join_schedule)) ! 0) = T_Done"
    by code_simp+
  then show ?thesis
    using bakery_reply_letter [OF state_after_reachable [of join_schedule], of 0 0 0] by simp
qed

text \<open>
  C34: bounds. Tickets stay between 0 and 32 and at most 32 indices are handed out, so neither
  \<^verbatim>\<open>number[ind] = max + 1\<close> nor \<^verbatim>\<open>num++\<close> overflows; the one access that leaves its array is
  \<^verbatim>\<open>choosing[ind]\<close> when a 33rd client asks for a number.
\<close>

theorem bakery_ticket_bounds:
  assumes "reachable init_sys sys_step S" and "j < NSLOT"
  shows "0 \<le> number (srv S) ! j \<and> number (srv S) ! j \<le> 32 \<and> 0 \<le> num (srv S) \<and> num (srv S) \<le> 32 \<and>
    (get_begin (srv S) = Inl OutOfBounds \<longleftrightarrow> num (srv S) = 32)"
proof -
  have inv: "bakery_inv S" using assms(1) by (rule bakery_system.reachable_inv)
  then have sh: "shape (srv S)" by (simp add: bakery_inv_def sys_ok_def server_ok_def)
  have "number (srv S) ! j \<le> int j + 1" using inv assms(2) by (simp add: bakery_inv_def order_ok_def bounded_def)
  with sh assms(2) show ?thesis
    by (auto simp: shape_def NSLOT_def get_begin_def aput_def in_bounds_def)
qed

theorem bakery_ticket_bounds_witness:
  "number (srv (state_after enter_schedule)) ! 0 = 1 \<and>
   number (srv (state_after enter_schedule)) ! 0 \<le> 32 \<and> num (srv (state_after enter_schedule)) \<le> 32"
proof -
  have "number (srv (state_after enter_schedule)) ! 0 = 1" by code_simp
  then show ?thesis
    using bakery_ticket_bounds [OF state_after_reachable [of enter_schedule], of 0] by (simp add: NSLOT_def)
qed

text \<open>
  C12: progress at the head of the queue. An unfinished thread whose lower slots have all been
  served waits at most for the ticket that is being issued: once the dispatcher has gone through the at
  most 34 steps that are left of that \<^verbatim>\<open>get_number_1_svc\<close>, which nothing blocks, the thread running alone
  returns after at most 72 steps. While no ticket is being issued it does not wait at all.
\<close>

theorem bakery_head_progress:
  assumes "reachable init_sys sys_step S"
    and "t < length (threads (srv S))" and "t_pc (threads (srv S) ! t) \<noteq> T_Done"
    and "\<forall>j < t_slot (threads (srv S) ! t). number (srv S) ! j = 0"
  shows "\<exists>S1 n s'. exec_all (issue_rest (disp S)) S = Some S1 \<and> length (issue_rest (disp S)) \<le> 34 \<and>
    (pending (disp S) = None \<longrightarrow> S1 = S) \<and>
    n \<le> 72 \<and> ((\<lambda>a b. bakery_service t a = Some b) ^^ n) (srv S1) s' \<and> t_pc (threads s' ! t) = T_Done"
proof -
  let ?th = "threads (srv S) ! t"
  have inv: "bakery_inv S" using assms(1) by (rule bakery_system.reachable_inv)
  then obtain S1 where S1: "exec_all (issue_rest (disp S)) S = Some S1" "pending (disp S1) = None"
      "threads (srv S1) = threads (srv S)"
      "\<forall>j<NSLOT. pending (disp S) \<noteq> Some j \<longrightarrow> number (srv S1) ! j = number (srv S) ! j"
      "pending (disp S) = None \<longrightarrow> S1 = S"
    using issue_rest_runs by blast
  have "bakery_inv S1" using exec_all_reachable [OF S1(1) assms(1)] by (rule bakery_system.reachable_inv)
  moreover have "number (srv S1) ! j = 0" if "j < t_slot ?th" for j
    using issuing_above [OF inv assms(2)] S1(4) that assms(4) by auto
  ultimately show ?thesis
    using head_returns [of S1 t] issue_rest_short [of "disp S"] S1 assms(2,3) by auto
qed

theorem bakery_head_progress_witness:
  "\<exists>S1 n s'. exec_all (issue_rest (disp (state_after issue_schedule))) (state_after issue_schedule) = Some S1 \<and>
    n \<le> 72 \<and> ((\<lambda>a b. bakery_service 0 a = Some b) ^^ n) (srv S1) s' \<and> t_pc (threads s' ! 0) = T_Done"
proof -
  have "0 < length (threads (srv (state_after issue_schedule)))"
    "t_slot (threads (srv (state_after issue_schedule)) ! 0) = 0"
    "t_pc (threads (srv (state_after issue_schedule)) ! 0) = T_Choosing 1"
    by code_simp+
  then show ?thesis
    using bakery_head_progress [OF state_after_reachable [of issue_schedule], of 0] by auto
qed

text \<open>
  C15: the blocked join never ends. Once the dispatcher joins a thread that spins on the
  ticket of a client whose \<^verbatim>\<open>bakery_wait_1\<close> call has not been executed, no execution frees
  it: that call would need the dispatcher. The joining client gets no reply; only a failing
  \<^verbatim>\<open>pthread_join\<close>, which ends the server, gets out of this state.
\<close>

theorem bakery_join_deadlock:
  assumes "reachable init_sys sys_step S" and "deadlocked k p t j S" and "sys_step\<^sup>*\<^sup>* S T"
  shows "(deadlocked k p t j T \<or> stopped (disp T)) \<and> clients T ! k = clients S ! k"
  using assms(3)
proof (induction rule: rtranclp_induct)
  case base
  with assms(2) show ?case by simp
next
  case (step T U)
  have "bakery_inv S" using assms(1) by (rule bakery_system.reachable_inv)
  with step.hyps(1) have "bakery_inv T" by (rule bakery_system.steps_inv)
  then have ok: "sys_ok T" by (simp add: bakery_inv_def)
  have "\<not> stopped (disp T)" using step.hyps(2) by (rule stopped_no_step)
  with step.IH deadlocked_step [OF step.hyps(2) ok, of k p t j] show ?case by auto
qed

theorem bakery_join_deadlock_witness:
  "deadlocked 1 1 0 0 (state_after stuck_schedule) \<and>
   {T. sys_step\<^sup>*\<^sup>* (state_after stuck_schedule) T} \<subseteq>
     {T. clients T ! 1 = C_Service 1 2 \<and> (deadlocked 1 1 0 0 T \<or> stopped (disp T))}"
proof -
  have "deadlocked 1 1 0 0 (state_after stuck_schedule)"
    "clients (state_after stuck_schedule) ! 1 = C_Service 1 2"
    by code_simp+
  then show ?thesis
    using bakery_join_deadlock [OF state_after_reachable [of stuck_schedule], of 1 1 0 0] by auto
qed

end
