(* ===== verification/Bakery_Retry.thy ===== *)
theory Bakery_Retry
  imports Bakery_Service
begin

text \<open>
  What becomes of the multi-threaded server when a datagram is sent twice. The clients of
  \<^verbatim>\<open>bakery_client.c\<close> ask for the transport \<^verbatim>\<open>"udp"\<close>, on which the library sends a call again when no reply has come
  for some time, as happens while the dispatcher is in \<^verbatim>\<open>pthread_join\<close>; the server then runs the
  handler twice, and the client ignores the second reply.
\<close>

section \<open>Repeated calls\<close>

inductive retry_step :: "sys \<Rightarrow> sys \<Rightarrow> bool" where
  once: "sys_step S T \<Longrightarrow> retry_step S T"
| get_again:
    "disp S = D_Idle \<Longrightarrow> k < length (clients S) \<Longrightarrow> clients S ! k = C_Wait p n \<Longrightarrow>
     get_number_1_svc (srv S) = Inr (r, s') \<Longrightarrow> retry_step S (S\<lparr>srv := s'\<rparr>)"
| wait_again:
    "disp S = D_Idle \<Longrightarrow> k < length (clients S) \<Longrightarrow> clients S ! k = C_Service p n \<Longrightarrow>
     bakery_wait_1_svc rc1 rc2 \<lparr>bk_num = n, bk_pid = p, bk_res = 0\<rparr> (srv S) = Inr (r, s') \<Longrightarrow>
     retry_step S (S\<lparr>srv := s'\<rparr>)"

lemma own_run_reachable:
  "(own_step t ^^ n) s s' \<Longrightarrow> reachable init_sys retry_step S \<Longrightarrow> srv S = s \<Longrightarrow> disp S = D_Idle \<Longrightarrow>
    t < length (threads s) \<Longrightarrow> reachable init_sys retry_step (S\<lparr>srv := s'\<rparr>)"
proof (induction n arbitrary: s')
  case 0
  then show ?case by (cases S) simp
next
  case (Suc n)
  then obtain u where u: "(own_step t ^^ n) s u" "own_step t u s'" by auto
  have "length (threads u) = length (threads s)"
    using u(1)
  proof (induction n arbitrary: u)
    case (Suc n)
    then show ?case by (auto simp: own_step_def bakery_service_frame(5))
  qed simp
  then have "sys_step (S\<lparr>srv := u\<rparr>) (S\<lparr>srv := u, srv := s'\<rparr>)"
    using u(2) Suc.prems(4,5) by (intro thread_step) (auto simp: own_step_def)
  then show ?case
    using Suc.IH [OF u(1) Suc.prems(2-5)] by (auto intro: reach_step once)
qed

text \<open>A thread on a free ticket runs until it has loaded the letter.\<close>

lemma run_to_load:
  assumes "reachable init_sys retry_step S" "disp S = D_Idle" "on_ticket t p (srv S)" "unblocked p (srv S)"
    and "5 \<le> left_of t (srv S)"
  shows "\<exists>s. reachable init_sys retry_step (S\<lparr>srv := s\<rparr>) \<and> t_pc (threads s ! t) = T_Load (letter (srv S)) \<and> t_i (threads s ! t) = int p \<and>
    number s = number (srv S) \<and> choosing s = choosing (srv S) \<and> letter s = letter (srv S) \<and> res s = res (srv S) \<and>
    length (threads s) = length (threads (srv S)) \<and> (\<forall>u. u \<noteq> t \<longrightarrow> threads s ! u = threads (srv S) ! u)"
proof -
  obtain s1 where s1: "(own_step t ^^ (left_of t (srv S) - 5)) (srv S) s1" "left_of t s1 = 5" "on_ticket t p s1"
    "number s1 = number (srv S)" "choosing s1 = choosing (srv S)" "letter s1 = letter (srv S)" "res s1 = res (srv S)"
    "length (threads s1) = length (threads (srv S))" "\<forall>u. u \<noteq> t \<longrightarrow> threads s1 ! u = threads (srv S) ! u"
    using own_run [OF assms(3-5)] by auto
  have pc: "t_pc (threads s1 ! t) = T_Enter" using s1(2) left_5 [OF s1(3)] by simp
  let ?s = "set_pc t (T_Load (letter s1)) s1"
  have "own_step t s1 ?s" using pc by (simp add: own_step_def bakery_service_def Let_def)
  then have "(own_step t ^^ Suc (left_of t (srv S) - 5)) (srv S) ?s" using s1(1) by auto
  from own_run_reachable [OF this assms(1) refl assms(2)] assms(3)
  have "reachable init_sys retry_step (S\<lparr>srv := ?s\<rparr>)" by (simp add: on_ticket_def)
  then show ?thesis
    using s1 pc by (intro exI [of _ ?s]) (auto simp: set_pc_def on_ticket_def)
qed

section \<open>Properties\<close>

text \<open>
  C10: mutual exclusion does not survive a repeated call. Once a client at the head of the queue has
  called \<^verbatim>\<open>bakery_wait_1\<close> and no ticket is being chosen, a repetition of the call starts a second thread
  with the same ticket, and a state can be reached in which both threads are in the critical
  section and have loaded the same letter.
\<close>

theorem bakery_repeated_wait_breaks_exclusion:
  assumes "reachable init_sys sys_step S" "disp S = D_Idle" "k < length (clients S)" "clients S ! k = C_Service p n"
    and "thr (srv S) ! nat p = Some t" "t_pc (threads (srv S) ! t) = T_Start" "\<forall>j < nat p. number (srv S) ! j = 0"
  shows "\<exists>T u. reachable init_sys retry_step T \<and> u \<noteq> t \<and> u < length (threads (srv T)) \<and>
    t_pc (threads (srv T) ! t) = T_Load (letter (srv S)) \<and> t_pc (threads (srv T) ! u) = T_Load (letter (srv S)) \<and>
    t_i (threads (srv T) ! t) = p \<and> t_i (threads (srv T) ! u) = p"
proof -
  let ?s = "srv S" and ?p = "nat p" and ?u = "length (threads (srv S))"
  have inv: "bakery_inv S" using assms(1) by (rule bakery_system.reachable_inv)
  have so: "server_ok ?s" and co: "clients_ok ?s (disp S) (clients S)" using inv by (simp_all add: bakery_inv_def sys_ok_def)
  have p: "0 \<le> p" "p < num ?s" using clients_okD [OF co assms(3)] assms(4) by simp_all
  then have ps: "?p < NSLOT" "int ?p = p" using so by (auto simp: server_ok_def shape_def)
  have t: "t < length (threads ?s)" "t_slot (threads ?s ! t) = ?p"
    using so assms(5) ps(1) by (auto simp: server_ok_def)
  note tk = server_ok_thread [OF so t(1)]
  have len: "length (attr ?s) = NSLOT" "length (res ?s) = NSLOT" using so by (auto simp: server_ok_def shape_def)
  have "choosing ?s ! j = 0" if "j < NSLOT" for j
    using inv that assms(2) by (auto simp: bakery_inv_def choosing_ok_def)
  moreover have "\<not> must_wait ?s (int ?p) j" if "j < NSLOT" for j
  proof (rule head_not_waiting [OF that])
    show "increasing ?s" using inv by (simp add: bakery_inv_def order_ok_def)
    show "0 < number ?s ! ?p" using tk assms(6) t(2) by (auto simp: thread_ok_def Let_def)
  qed (use so assms(7) in \<open>auto simp: server_ok_def shape_def\<close>)
  ultimately have free: "unblocked ?p ?s" by (simp add: unblocked_def)
  let ?arg = "\<lparr>bk_num = n, bk_pid = p, bk_res = 0\<rparr>"
  have "p < int NSLOT" using ps by linarith
  then have "\<exists>x. bakery_wait_1_svc 0 0 ?arg ?s = Inr x" using p(1) len by (simp add: bakery_wait_1_svc_def in_bounds_def Let_def)
  then obtain r s1 where s1: "bakery_wait_1_svc 0 0 ?arg ?s = Inr (r, s1)" by (metis surj_pair)
  then have s1_eq: "s1 = ?s\<lparr>attr := (attr ?s)[?p := True], res := (res ?s)[?p := (res ?s ! ?p)\<lparr>targ_pid := p, targ_num := n\<rparr>],
      thr := (thr ?s)[?p := Some ?u], threads := threads ?s @ [\<lparr>t_slot = ?p, t_i = 0, t_pc = T_Start\<rparr>]\<rparr>"
    by (simp add: bakery_wait_1_svc_def Let_def split: if_splits)
  have "reachable init_sys retry_step S"
    using assms(1) by (induction rule: reachable.induct) (auto intro: reach_init reach_step once)
  then have reach: "reachable init_sys retry_step (S\<lparr>srv := s1\<rparr>)"
    using wait_again [OF assms(2-4) s1] by (rule reach_step)
  have free1: "unblocked ?p s1" using free by (simp add: s1_eq unblocked_def must_wait_def)
  have on1: "on_ticket t ?p s1" "on_ticket ?u ?p s1"
    using t assms(6) ps len by (auto simp: s1_eq on_ticket_def nth_append)
  have left1: "5 \<le> left_of t s1" "5 \<le> left_of ?u s1" using t assms(6) by (simp_all add: s1_eq nth_append)
  obtain s2 where s2: "reachable init_sys retry_step (S\<lparr>srv := s1, srv := s2\<rparr>)" "t_pc (threads s2 ! t) = T_Load (letter s1)"
    "t_i (threads s2 ! t) = int ?p" "number s2 = number s1" "choosing s2 = choosing s1" "letter s2 = letter s1" "res s2 = res s1"
    "length (threads s2) = length (threads s1)" "\<forall>u. u \<noteq> t \<longrightarrow> threads s2 ! u = threads s1 ! u"
    using run_to_load [OF reach, of t ?p] assms(2) on1(1) free1 left1(1) by auto
  have ne: "?u \<noteq> t" using t(1) by simp
  have same: "threads s2 ! ?u = threads s1 ! ?u" using s2(9) ne by simp
  have on2: "on_ticket ?u ?p s2" using on1(2) same s2(7,8) by (simp add: on_ticket_def)
  have free2: "unblocked ?p s2" using free1 unblocked_frame [OF s2(4,5)] by simp
  obtain s3 where s3: "reachable init_sys retry_step (S\<lparr>srv := s1, srv := s2, srv := s3\<rparr>)" "t_pc (threads s3 ! ?u) = T_Load (letter s2)"
    "t_i (threads s3 ! ?u) = int ?p" "length (threads s3) = length (threads s2)" "\<forall>u. u \<noteq> ?u \<longrightarrow> threads s3 ! u = threads s2 ! u"
    using run_to_load [OF s2(1), of ?u ?p] assms(2) on2 free2 left1(2) same by auto
  show ?thesis
    using s2 s3 ne ps(2) by (intro exI [of _ "S\<lparr>srv := s3\<rparr>"] exI [of _ ?u]) (auto simp: s1_eq)
qed

theorem bakery_repeated_wait_breaks_exclusion_witness:
  "\<exists>T u. reachable init_sys retry_step T \<and> u \<noteq> 0 \<and> t_pc (threads (srv T) ! 0) = T_Load 97 \<and> t_pc (threads (srv T) ! u) = T_Load 97"
proof -
  let ?S = "state_after (get_schedule 0 @ [A_Wait 0])"
  have "disp ?S = D_Idle" "clients ?S = [C_Service 0 1]" "thr (srv ?S) ! 0 = Some 0" "t_pc (threads (srv ?S) ! 0) = T_Start"
    "letter (srv ?S) = 97" by code_simp+
  then show ?thesis
    using bakery_repeated_wait_breaks_exclusion [OF state_after_reachable [of "get_schedule 0 @ [A_Wait 0]"], of 0 0 1 0]
    by auto
qed

end
