(* ===== verification/Bakery_Lost.thy ===== *)
theory Bakery_Lost
  imports Bakery_Retry
begin

text \<open>
  What a repeated call of \<^verbatim>\<open>get_number_1\<close> does to the queue of the multi-threaded server: its ticket
  belongs to nobody. First the uninterrupted handler is shown to be a run of the dispatcher's
  steps, so that its result keeps the invariant.
\<close>

section \<open>The handler as a run of the dispatcher\<close>

lemma scan_run:
  assumes "disp S = D_Scan k ind 0 0" "i \<le> NSLOT"
  shows "sys_step\<^sup>*\<^sup>* S (S\<lparr>disp := D_Scan k ind i (foldl (\<lambda>m i. get_scan (srv S) i m) 0 [0..<i])\<rparr>)"
  using assms(2)
proof (induction i)
  case 0
  then show ?case using assms(1) by (cases S) simp
next
  case (Suc i)
  let ?S = "S\<lparr>disp := D_Scan k ind i (foldl (\<lambda>m i. get_scan (srv S) i m) 0 [0..<i])\<rparr>"
  have "sys_step\<^sup>*\<^sup>* S ?S" using Suc by simp
  moreover have "sys_step ?S (?S\<lparr>disp := D_Scan k ind (Suc i) (get_scan (srv ?S) i (foldl (\<lambda>m i. get_scan (srv S) i m) 0 [0..<i]))\<rparr>)"
    by (rule sys_step.scan) (use Suc.prems in simp_all)
  ultimately show ?case by (simp add: rtranclp.rtrancl_into_rtrancl)
qed

lemma atomic_get_run:
  assumes "disp S = D_Idle" "k < length (clients S)" "clients S ! k = C_Get" "get_number_1_svc (srv S) = Inr (r, s')"
  shows "sys_step\<^sup>*\<^sup>* S (reply_to k r (S\<lparr>srv := s', disp := D_Idle\<rparr>))"
proof -
  obtain ind s1 where g: "get_begin (srv S) = Inr (ind, s1)"
    using assms(4) by (auto simp: get_number_1_svc_def split: sum.splits)
  let ?m = "foldl (\<lambda>m i. get_scan s1 i m) 0 [0..<NSLOT]"
  let ?S1 = "S\<lparr>srv := s1, disp := D_Scan k ind 0 0\<rparr>"
  have r: "get_reply ind (get_assign ind ?m s1) = (r, s')"
    using assms(4) g by (simp add: get_number_1_svc_def)
  have "sys_step S ?S1" using assms(1-3) g by (rule sys_step.call_get)
  moreover have "sys_step\<^sup>*\<^sup>* ?S1 (?S1\<lparr>disp := D_Scan k ind NSLOT ?m\<rparr>)"
    using scan_run [of ?S1 k ind NSLOT] by simp
  moreover have "sys_step (?S1\<lparr>disp := D_Scan k ind NSLOT ?m\<rparr>)
      (?S1\<lparr>disp := D_Scan k ind NSLOT ?m, srv := get_assign ind ?m s1, disp := D_Assigned k ind\<rparr>)"
    using sys_step.assign [of "?S1\<lparr>disp := D_Scan k ind NSLOT ?m\<rparr>" k ind NSLOT ?m] by simp
  moreover have "sys_step (?S1\<lparr>disp := D_Scan k ind NSLOT ?m, srv := get_assign ind ?m s1, disp := D_Assigned k ind\<rparr>)
      (reply_to k r (S\<lparr>srv := s', disp := D_Idle\<rparr>))"
    using sys_step.get_return [of "?S1\<lparr>disp := D_Scan k ind NSLOT ?m, srv := get_assign ind ?m s1, disp := D_Assigned k ind\<rparr>" k ind r s'] r
    by (simp add: reply_to_def)
  ultimately show ?thesis by (meson converse_rtranclp_into_rtranclp rtranclp_trans r_into_rtranclp)
qed

text \<open>The invariant does not depend on the client that made the call.\<close>

lemma forget_client:
  assumes "bakery_inv S" "disp S = D_Idle" "clients S = cs @ [c]"
  shows "bakery_inv (S\<lparr>clients := cs\<rparr>)"
proof -
  have "clients_ok (srv S) D_Idle (cs @ [c])" using assms by (simp add: bakery_inv_def sys_ok_def)
  then have "clients_ok (srv S) D_Idle cs"
    unfolding clients_ok_def wait_unique_def by (auto simp: nth_append less_SucI split: if_splits)
  with assms show ?thesis
    by (simp add: bakery_inv_def sys_ok_def order_ok_def choosing_ok_def loop_ok_def)
qed

lemma dropped_get_inv:
  assumes "bakery_inv S" "disp S = D_Idle" "get_number_1_svc (srv S) = Inr (r, s')"
  shows "bakery_inv (S\<lparr>srv := s'\<rparr>)"
proof -
  let ?S = "S\<lparr>clients := clients S @ [C_Get]\<rparr>" and ?k = "length (clients S)"
  have "sys_step S ?S" by (rule sys_step.arrive) (simp add: assms(2))
  then have "bakery_inv ?S" by (rule bakery_system.step_inv [OF assms(1)])
  moreover have "sys_step\<^sup>*\<^sup>* ?S (reply_to ?k r (?S\<lparr>srv := s', disp := D_Idle\<rparr>))"
    by (rule atomic_get_run) (simp_all add: assms(2,3))
  ultimately have "bakery_inv (reply_to ?k r (?S\<lparr>srv := s', disp := D_Idle\<rparr>))"
    using bakery_system.steps_inv by blast
  then have "bakery_inv (?S\<lparr>srv := s', clients := clients S @ [C_Wait (bk_pid r) (bk_num r)]\<rparr>)"
    using assms(2) by (cases S) (simp add: reply_to_def)
  from forget_client [OF this] show ?thesis using assms(2) by simp
qed

section \<open>A lost ticket\<close>

text \<open>A ticket that is in use although no thread serves it, no client has it and none is about to get it.\<close>

definition lost :: "nat \<Rightarrow> int \<Rightarrow> sys \<Rightarrow> bool" where
  "lost j v S \<longleftrightarrow> j < NSLOT \<and> int j < num (srv S) \<and> number (srv S) ! j = v \<and> 0 < v \<and> thr (srv S) ! j = None \<and>
     pending (disp S) \<noteq> Some j \<and> (\<forall>k<length (clients S). \<forall>n. clients S ! k \<noteq> C_Wait (int j) n)"

lemma lost_step:
  assumes step: "sys_step S T" and inv: "bakery_inv S" and lost: "lost j v S"
  shows "lost j v T"
proof -
  have so: "server_ok (srv S)" and dk: "disp_ok (srv S) (disp S)" and co: "clients_ok (srv S) (disp S) (clients S)"
    using inv by (simp_all add: bakery_inv_def sys_ok_def)
  from step show ?thesis
  proof cases
    case arrive
    with lost show ?thesis by (auto simp: lost_def nth_append less_Suc_eq)
  next
    case (call_get k ind s')
    note g = server_ok_get_begin [OF so call_get(5)]
    have "ind \<noteq> j" using g(3) lost by (auto simp: lost_def)
    with lost call_get g show ?thesis by (auto simp: lost_def)
  next
    case (assign k ind i m)
    have "ind \<noteq> j" using lost assign(2) by (auto simp: lost_def)
    with lost assign show ?thesis by (auto simp: lost_def get_assign_def)
  next
    case (get_return k ind r s')
    have "ind \<noteq> j" using lost get_return(2) by (auto simp: lost_def)
    moreover have "k < length (clients S)" "clients S ! k = C_Get"
      using inv get_return(2) by (auto simp: bakery_inv_def sys_ok_def)
    ultimately show ?thesis using lost get_return
      by (auto simp: lost_def get_reply_def reply_to_def nth_list_update split: if_splits)
  next
    case (call_wait k p n rc1 rc2 r s')
    have "nat p \<noteq> j" using lost call_wait(3,4) clients_okD [OF co call_wait(3)] by (auto simp: lost_def)
    with lost call_wait show ?thesis
      by (auto simp: lost_def reply_to_def bakery_wait_1_svc_def Let_def nth_list_update split: if_splits)
  next
    case (call_service k p n rc t s')
    with lost show ?thesis by (auto simp: lost_def service_begin_def split: if_splits option.splits)
  next
    case (service_return k p t r)
    have "k < length (clients S)" "\<exists>n. clients S ! k = C_Service (int p) n"
      using inv service_return(2) by (auto simp: bakery_inv_def sys_ok_def)
    with lost service_return show ?thesis
      by (auto simp: lost_def reply_to_def service_end_def nth_list_update split: if_splits)
  next
    case (thread_step t s')
    have tk: "thread_ok (srv S) t" by (rule server_ok_thread [OF so thread_step(3)])
    then have "t_slot (threads (srv S) ! t) \<noteq> j" using lost by (auto simp: thread_ok_def lost_def Let_def)
    with lost thread_step(1) bakery_service_frame [OF thread_step(4)] bakery_service_number [OF thread_step(4,3) tk]
    show ?thesis by (auto simp: lost_def)
  qed (use lost in \<open>auto simp: lost_def\<close>)
qed

lemma lost_steps: "sys_step\<^sup>*\<^sup>* S T \<Longrightarrow> bakery_inv S \<Longrightarrow> lost j v S \<Longrightarrow> bakery_inv T \<and> lost j v T"
  by (induction rule: rtranclp_induct) (auto intro: lost_step bakery_system.step_inv)

text \<open>Nobody behind a lost ticket is ever served.\<close>

lemma lost_printed: "bakery_inv S \<Longrightarrow> lost j v S \<Longrightarrow> length (printed (srv S)) \<le> j"
  by (rule ccontr) (auto simp: bakery_inv_def letters_ok_def lost_def not_le)

lemma lost_blocks:
  assumes "bakery_inv S" "lost j v S" "t < length (threads (srv S))" "j < t_slot (threads (srv S) ! t)"
  shows "\<not> in_critical (t_pc (threads (srv S) ! t)) \<and> t_pc (threads (srv S) ! t) \<noteq> T_Done"
proof -
  let ?pc = "t_pc (threads (srv S) ! t)"
  have "\<not> passed ?pc j"
    using assms by (auto simp: bakery_inv_def order_ok_def ahead_served_def lost_def)
  moreover have "?pc \<noteq> T_Done"
  proof
    assume "?pc = T_Done"
    then have "t_slot (threads (srv S) ! t) < length (printed (srv S))"
      using assms(1,3) by (auto simp: bakery_inv_def letters_ok_def thread_letter_def Let_def)
    with lost_printed [OF assms(1,2)] assms(4) show False by simp
  qed
  ultimately show ?thesis using in_critical_passed by blast
qed

text \<open>
  Client 0 has ticket 0, its call arrives again and takes ticket 1; client 1 then has ticket 2 and
  starts its thread, which runs up to slot 1.
\<close>

definition second_call :: "BAKERY \<times> server" where
  "second_call = get_reply 1 (get_assign 1 1 (snd (projr (get_begin (srv (state_after (get_schedule 0)))))))"

lemma second_call: "get_number_1_svc (srv (state_after (get_schedule 0))) = Inr (fst second_call, snd second_call)"
proof -
  let ?g = "get_begin (srv (state_after (get_schedule 0)))"
  have "\<not> isl ?g \<and> fst (projr ?g) = 1" by code_simp
  then obtain s where g: "?g = Inr (1, s)" by (cases ?g) (simp_all add: prod_eq_iff)
  have "length (number (snd (projr ?g))) = NSLOT \<and> max_loop (number (snd (projr ?g))) = 1" by code_simp
  then show ?thesis by (simp add: get_number_1_svc_def scan_is_max_loop second_call_def g)
qed

definition dropped :: sys where
  "dropped = (state_after (get_schedule 0))\<lparr>srv := snd second_call\<rparr>"

definition after_drop :: "action list" where
  "after_drop = get_schedule 1 @ [A_Wait 1] @ replicate 3 (A_Thread 0)"

lemma exec_all_steps: "exec_all as S = Some T \<Longrightarrow> sys_step\<^sup>*\<^sup>* S T"
proof (induction as arbitrary: S)
  case Nil
  then show ?case by simp
next
  case (Cons a as)
  then show ?case by (auto split: option.splits intro: converse_rtranclp_into_rtranclp dest: exec_step)
qed

section \<open>Properties\<close>

text \<open>
  C21: A repeated call of \<^verbatim>\<open>get_number_1\<close> blocks the server for ever. The second execution of the handler
  takes a ticket whose reply nobody reads; from then on, in every continuation, no thread with a
  later ticket ever enters its critical section or ends, and no more letters are handed out than
  there are earlier tickets.
\<close>

theorem bakery_repeated_get_starves:
  assumes "reachable init_sys sys_step S" "disp S = D_Idle" "get_number_1_svc (srv S) = Inr (r, s')"
    and "sys_step\<^sup>*\<^sup>* (S\<lparr>srv := s'\<rparr>) T"
  shows "number (srv T) ! nat (bk_pid r) = bk_num r \<and> length (printed (srv T)) \<le> nat (bk_pid r) \<and>
    (\<forall>t<length (threads (srv T)). bk_pid r < int (t_slot (threads (srv T) ! t)) \<longrightarrow>
      \<not> in_critical (t_pc (threads (srv T) ! t)) \<and> t_pc (threads (srv T) ! t) \<noteq> T_Done)"
proof -
  have inv: "bakery_inv S" using assms(1) by (rule bakery_system.reachable_inv)
  then have so: "server_ok (srv S)" and co: "clients_ok (srv S) D_Idle (clients S)"
    using assms(2) by (simp_all add: bakery_inv_def sys_ok_def)
  obtain ind s1 where g: "get_begin (srv S) = Inr (ind, s1)"
    using assms(3) by (auto simp: get_number_1_svc_def split: sum.splits)
  note b = server_ok_get_begin [OF so g]
  have len: "length (number s1) = NSLOT" using b(1) by (simp add: server_ok_def shape_def)
  have r: "bk_pid r = int ind" "bk_num r = max_loop (number s1) + 1"
    "number s' = (number s1)[ind := bk_num r]" "thr s' = thr s1" "num s' = num s1"
    using assms(3) g b(2) len
    by (auto simp: get_number_1_svc_def get_reply_def get_assign_def scan_is_max_loop)
  have "clients S ! k \<noteq> C_Wait (int ind) n" if "k < length (clients S)" for k n
    using clients_okD [OF co that] b(3) by auto
  then have "lost ind (bk_num r) (S\<lparr>srv := s'\<rparr>)"
    using r b len max_loop_upper(1) [of "number s1"] assms(2) by (simp add: lost_def)
  with lost_steps [OF assms(4) dropped_get_inv [OF inv assms(2,3)]]
  have "bakery_inv T" "lost ind (bk_num r) T" by blast+
  with lost_blocks [of T ind "bk_num r"] lost_printed [of T ind "bk_num r"] show ?thesis
    by (auto simp: r(1)) (simp add: lost_def)
qed

theorem bakery_repeated_get_starves_witness:
  "exec_all after_drop dropped \<noteq> None \<and> \<not> in_critical (t_pc (threads (srv (the (exec_all after_drop dropped))) ! 0)) \<and>
   length (printed (srv (the (exec_all after_drop dropped)))) \<le> 1"
proof -
  let ?S = "state_after (get_schedule 0)" and ?T = "the (exec_all after_drop dropped)"
  have S: "disp ?S = D_Idle" by code_simp
  have T: "exec_all after_drop dropped \<noteq> None" "length (threads (srv ?T)) = 1" "t_slot (threads (srv ?T) ! 0) = 2" by code_simp+
  then have "sys_step\<^sup>*\<^sup>* (?S\<lparr>srv := snd second_call\<rparr>) ?T"
    using exec_all_steps [of after_drop dropped] by (auto simp: dropped_def)
  from bakery_repeated_get_starves [OF state_after_reachable S second_call this] T show ?thesis
    by (simp add: second_call_def get_reply_def)
qed

end
