(* ===== verification/Bakery_Mono.thy ===== *)
theory Bakery_Mono
  imports Bakery_RPC Letters
begin

text \<open>
  The single-threaded bakery server of \<^verbatim>\<open>3/proc/bakery2\<close>. Handlers run one after
  the other, so nothing changes while \<^verbatim>\<open>bakery_service_1_svc\<close> spins: its second loop ends
  only by its one-second time-out, and its first would never end. A handler that does not
  return has the value \<open>None\<close>.
\<close>

record mserver =
  m_choosing :: "int list"
  m_number :: "int list"
  m_num :: int
  m_letter :: int
  m_printed :: "(int \<times> int \<times> int) list"

definition MSLOT :: nat where "MSLOT = 32"

definition init_mserver :: mserver where
  "init_mserver = \<lparr>m_choosing = replicate MSLOT 0, m_number = replicate MSLOT 0, m_num = 0,
     m_letter = of_char CHR ''a'', m_printed = []\<rparr>"

section \<open>Handlers\<close>

definition mono_get_number :: "mserver \<Rightarrow> fault + BAKERY \<times> mserver" where
  "mono_get_number s =
     (let ind = m_num s in
      case aput (m_choosing s) ind 1 of
        Inl f \<Rightarrow> Inl f
      | Inr ch \<Rightarrow>
        (let m = foldl (\<lambda>m i. if m_number s ! i > m then m_number s ! i else m) 0 [0..<MSLOT] in
         case aput (m_number s) ind (m + 1) of
           Inl f \<Rightarrow> Inl f
         | Inr ns \<Rightarrow>
             Inr (\<lparr>bk_num = m + 1, bk_pid = ind, bk_res = 0\<rparr>,
               s\<lparr>m_num := ind + 1, m_choosing := ch[nat ind := 0], m_number := ns\<rparr>)))"

text \<open>\<open>clk k\<close> is the result of the \<open>k\<close>-th call of \<^verbatim>\<open>clock()\<close>.\<close>

definition CLOCKS_PER_SEC :: int where "CLOCKS_PER_SEC = 1000000"

text \<open>
  The second waiting loop, whose condition \<open>wait\<close> cannot change while it runs; it returns
  the number of \<^verbatim>\<open>clock()\<close> calls made so far.
\<close>

partial_function (option) spin :: "(nat \<Rightarrow> int) \<Rightarrow> bool \<Rightarrow> int \<Rightarrow> nat \<Rightarrow> nat option" where
  "spin clk wait t_start k =
     (if \<not> wait then Some k
      else if c_div (clk k - t_start) CLOCKS_PER_SEC \<noteq> 0 then Some (Suc k)
      else spin clk wait t_start (Suc k))"

declare spin.simps [code]

definition mono_must_wait :: "mserver \<Rightarrow> BAKERY \<Rightarrow> nat \<Rightarrow> bool" where
  "mono_must_wait s argp j \<longleftrightarrow> m_number s ! j \<noteq> 0 \<and>
     (m_number s ! j < bk_num argp \<or> m_number s ! j = bk_num argp \<and> int j < bk_pid argp)"

fun wait_loop :: "(nat \<Rightarrow> int) \<Rightarrow> mserver \<Rightarrow> BAKERY \<Rightarrow> nat list \<Rightarrow> nat \<Rightarrow> nat option" where
  "wait_loop clk s argp [] k = Some k"
| "wait_loop clk s argp (j # js) k =
     (if m_choosing s ! j \<noteq> 0 then None
      else case spin clk (mono_must_wait s argp j) (clk k) (Suc k) of
        None \<Rightarrow> None
      | Some k' \<Rightarrow> wait_loop clk s argp js k')"

text \<open>\<^verbatim>\<open>argp->res = c++\<close> and the wrap-around.\<close>

definition take_letter :: "mserver \<Rightarrow> int \<times> mserver" where
  "take_letter s = (m_letter s,
     let s = s\<lparr>m_letter := m_letter s + 1\<rparr> in
     if m_letter s > of_char CHR ''z'' then s\<lparr>m_letter := of_char CHR ''a''\<rparr> else s)"

definition mono_service :: "(nat \<Rightarrow> int) \<Rightarrow> nat \<Rightarrow> BAKERY \<Rightarrow> mserver \<Rightarrow> (fault + BAKERY \<times> mserver) option" where
  "mono_service clk k argp s =
     (case wait_loop clk s argp [0..<MSLOT] k of
        None \<Rightarrow> None
      | Some k' \<Rightarrow>
        (case take_letter s of (r, s) \<Rightarrow>
           let s = s\<lparr>m_printed := m_printed s @ [(bk_pid argp, bk_num argp, r)]\<rparr> in
           case aput (m_number s) (bk_pid argp) 0 of
             Inl f \<Rightarrow> Some (Inl f)
           | Inr ns \<Rightarrow> Some (Inr (\<lparr>bk_num = 0, bk_pid = 0, bk_res = r\<rparr>, s\<lparr>m_number := ns\<rparr>))))"

text \<open>The table of \<^verbatim>\<open>bakery_prog_1\<close> in \<^verbatim>\<open>bakery_svc.c\<close>.\<close>

definition mono_table :: "(nat \<Rightarrow> int) \<Rightarrow> nat \<Rightarrow> nat \<Rightarrow> mserver handler option" where
  "mono_table clk k p =
     (if p = 1 then Some (\<lambda>argp s. Some (mono_get_number s))
      else if p = 2 then Some (mono_service clk k)
      else None)"

section \<open>Invariant\<close>

definition mono_ok :: "mserver \<Rightarrow> bool" where
  "mono_ok s \<longleftrightarrow> m_choosing s = replicate MSLOT 0 \<and> length (m_number s) = MSLOT \<and>
     0 \<le> m_num s \<and> m_num s \<le> int MSLOT \<and>
     (\<forall>j<MSLOT. 0 \<le> m_number s ! j \<and> m_number s ! j \<le> int j + 1 \<and> (m_num s \<le> int j \<longrightarrow> m_number s ! j = 0)) \<and>
     (\<forall>j<MSLOT. \<forall>i<j. 0 < m_number s ! i \<longrightarrow> 0 < m_number s ! j \<longrightarrow> m_number s ! i < m_number s ! j) \<and>
     m_letter s = letter_at (length (m_printed s)) \<and>
     (\<forall>j<length (m_printed s). snd (snd (m_printed s ! j)) = letter_at j)"

lemma mono_ok_init: "mono_ok init_mserver"
  by (simp add: mono_ok_def init_mserver_def)

interpretation mono_letters: dispenser m_letter take_letter
  by unfold_locales (auto simp: take_letter_def Let_def)

lemma mono_scan:
  assumes "length (m_number s) = MSLOT"
  shows "foldl (\<lambda>m i. if m_number s ! i > m then m_number s ! i else m) 0 [0..<MSLOT] = max_loop (m_number s)"
proof -
  have "foldl (\<lambda>m i. if m_number s ! i > m then m_number s ! i else m) 0 [0..<MSLOT] =
      foldl (\<lambda>m n. if n > m then n else m) 0 (map ((!) (m_number s)) [0..<MSLOT])"
    by (simp add: foldl_map)
  then show ?thesis using assms map_nth [of "m_number s"] by (simp add: max_loop_def)
qed

definition mono_issuing :: "mserver \<Rightarrow> bool" where
  "mono_issuing s \<longleftrightarrow> length (m_choosing s) = MSLOT \<and> length (m_number s) = MSLOT \<and>
     0 \<le> m_num s \<and> m_num s \<le> int MSLOT"

interpretation mono_tickets: ticket_issuer mono_issuing m_number m_num mono_get_number
proof unfold_locales
  fix s r s'
  assume ok: "mono_issuing s" and i: "mono_get_number s = Inr (r, s')"
  have le: "x < max_loop (m_number s) + 1" if "x \<in> set (m_number s)" for x
    using max_loop_upper(2) [OF that] by simp
  show "mono_issuing s' \<and> bk_pid r = m_num s \<and> m_num s' = m_num s + 1 \<and>
      0 \<le> m_num s \<and> m_num s < int (length (m_number s)) \<and>
      m_number s' = (m_number s)[nat (m_num s) := bk_num r] \<and>
      0 < bk_num r \<and> (\<forall>x\<in>set (m_number s). x < bk_num r)"
    using ok i le max_loop_upper(1) [of "m_number s"]
    by (auto simp: mono_get_number_def Let_def aput_def in_bounds_def mono_issuing_def mono_scan
        split: if_splits)
next
  fix s f
  assume "mono_issuing s"
  then show "mono_get_number s = Inl f \<longleftrightarrow> f = OutOfBounds \<and> m_num s = int (length (m_number s))"
    by (auto simp: mono_get_number_def Let_def aput_def in_bounds_def mono_issuing_def)
qed

lemma mono_ok_issuing: "mono_ok s \<Longrightarrow> mono_issuing s"
  by (simp add: mono_ok_def mono_issuing_def)

lemma foldl_max_le: "a \<le> b \<Longrightarrow> \<forall>x\<in>set ns. x \<le> b \<Longrightarrow> foldl max a ns \<le> b" for a :: int
  by (induction ns arbitrary: a) auto

lemma mono_get_effect:
  assumes ok: "mono_ok s" and g: "mono_get_number s = Inr (r, s')"
  shows "m_letter s' = m_letter s" "m_printed s' = m_printed s" "m_choosing s' = m_choosing s"
    and "bk_num r \<le> m_num s + 1"
proof -
  have len: "length (m_number s) = MSLOT" and ch: "m_choosing s = replicate MSLOT 0"
    and n: "0 \<le> m_num s" using ok by (auto simp: mono_ok_def)
  show "m_letter s' = m_letter s" "m_printed s' = m_printed s" "m_choosing s' = m_choosing s"
    using g ch by (auto simp: mono_get_number_def Let_def aput_def list_update_same_conv split: if_splits)
  have "x \<le> m_num s" if "x \<in> set (m_number s)" for x
  proof -
    from that len obtain j where j: "j < MSLOT" "x = m_number s ! j" by (auto simp: in_set_conv_nth)
    then have "m_number s ! j \<le> int j + 1" "m_num s \<le> int j \<longrightarrow> m_number s ! j = 0"
      using ok by (auto simp: mono_ok_def)
    then show ?thesis using n j(2) by (cases "m_num s \<le> int j") auto
  qed
  then have "max_loop (m_number s) \<le> m_num s"
    using n by (simp add: max_loop_def max_loop_aux foldl_max_le)
  then show "bk_num r \<le> m_num s + 1"
    using g len by (auto simp: mono_get_number_def Let_def aput_def mono_scan split: if_splits)
qed

lemma mono_ok_get:
  assumes ok: "mono_ok s" and g: "mono_get_number s = Inr (r, s')"
  shows "mono_ok s'"
proof -
  note i = mono_tickets.issue_Inr [OF mono_ok_issuing [OF ok] g]
  note e = mono_get_effect [OF ok g]
  have len: "length (m_number s) = MSLOT" using ok by (simp add: mono_ok_def)
  have nth: "m_number s' ! j = (if int j = m_num s then bk_num r else m_number s ! j)" if "j < MSLOT" for j
    using i that len by (auto simp: nth_list_update nat_eq_iff)
  have lt: "m_number s ! j < bk_num r" if "j < MSLOT" for j using i that len by auto
  have zero: "m_number s ! j = 0" if "j < MSLOT" "m_num s \<le> int j" for j
    using ok that by (simp add: mono_ok_def)
  have "m_number s' ! i < m_number s' ! j"
    if "j < MSLOT" "i < j" "0 < m_number s' ! i" "0 < m_number s' ! j" for i j
    using that nth [of i] nth [of j] lt [of i] zero [of j] ok
    by (auto simp: mono_ok_def split: if_splits)
  moreover have "0 \<le> m_number s' ! j \<and> m_number s' ! j \<le> int j + 1 \<and> (m_num s' \<le> int j \<longrightarrow> m_number s' ! j = 0)"
    if "j < MSLOT" for j
    using that nth [of j] i e(4) ok by (auto simp: mono_ok_def)
  ultimately show ?thesis
    using ok i e(1-3) len by (simp add: mono_ok_def)
qed

section \<open>The service handler returns\<close>

text \<open>What the time-out relies on: processor time passes while the handler spins.\<close>

definition clock_advances :: "(nat \<Rightarrow> int) \<Rightarrow> bool" where
  "clock_advances clk \<longleftrightarrow> (\<forall>t k. \<exists>k'\<ge>k. CLOCKS_PER_SEC \<le> clk k' - t)"

lemma spin_returns:
  assumes "CLOCKS_PER_SEC \<le> clk k' - t" "k \<le> k'"
  shows "\<exists>k''. spin clk w t k = Some k''"
  using assms
proof (induction "k' - k" arbitrary: k)
  case 0
  then have "k = k'" by simp
  moreover have "c_div (clk k' - t) CLOCKS_PER_SEC \<noteq> 0"
    using 0 by (simp add: c_div_nonneg CLOCKS_PER_SEC_def pos_imp_zdiv_pos_iff order_less_imp_not_eq2)
  ultimately show ?case by (subst spin.simps) simp
next
  case (Suc n)
  then have "\<exists>k''. spin clk w t (Suc k) = Some k''" by (intro Suc.hyps(1)) auto
  then show ?case by (cases w; subst spin.simps) auto
qed

lemma wait_loop_returns:
  assumes "clock_advances clk" "m_choosing s = replicate MSLOT 0" "\<forall>j\<in>set js. j < MSLOT"
  shows "\<exists>k'. wait_loop clk s argp js k = Some k'"
  using assms(3)
proof (induction js arbitrary: k)
  case Nil
  then show ?case by simp
next
  case (Cons j js)
  obtain k1 where "k1 \<ge> Suc k" "CLOCKS_PER_SEC \<le> clk k1 - clk k"
    using assms(1) unfolding clock_advances_def by blast
  then obtain k2 where "spin clk (mono_must_wait s argp j) (clk k) (Suc k) = Some k2"
    using spin_returns by blast
  with Cons assms(2) show ?case by simp
qed

lemma mono_service_effect:
  assumes "mono_ok s" "mono_service clk k argp s = Some (Inr (r, s'))"
  shows "r = \<lparr>bk_num = 0, bk_pid = 0, bk_res = letter_at (length (m_printed s))\<rparr>"
    and "m_printed s' = m_printed s @ [(bk_pid argp, bk_num argp, letter_at (length (m_printed s)))]"
    and "m_letter s' = letter_at (Suc (length (m_printed s)))"
    and "m_number s' = (m_number s)[nat (bk_pid argp) := 0]" and "m_num s' = m_num s"
    and "m_choosing s' = m_choosing s"
proof -
  obtain s1 where s1: "take_letter s = (m_letter s, s1)" by (simp add: take_letter_def)
  have l: "m_letter s = letter_at (length (m_printed s))" using assms(1) by (simp add: mono_ok_def)
  have "m_letter s1 = letter_at (Suc (length (m_printed s)))"
    using mono_letters.take_letter(2) [OF l] s1 by simp
  moreover have "m_printed s1 = m_printed s" "m_number s1 = m_number s" "m_num s1 = m_num s"
    "m_choosing s1 = m_choosing s"
    using s1 by (auto simp: take_letter_def Let_def split: if_splits)
  ultimately show
    "r = \<lparr>bk_num = 0, bk_pid = 0, bk_res = letter_at (length (m_printed s))\<rparr>"
    "m_printed s' = m_printed s @ [(bk_pid argp, bk_num argp, letter_at (length (m_printed s)))]"
    "m_letter s' = letter_at (Suc (length (m_printed s)))"
    "m_number s' = (m_number s)[nat (bk_pid argp) := 0]" "m_num s' = m_num s"
    "m_choosing s' = m_choosing s"
    using assms(2) l s1
    by (auto simp: mono_service_def Let_def aput_def split: option.splits if_splits)
qed

lemma mono_ok_service:
  assumes "mono_ok s" "mono_service clk k argp s = Some (Inr (r, s'))"
  shows "mono_ok s'"
proof -
  note e = mono_service_effect [OF assms]
  have len: "length (m_number s) = MSLOT" using assms(1) by (simp add: mono_ok_def)
  have n: "m_number s' ! j = (if nat (bk_pid argp) = j then 0 else m_number s ! j)" if "j < MSLOT" for j
    using that len by (auto simp: e nth_list_update)
  have "snd (snd (m_printed s' ! j)) = letter_at j" if "j < length (m_printed s')" for j
    using that assms(1) by (auto simp: e mono_ok_def nth_append less_Suc_eq)
  then show ?thesis
    using assms(1) n len e(3,5,6) unfolding mono_ok_def by (auto simp: e(2,4))
qed

lemma mono_service_in_range:
  assumes "mono_ok s" "clock_advances clk" "0 \<le> bk_pid argp" "bk_pid argp < 32"
  shows "\<exists>r s'. mono_service clk k argp s = Some (Inr (r, s'))"
proof -
  obtain k' where "wait_loop clk s argp [0..<MSLOT] k = Some k'"
    using wait_loop_returns [OF assms(2), of s "[0..<MSLOT]" argp k] assms(1) by (auto simp: mono_ok_def)
  moreover have "in_bounds (m_number (snd (take_letter s))) (bk_pid argp)"
    using assms(1,3,4) by (simp add: take_letter_def Let_def in_bounds_def mono_ok_def MSLOT_def)
  ultimately show ?thesis
    by (auto simp: mono_service_def aput_def Let_def split: prod.splits)
qed

section \<open>Runs of the server\<close>

inductive mono_step :: "mserver \<Rightarrow> mserver \<Rightarrow> bool" where
  get: "mono_get_number s = Inr (r, s') \<Longrightarrow> mono_step s s'"
| serve: "mono_service clk k argp s = Some (Inr (r, s')) \<Longrightarrow> mono_step s s'"

interpretation mono: step_invariant "\<lambda>s. s = init_mserver" mono_step mono_ok
proof unfold_locales
  show "mono_ok t" if "mono_ok s" "mono_step s t" for s t
    using that(2,1) by cases (auto intro: mono_ok_get mono_ok_service)
qed (simp add: mono_ok_init)

section \<open>Properties\<close>

text \<open>
  The single-threaded service call returns. Whatever calls were made before, a service
  request for one of the 32 slots ends, as long as processor time passes while it spins; it
  answers with the next letter of the repeated alphabet, appends one line to the output,
  clears exactly the caller's ticket and keeps the server's invariant.
\<close>

theorem mono_service_returns:
  assumes "reachable (\<lambda>s. s = init_mserver) mono_step s" and "clock_advances clk"
    and "0 \<le> bk_pid argp" "bk_pid argp < 32"
  shows "\<exists>s'. svc_dispatch (mono_table clk k) 2 (Some argp) True True s =
      Some (Inr (Result \<lparr>bk_num = 0, bk_pid = 0, bk_res = letter_at (length (m_printed s))\<rparr>, s')) \<and>
    m_printed s' = m_printed s @ [(bk_pid argp, bk_num argp, letter_at (length (m_printed s)))] \<and>
    m_number s' = (m_number s)[nat (bk_pid argp) := 0] \<and> mono_ok s'"
proof -
  have ok: "mono_ok s" using assms(1) by (rule mono.reachable_inv)
  obtain r s' where sv: "mono_service clk k argp s = Some (Inr (r, s'))"
    using mono_service_in_range [OF ok assms(2-4)] by blast
  then show ?thesis
    using mono_service_effect [OF ok sv] mono_ok_service [OF ok sv]
    by (auto simp: svc_dispatch_Result mono_table_def)
qed

theorem mono_service_returns_witness:
  "\<exists>s'. svc_dispatch (mono_table (\<lambda>k. 1000000 * int k) 0) 2 (Some \<lparr>bk_num = 1, bk_pid = 0, bk_res = 0\<rparr>)
       True True init_mserver = Some (Inr (Result \<lparr>bk_num = 0, bk_pid = 0, bk_res = 97\<rparr>, s'))"
proof -
  have "clock_advances (\<lambda>k. 1000000 * int k)"
    unfolding clock_advances_def
  proof (intro allI)
    fix t :: int and k :: nat
    have "k \<le> k + nat \<bar>t\<bar> + 1" "CLOCKS_PER_SEC \<le> 1000000 * int (k + nat \<bar>t\<bar> + 1) - t"
      by (auto simp: CLOCKS_PER_SEC_def)
    then show "\<exists>k'\<ge>k. CLOCKS_PER_SEC \<le> 1000000 * int k' - t" by blast
  qed
  moreover have "reachable (\<lambda>s. s = init_mserver) mono_step init_mserver" by (simp add: reach_init)
  ultimately show ?thesis
    using mono_service_returns [of init_mserver "\<lambda>k. 1000000 * int k"
        "\<lparr>bk_num = 1, bk_pid = 0, bk_res = 0\<rparr>" 0]
    by (auto simp: init_mserver_def)
qed

text \<open>
  Tickets of the single-threaded server. In every reachable state the tickets in use are
  distinct, grow with the slot and stay within 1 to 32; a new ticket is above all of them, and
  a call fails, by leaving its array, only when 32 tickets have been handed out.
\<close>

theorem mono_tickets_ordered:
  assumes "reachable (\<lambda>s. s = init_mserver) mono_step s"
    and "i < j" "j < 32" "0 < m_number s ! i" "0 < m_number s ! j"
  shows "m_number s ! i < m_number s ! j \<and> m_number s ! j \<le> 32 \<and>
    (\<forall>r s'. mono_get_number s = Inr (r, s') \<longrightarrow> m_number s ! j < bk_num r \<and> bk_pid r = m_num s) \<and>
    (mono_get_number s = Inl OutOfBounds \<longleftrightarrow> m_num s = 32)"
proof -
  have ok: "mono_ok s" using assms(1) by (rule mono.reachable_inv)
  then have iss: "mono_issuing s" and len: "length (m_number s) = 32"
    by (auto simp: mono_ok_issuing mono_ok_def MSLOT_def)
  have "m_number s ! i < m_number s ! j" "m_number s ! j \<le> int j + 1"
    using ok assms(2-5) by (auto simp: mono_ok_def MSLOT_def)
  moreover have "m_number s ! j < bk_num r \<and> bk_pid r = m_num s" if "mono_get_number s = Inr (r, s')" for r s'
    using mono_tickets.issue_Inr [OF iss that] assms(3) len by auto
  ultimately show ?thesis using mono_tickets.issue_full [OF iss, of OutOfBounds] assms(3) len by auto
qed

definition two_tickets :: mserver where
  "two_tickets = init_mserver\<lparr>m_num := 2, m_number := [1, 2] @ replicate 30 0\<rparr>"

lemma two_tickets_reachable: "reachable (\<lambda>s. s = init_mserver) mono_step two_tickets"
proof -
  let ?s1 = "init_mserver\<lparr>m_num := 1, m_number := 1 # replicate 31 0\<rparr>"
  have "mono_get_number init_mserver = Inr (\<lparr>bk_num = 1, bk_pid = 0, bk_res = 0\<rparr>, ?s1)" by code_simp
  then have "reachable (\<lambda>s. s = init_mserver) mono_step ?s1"
    by (metis (mono_tags, lifting) mono_step.get reach_init reach_step)
  moreover have "mono_get_number ?s1 = Inr (\<lparr>bk_num = 2, bk_pid = 1, bk_res = 0\<rparr>, two_tickets)" by code_simp
  ultimately show ?thesis by (metis mono_step.get reach_step)
qed

theorem mono_tickets_ordered_witness:
  "m_number two_tickets ! 0 < m_number two_tickets ! 1 \<and> m_number two_tickets ! 1 \<le> 32"
  using mono_tickets_ordered [OF two_tickets_reachable, of 0 1] by (simp add: two_tickets_def)

text \<open>
  The time-out gives up the order. With the tickets of two clients outstanding, the
  service call of the second one, once the loop on slot 0 has timed out, is answered before
  the first client: the single-threaded server does not serve in ticket order.
\<close>

theorem mono_overtakes:
  "mono_must_wait two_tickets \<lparr>bk_num = 2, bk_pid = 1, bk_res = 0\<rparr> 0 \<and>
   (\<exists>s'. mono_service (\<lambda>k. 1000000 * int k) 0 \<lparr>bk_num = 2, bk_pid = 1, bk_res = 0\<rparr> two_tickets =
      Some (Inr (\<lparr>bk_num = 0, bk_pid = 0, bk_res = 97\<rparr>, s')) \<and> m_number s' ! 0 = 1)"
proof -
  have "mono_must_wait two_tickets \<lparr>bk_num = 2, bk_pid = 1, bk_res = 0\<rparr> 0" by code_simp
  moreover have "mono_service (\<lambda>k. 1000000 * int k) 0 \<lparr>bk_num = 2, bk_pid = 1, bk_res = 0\<rparr> two_tickets =
      Some (Inr (\<lparr>bk_num = 0, bk_pid = 0, bk_res = 97\<rparr>,
        two_tickets\<lparr>m_number := [1, 0] @ replicate 30 0, m_letter := 98, m_printed := [(1, 2, 97)]\<rparr>))"
    by code_simp
  ultimately show ?thesis by simp
qed

end
