(* ===== verification/Bakery_Typed.thy ===== *)
theory Bakery_Typed
  imports Bakery_Service Bakery_Mono
begin

text \<open>
  Every value the bakery servers and their clients hold or send is one of its C type: the model's
  integers stand for \<^verbatim>\<open>int\<close> and \<^verbatim>\<open>char\<close> variables, and no step leaves their ranges. So nothing
  overflows, and every reply is a message that marshalling carries unchanged.
\<close>

section \<open>Typed states\<close>

definition int_t :: "int \<Rightarrow> bool" where "int_t v \<longleftrightarrow> v \<in> int32"
definition char_t :: "int \<Rightarrow> bool" where "char_t v \<longleftrightarrow> v \<in> char8"

definition targ_typed :: "thread_arg \<Rightarrow> bool" where
  "targ_typed a \<longleftrightarrow> int_t (targ_pid a) \<and> int_t (targ_num a) \<and> char_t (targ_res a)"

definition thread_typed :: "thread \<Rightarrow> bool" where
  "thread_typed th \<longleftrightarrow> int_t (t_i th) \<and> (case t_pc th of T_Load v \<Rightarrow> char_t v | _ \<Rightarrow> True)"

definition server_typed :: "server \<Rightarrow> bool" where
  "server_typed s \<longleftrightarrow> int_t (num s) \<and> char_t (letter s) \<and> list_all int_t (choosing s) \<and> list_all int_t (number s) \<and>
     list_all targ_typed (res s) \<and> list_all thread_typed (threads s) \<and>
     list_all (\<lambda>(p, n, c). int_t p \<and> int_t n \<and> char_t c) (printed s)"

fun client_typed :: "client \<Rightarrow> bool" where
  "client_typed (C_Wait p n) \<longleftrightarrow> int_t p \<and> int_t n"
| "client_typed (C_Service p n) \<longleftrightarrow> int_t p \<and> int_t n"
| "client_typed (C_Done c) \<longleftrightarrow> char_t c"
| "client_typed _ \<longleftrightarrow> True"

fun disp_typed :: "dispatcher \<Rightarrow> bool" where
  "disp_typed (D_Scan k ind i m) \<longleftrightarrow> int_t m"
| "disp_typed _ \<longleftrightarrow> True"

definition sys_typed :: "sys \<Rightarrow> bool" where
  "sys_typed S \<longleftrightarrow> server_typed (srv S) \<and> disp_typed (disp S) \<and> list_all client_typed (clients S)"

lemma small_typed [simp]: "0 \<le> v \<Longrightarrow> v \<le> 127 \<Longrightarrow> int_t v" "0 \<le> v \<Longrightarrow> v \<le> 127 \<Longrightarrow> char_t v"
  by (simp_all add: int_t_def char_t_def)

lemma list_all_update: "list_all P xs \<Longrightarrow> P v \<Longrightarrow> list_all P (xs[i := v])"
  by (auto simp: list_all_iff dest: set_update_subset_insert [THEN subsetD])

lemma list_all_nth: "list_all P xs \<Longrightarrow> i < length xs \<Longrightarrow> P (xs ! i)"
  by (simp add: list_all_length)

lemma typed_init: "init_sys S \<Longrightarrow> sys_typed S"
  by (simp add: init_sys_def sys_typed_def server_typed_def init_server_def targ_typed_def list_all_iff)

text \<open>A step of a service thread\<close>

lemma set_pc_typed:
  assumes "server_typed s" "t < length (threads s)" "case pc of T_Load v \<Rightarrow> char_t v | _ \<Rightarrow> True"
  shows "server_typed (set_pc t pc s)"
  using assms list_all_nth [of thread_typed "threads s" t]
  by (auto simp: server_typed_def set_pc_def thread_typed_def intro!: list_all_update)

lemma thread_step_typed:
  assumes ty: "server_typed s" and ok: "server_ok s" "letters_ok s" and t: "t < length (threads s)"
    and b: "bakery_service t s = Some s'"
  shows "server_typed s'"
proof -
  let ?th = "threads s ! t"
  have slot: "t_slot ?th < length (res s)" "t_slot ?th < length (number s)"
    using ok(1) t by (auto simp: server_ok_def thread_ok_def shape_def Let_def)
  have a: "targ_typed (res s ! t_slot ?th)" and th: "thread_typed ?th"
    using ty slot t by (auto simp: server_typed_def intro: list_all_nth)
  show ?thesis
  proof (cases "t_pc ?th")
    case T_Start
    with b ty t a show ?thesis
      by (auto simp: bakery_service_def Let_def server_typed_def thread_typed_def targ_typed_def intro!: list_all_update)
  next
    case (T_Load v)
    then have "v = letter_at (length (printed s))"
      using ok(2) t by (auto simp: letters_ok_def thread_letter_def Let_def)
    then have v: "0 \<le> v" "v \<le> 122" using letter_at_range [of "length (printed s)"] by auto
    have "server_typed (s\<lparr>letter := v + 1, res := (res s)[t_slot ?th := (res s ! t_slot ?th)\<lparr>targ_res := v\<rparr>]\<rparr>)"
      using ty a v by (auto simp: server_typed_def targ_typed_def intro!: list_all_update)
    then show ?thesis using b T_Load t by (auto simp: bakery_service_def Let_def intro!: set_pc_typed)
  next
    case T_Exit
    have "server_typed (s\<lparr>number := (number s)[nat (t_i ?th) := 0]\<rparr>)"
      using ty by (auto simp: server_typed_def intro!: list_all_update)
    then show ?thesis using b T_Exit t by (auto simp: bakery_service_def Let_def intro!: set_pc_typed)
  next
    case T_Wrap
    have "server_typed (s\<lparr>printed := printed s @ [(targ_pid (res s ! t_slot ?th), targ_num (res s ! t_slot ?th), targ_res (res s ! t_slot ?th))]\<rparr>)"
      using ty a by (auto simp: server_typed_def targ_typed_def)
    then show ?thesis using b T_Wrap t by (auto simp: bakery_service_def Let_def intro!: set_pc_typed)
  next
    case T_Store
    have "server_typed (if letter s > of_char CHR ''z'' then s\<lparr>letter := of_char CHR ''a''\<rparr> else s)"
      using ty by (auto simp: server_typed_def)
    then show ?thesis using b T_Store t by (auto simp: bakery_service_def Let_def intro!: set_pc_typed split: if_splits)
  next
    case T_Enter
    then have "s' = set_pc t (T_Load (letter s)) s" using b by (simp add: bakery_service_def Let_def)
    moreover have "char_t (letter s)" using ty by (simp add: server_typed_def)
    ultimately show ?thesis using t ty by (simp add: set_pc_typed)
  qed (use b t ty in \<open>auto simp: bakery_service_def Let_def intro!: set_pc_typed split: if_splits\<close>)
qed


section \<open>The system\<close>

lemma sys_typed_step:
  assumes step: "sys_step S T" and inv: "bakery_inv S" "bakery_inv T" and ty: "sys_typed S"
  shows "sys_typed T"
proof -
  have s: "server_typed (srv S)" "disp_typed (disp S)" "list_all client_typed (clients S)"
    using ty by (simp_all add: sys_typed_def)
  have ok: "server_ok (srv S)" "letters_ok (srv S)" "shape (srv S)"
    using inv(1) by (simp_all add: bakery_inv_def sys_ok_def server_ok_def)
  have num: "int_t (num (srv T))" "list_all int_t (number (srv T))"
    using inv(2) by (auto simp: bakery_inv_def sys_ok_def server_ok_def shape_def order_ok_def bounded_def NSLOT_def
        list_all_length intro!: small_typed(1) intro: order_trans)
  have cl: "client_typed (clients S ! k)" if "k < length (clients S)" for k using s(3) that by (rule list_all_nth)
  from step show ?thesis
  proof cases
    case arrive
    with s show ?thesis by (simp add: sys_typed_def)
  next
    case (call_get k ind s')
    with s num show ?thesis
      by (auto simp: sys_typed_def server_typed_def get_begin_def aput_def intro!: list_all_update split: if_splits)
  next
    case (scan k ind i m)
    have "int_t (number (srv S) ! i)"
      using s(1) ok(3) scan(3) by (auto simp: server_typed_def shape_def intro: list_all_nth)
    with scan s show ?thesis by (simp add: sys_typed_def get_scan_def)
  next
    case (assign k ind i m)
    with s num show ?thesis by (simp add: sys_typed_def server_typed_def get_assign_def)
  next
    case (get_return k ind r s')
    have "ind < NSLOT" "k < length (clients S)" "clients S ! k = C_Get"
      using inv(1) get_return(2) by (auto simp: bakery_inv_def sys_ok_def)
    moreover from this have "int_t (number (srv S) ! ind)"
      using s(1) ok(3) by (auto simp: server_typed_def shape_def intro: list_all_nth)
    ultimately show ?thesis using get_return s
      by (auto simp: sys_typed_def server_typed_def get_reply_def reply_to_def NSLOT_def intro!: list_all_update)
  next
    case (call_wait k p n rc1 rc2 r s')
    have pn: "int_t p" "int_t n" using cl [OF call_wait(3)] call_wait(4) by simp_all
    have "nat p < length (res (srv S))"
      using call_wait(5) ok(3) by (auto simp: bakery_wait_1_svc_def shape_def in_bounds_def split: if_splits)
    then have "targ_typed (res (srv S) ! nat p)" using s(1) by (auto simp: server_typed_def intro: list_all_nth)
    with call_wait s pn show ?thesis
      by (auto simp: sys_typed_def server_typed_def bakery_wait_1_svc_def reply_to_def targ_typed_def thread_typed_def Let_def
          intro!: list_all_update split: if_splits)
  next
    case (call_service k p n rc t s')
    with s show ?thesis
      by (auto simp: sys_typed_def server_typed_def service_begin_def split: if_splits option.splits)
  next
    case (service_return k p t r)
    have "p < NSLOT" "k < length (clients S)" "\<exists>n. clients S ! k = C_Service (int p) n"
      using inv(1) service_return(2) by (auto simp: bakery_inv_def sys_ok_def)
    moreover from this have "targ_typed (res (srv S) ! p)"
      using s(1) ok(3) by (auto simp: server_typed_def shape_def intro: list_all_nth)
    ultimately show ?thesis using service_return s
      by (auto simp: sys_typed_def service_end_def reply_to_def targ_typed_def intro!: list_all_update)
  next
    case (thread_step t s')
    with s thread_step_typed [OF s(1) ok(1,2)] show ?thesis by (auto simp: sys_typed_def)
  qed (use s in \<open>auto simp: sys_typed_def\<close>)
qed

interpretation typed: step_invariant init_sys sys_step "\<lambda>S. bakery_inv S \<and> sys_typed S"
proof unfold_locales
  show "bakery_inv S \<and> sys_typed S" if "init_sys S" for S
    using that bakery_system.init_inv typed_init by blast
  show "bakery_inv T \<and> sys_typed T" if "bakery_inv S \<and> sys_typed S" "sys_step S T" for S T
    using that bakery_system.step_inv sys_typed_step by blast
qed

section \<open>Properties\<close>

text \<open>
  C20: Type preservation for the multi-threaded program. In every reachable state of server, dispatcher,
  threads and clients all values are within the ranges of their C types, although \<^verbatim>\<open>num\<close>, the tickets
  and the shared letter are incremented without a check: no addition overflows \<^verbatim>\<open>int\<close> or \<^verbatim>\<open>char\<close>, and
  what the clients get is what marshalling can carry.
\<close>

theorem bakery_typed:
  assumes "reachable init_sys sys_step S"
  shows "sys_typed S"
  using typed.reachable_inv [OF assms] by blast

theorem bakery_typed_witness:
  "sys_typed (state_after join_schedule) \<and> disp (state_after join_schedule) = D_Join 0 0 0"
proof
  show "sys_typed (state_after join_schedule)" by (rule bakery_typed [OF state_after_reachable])
qed code_simp

text \<open>
  Type preservation for the single-threaded server: the reply to any request in a reachable
  state is typed, its letter zero or a lower-case letter.
\<close>

theorem mono_replies_typed:
  assumes "reachable (\<lambda>s. s = init_mserver) mono_step s" and "mono_table clk k p = Some h"
    and "h argp s = Some (Inr (r, s'))"
  shows "representable r \<and> (bk_res r = 0 \<or> 97 \<le> bk_res r \<and> bk_res r \<le> 122)"
proof -
  have ok: "mono_ok s" using assms(1) by (rule mono.reachable_inv)
  have "p = 1 \<and> mono_get_number s = Inr (r, s') \<or> p = 2 \<and> mono_service clk k argp s = Some (Inr (r, s'))"
    using assms(2,3) by (auto simp: mono_table_def split: if_splits)
  then show ?thesis
  proof
    assume g: "p = 1 \<and> mono_get_number s = Inr (r, s')"
    then have g': "mono_get_number s = Inr (r, s')" by simp
    note mono_get_effect(4) [OF ok g'] mono_tickets.issue_Inr [OF mono_ok_issuing [OF ok] g']
    moreover have "bk_res r = 0" using g' by (simp add: mono_get_number_def Let_def split: sum.splits) auto
    moreover have "m_num s \<le> 32" using ok by (simp add: mono_ok_def MSLOT_def)
    ultimately show ?thesis by (auto simp: representable_def)
  next
    assume "p = 2 \<and> mono_service clk k argp s = Some (Inr (r, s'))"
    then have "r = \<lparr>bk_num = 0, bk_pid = 0, bk_res = letter_at (length (m_printed s))\<rparr>"
      using mono_service_effect(1) [OF ok] by blast
    then show ?thesis using letter_at_range [of "length (m_printed s)"] by (simp add: representable_def)
  qed
qed

end
