(* ===== verification/Bakery_Programs.thy ===== *)
theory Bakery_Programs
  imports Bakery_Mono Bakery_Multi
begin

text \<open>
  The programs around the bakery handlers: both clients from \<^verbatim>\<open>main\<close> on (\<^verbatim>\<open>bakery_client.c\<close>) and
  the start of the servers (\<^verbatim>\<open>main\<close> of \<^verbatim>\<open>bakery_svc.c\<close>). A program is a function of the results of
  the calls it makes; what it prints is a list of lines, and it ends with an exit status or a
  fault.
\<close>

section \<open>The clients\<close>

text \<open>
  The lines of the clients. \<^verbatim>\<open>Call_failed\<close> is \<^verbatim>\<open>clnt_perror\<close>; \<^verbatim>\<open>Total_time t\<close> prints \<open>t\<close>, a number of
  clock ticks, divided by \<^verbatim>\<open>CLOCKS_PER_SEC\<close>.
\<close>

datatype line =
    Usage string
  | Create_failed string
  | Call_failed
  | Client_pid int int
  | Client_receive int
  | Total_time int

text \<open>
  What the programs take from their process: the results of \<^verbatim>\<open>rand\<close> and \<^verbatim>\<open>clock\<close>, in order, and the
  uninitialised \<^verbatim>\<open>struct BAKERY\<close> variables.
\<close>

record env =
  rand :: "nat \<Rightarrow> int"
  clock :: "nat \<Rightarrow> int"
  junk :: "nat \<Rightarrow> BAKERY"

type_synonym 'w ending = "line list \<times> fault \<times> 'w"

text \<open>A program called without its name prints what \<^verbatim>\<open>printf\<close> makes of a null pointer. A failed call is reported; its null result is dereferenced where the program uses it.\<close>

definition reported :: "BAKERY option \<Rightarrow> line list" where
  "reported r = (if r = None then [Call_failed] else [])"

definition client_prog :: "('x, 'w) rpclib \<Rightarrow> env \<Rightarrow> string \<Rightarrow> 'w \<Rightarrow> 'w ending" where
  "client_prog L e host w =
     (case clnt_create L host BAKERY_PROG BAKERY_VER ''udp'' w of (ok, w) \<Rightarrow>
      if \<not> ok then ([Create_failed host], Exit 1, w) else
      let w = pause L (1000000 * (rand e 0 mod 3 + 1)) w; t = clock e 0 in
      case get_number_1 L (junk e 0) w of (result_1, w) \<Rightarrow>
      let out = reported result_1; total_t = clock e 1 - t in
      case result_1 of None \<Rightarrow> (out, NullDeref, w) | Some r1 \<Rightarrow>
      let out = out @ [Client_pid (bk_pid r1) (bk_num r1)];
          wait_arg = (junk e 1)\<lparr>bk_pid := bk_pid r1, bk_num := bk_num r1\<rparr>;
          w = pause L (1000000 * (rand e 1 mod 3 + 1)) w; t = clock e 2 in
      case bakery_wait_1 L wait_arg w of (result_2, w) \<Rightarrow>
      let out = out @ reported result_2; total_t = total_t + (clock e 3 - t);
          service_arg = (junk e 2)\<lparr>bk_pid := bk_pid wait_arg, bk_num := bk_num wait_arg\<rparr>;
          w = pause L (1000000 * (rand e 2 mod 3 + 1)) w; t = clock e 4 in
      case bakery_service_1 L service_arg w of (result_3, w) \<Rightarrow>
      let out = out @ reported result_3; total_t = total_t + (clock e 5 - t) in
      case result_3 of None \<Rightarrow> (out, NullDeref, w) | Some r3 \<Rightarrow>
      (out @ [Client_receive (bk_res r3), Total_time total_t], Exit 0, w))"

definition client_main :: "('x, 'w) rpclib \<Rightarrow> env \<Rightarrow> string list \<Rightarrow> 'w \<Rightarrow> 'w ending" where
  "client_main L e argv w =
     (case argv of
        program # host # _ \<Rightarrow> client_prog L e host w
      | program # [] \<Rightarrow> ([Usage program], Exit 1, w)
      | [] \<Rightarrow> ([Usage ''(null)''], Exit 1, w))"

text \<open>The client of the single-threaded server, which also sleeps within the time it measures.\<close>

definition mono_prog :: "('x, 'w) rpclib \<Rightarrow> env \<Rightarrow> string \<Rightarrow> 'w \<Rightarrow> 'w ending" where
  "mono_prog L e host w =
     (case clnt_create L host BAKERY_PROG BAKERY_VER ''udp'' w of (ok, w) \<Rightarrow>
      if \<not> ok then ([Create_failed host], Exit 1, w) else
      let w = pause L (rand e 0 mod 3000000) w; t = clock e 0 in
      case mono_number_1 L (junk e 0) w of (result_1, w) \<Rightarrow>
      let out = reported result_1; total_t = clock e 1 - t in
      case result_1 of None \<Rightarrow> (out, NullDeref, w) | Some r1 \<Rightarrow>
      let out = out @ [Client_pid (bk_pid r1) (bk_num r1)];
          service_arg = (junk e 1)\<lparr>bk_pid := bk_pid r1, bk_num := bk_num r1\<rparr>;
          w = pause L (rand e 1 mod 3000000) w; t = clock e 2; w = pause L 10000000 w in
      case mono_service_1 L service_arg w of (result_2, w) \<Rightarrow>
      let out = out @ reported result_2; total_t = total_t + (clock e 3 - t) in
      case result_2 of None \<Rightarrow> (out, NullDeref, w) | Some r2 \<Rightarrow>
      (out @ [Client_receive (bk_res r2), Total_time total_t], Exit 0, w))"

definition mono_main :: "('x, 'w) rpclib \<Rightarrow> env \<Rightarrow> string list \<Rightarrow> 'w \<Rightarrow> 'w ending" where
  "mono_main L e argv w =
     (case argv of
        program # host # _ \<Rightarrow> mono_prog L e host w
      | program # [] \<Rightarrow> ([Usage program], Exit 1, w)
      | [] \<Rightarrow> ([Usage ''(null)''], Exit 1, w))"

text \<open>
  The whole program passes through the states of \<^const>\<open>bakery_prog_1\<close>, the client of the
  interleaved system: with the replies \<open>q1\<close>, \<open>q2\<close> and \<open>q3\<close> it exits with 0 and prints the letter
  exactly if these lead to \<^const>\<open>C_Done\<close>, and otherwise dereferences a null pointer.
\<close>

definition with_ticket :: "BAKERY \<Rightarrow> BAKERY option \<Rightarrow> BAKERY" where
  "with_ticket b q = (case q of None \<Rightarrow> b | Some r \<Rightarrow> b\<lparr>bk_pid := bk_pid r, bk_num := bk_num r\<rparr>)"

theorem client_prog_machine:
  assumes "clnt_create L host BAKERY_PROG BAKERY_VER ''udp'' w = (True, w0)"
    and "get_number_1 L (junk e 0) (pause L (1000000 * (rand e 0 mod 3 + 1)) w0) = (q1, w1)"
    and "bakery_wait_1 L (with_ticket (junk e 1) q1) (pause L (1000000 * (rand e 1 mod 3 + 1)) w1) = (q2, w2)"
    and "bakery_service_1 L (with_ticket (junk e 2) q1) (pause L (1000000 * (rand e 2 mod 3 + 1)) w2) = (q3, w3)"
  shows "case bakery_prog_1 (bakery_prog_1 (bakery_prog_1 C_Get q1) q2) q3 of
      C_Done c \<Rightarrow> (\<exists>out. client_prog L e host w = (out, Exit 0, w3) \<and> Client_receive c \<in> set out)
    | C_Crash \<Rightarrow> (\<exists>out w'. client_prog L e host w = (out, NullDeref, w') \<and> last out = Call_failed)
    | _ \<Rightarrow> False"
  using assms
  by (cases q1; cases q3) (simp_all add: client_prog_def with_ticket_def reported_def Let_def)

section \<open>The start of a server\<close>

datatype protocol = Udp | Tcp

text \<open>
  The portmapper (a parameter, a state \<open>'p\<close>): \<^verbatim>\<open>pmap_unset\<close> removes a program, \<^verbatim>\<open>svc_register\<close> enters
  one for a protocol. \<open>me\<close> is the server that starts, \<open>created\<close> the success of \<^verbatim>\<open>svcudp_create\<close> and
  \<^verbatim>\<open>svctcp_create\<close>. \<^verbatim>\<open>svc_run\<close> hands the requests to the dispatch function it registered; the value
  \<open>None\<close> is that it keeps serving.
\<close>

record ('p, 'srv) portlib =
  pmap_unset :: "int \<Rightarrow> int \<Rightarrow> 'p \<Rightarrow> 'p"
  svc_register :: "int \<Rightarrow> int \<Rightarrow> 'srv \<Rightarrow> protocol \<Rightarrow> 'p \<Rightarrow> bool \<times> 'p"

definition svc_main ::
  "('p, 'srv) portlib \<Rightarrow> (protocol \<Rightarrow> bool) \<Rightarrow> ('s \<Rightarrow> 's option) \<Rightarrow> 'srv \<Rightarrow> 'p \<Rightarrow> 's \<Rightarrow> 'p \<times> (string \<times> fault) option" where
  "svc_main P created svc_run me pm s =
     (let pm = pmap_unset P BAKERY_PROG BAKERY_VER pm in
      if \<not> created Udp then (pm, Some (''cannot create udp service.'', Exit 1)) else
      case svc_register P BAKERY_PROG BAKERY_VER me Udp pm of (ok, pm) \<Rightarrow>
      if \<not> ok then (pm, Some (''unable to register (BAKERY_PROG, BAKERY_VER, udp).'', Exit 1)) else
      if \<not> created Tcp then (pm, Some (''cannot create tcp service.'', Exit 1)) else
      case svc_register P BAKERY_PROG BAKERY_VER me Tcp pm of (ok, pm) \<Rightarrow>
      if \<not> ok then (pm, Some (''unable to register (BAKERY_PROG, BAKERY_VER, tcp).'', Exit 1)) else
      (pm, map_option (\<lambda>_. (''svc_run returned'', Exit 1)) (svc_run s)))"

text \<open>\<^verbatim>\<open>main\<close> of the single-threaded server: the same calls, with the same numbers of its own \<^verbatim>\<open>bakery.h\<close>.\<close>

definition mono_svc_main ::
  "('p, 'srv) portlib \<Rightarrow> (protocol \<Rightarrow> bool) \<Rightarrow> ('s \<Rightarrow> 's option) \<Rightarrow> 'srv \<Rightarrow> 'p \<Rightarrow> 's \<Rightarrow> 'p \<times> (string \<times> fault) option" where
  "mono_svc_main P created svc_run me pm s = svc_main P created svc_run me pm s"

end
