(* ===== verification/Bakery_Wire.thy ===== *)
theory Bakery_Wire
  imports Bakery_Programs
begin

text \<open>
  The single-threaded bakery program from end to end: the client's \<^verbatim>\<open>main\<close>, its stubs, the XDR
  routine on both sides, the dispatch function and the handlers. The transport is a parameter; the
  hypothesis \<^verbatim>\<open>delivers\<close> states what the RPC library documents about a call that is neither lost nor
  repeated.
\<close>

section \<open>The transport\<close>

text \<open>
  A call encodes its argument, has the server's dispatch function decode it into a cleared
  variable and run the handler, and decodes the result that this function had encoded. It fails
  when the server answers with an error. Nothing is said of calls whose handler faults or does not return.
\<close>

definition delivers ::
  "(char list \<Rightarrow> 'x) \<Rightarrow> (char list \<Rightarrow> 'x) \<Rightarrow> (nat \<Rightarrow> 's handler option) \<Rightarrow> ('x, 's) rpclib \<Rightarrow> bool" where
  "delivers enc dec table L \<longleftrightarrow>
     (\<forall>p arg into s bs arg' x a. bakery_xdr_of L (enc []) arg = (True, enc bs, arg') \<longrightarrow>
        bakery_xdr_of L (dec bs) BAKERY_zero = (True, x, a) \<longrightarrow>
        (case svc_dispatch table p (Some a) True True s of
           Some (Inr (Result r, s')) \<Rightarrow> (\<forall>rs r' y v. bakery_xdr_of L (enc []) r = (True, enc rs, r') \<longrightarrow>
             bakery_xdr_of L (dec rs) into = (True, y, v) \<longrightarrow>
             clnt_call L p (bakery_xdr_of L) arg (bakery_xdr_of L) into TIMEOUT s = (Some v, s'))
         | Some (Inr (_, s')) \<Rightarrow> clnt_call L p (bakery_xdr_of L) arg (bakery_xdr_of L) into TIMEOUT s = (None, s')
         | _ \<Rightarrow> True)) \<and>
     (\<forall>host w. clnt_create L host BAKERY_PROG BAKERY_VER ''udp'' w = (True, w)) \<and>
     (\<forall>t w. pause L t w = w)"

definition codecs :: "(char list \<Rightarrow> 'x) \<Rightarrow> (char list \<Rightarrow> 'x) \<Rightarrow> ('x, 'w) rpclib \<Rightarrow> bool" where
  "codecs enc dec L \<longleftrightarrow> xdr_codec enc dec (x_int L) int32 \<and> xdr_codec enc dec (x_char L) char8"

lemma delivers_ends:
  assumes "delivers enc dec table L"
  shows "clnt_create L host BAKERY_PROG BAKERY_VER ''udp'' w = (True, w)" "pause L t w = w"
  using assms by (simp_all add: delivers_def)

text \<open>Marshalling is transparent for the values of the C types.\<close>

lemma delivers_call:
  assumes "delivers enc dec table L" "codecs enc dec L" "representable arg"
  shows "svc_dispatch table p (Some arg) True True s = Some (Inr (Result r, s')) \<Longrightarrow> representable r \<Longrightarrow>
      clnt_call L p (bakery_xdr_of L) arg (bakery_xdr_of L) into TIMEOUT s = (Some r, s')"
    and "svc_dispatch table p (Some arg) True True s = Some (Inr (NoProc, s')) \<Longrightarrow>
      clnt_call L p (bakery_xdr_of L) arg (bakery_xdr_of L) into TIMEOUT s = (None, s')"
proof -
  have c: "xdr_codec enc dec (x_int L) int32" "xdr_codec enc dec (x_char L) char8"
    using assms(2) by (simp_all add: codecs_def)
  obtain bs where bs: "bakery_xdr_of L (enc []) arg = (True, enc bs, arg)"
    "\<And>rest b'. bakery_xdr_of L (dec (bs @ rest)) b' = (True, dec rest, arg)"
    by (rule xdr_BAKERY_wire [OF c assms(3)]) blast
  have d: "bakery_xdr_of L (dec bs) BAKERY_zero = (True, dec [], arg)" using bs(2) [of "[]"] by simp
  note deliver = assms(1) [unfolded delivers_def, THEN conjunct1, rule_format, OF bs(1) d, of p into s]
  show "clnt_call L p (bakery_xdr_of L) arg (bakery_xdr_of L) into TIMEOUT s = (Some r, s')"
    if answer: "svc_dispatch table p (Some arg) True True s = Some (Inr (Result r, s'))" and rep: "representable r"
  proof -
    obtain rs where rs: "bakery_xdr_of L (enc []) r = (True, enc rs, r)"
      "\<And>rest b'. bakery_xdr_of L (dec (rs @ rest)) b' = (True, dec rest, r)"
      by (rule xdr_BAKERY_wire [OF c rep]) blast
    show ?thesis using deliver answer rs(1) rs(2) [of "[]"] by simp
  qed
  show "clnt_call L p (bakery_xdr_of L) arg (bakery_xdr_of L) into TIMEOUT s = (None, s')"
    if "svc_dispatch table p (Some arg) True True s = Some (Inr (NoProc, s'))"
    using deliver that by simp
qed

section \<open>The server behind it\<close>

text \<open>
  The single-threaded server and the number of requests it has handled; \<open>clks n\<close> are the results of
  \<^verbatim>\<open>clock()\<close> during the \<open>n\<close>-th.
\<close>

definition counted :: "(nat \<Rightarrow> 's handler) \<Rightarrow> ('s \<times> nat) handler" where
  "counted h argp = (\<lambda>(s, n). map_option (map_sum (\<lambda>f. f) (\<lambda>(r, s'). (r, (s', Suc n)))) (h n argp s))"

definition mono_requests :: "(nat \<Rightarrow> nat \<Rightarrow> int) \<Rightarrow> nat \<Rightarrow> (mserver \<times> nat) handler option" where
  "mono_requests clks p =
     (if mono_table (clks 0) 0 p = None then None else Some (counted (\<lambda>n. the (mono_table (clks n) 0 p))))"

lemma mono_requests_simps:
  "svc_dispatch (mono_requests clks) GET_NUMBER (Some argp) True True (s, n) =
     (case mono_get_number s of Inl f \<Rightarrow> Some (Inl f) | Inr (r, s') \<Rightarrow> Some (Inr (Result r, (s', Suc n))))"
  "svc_dispatch (mono_requests clks) MONO_BAKERY_SERVICE (Some argp) True True (s, n) =
     (case mono_service (clks n) 0 argp s of None \<Rightarrow> None | Some (Inl f) \<Rightarrow> Some (Inl f)
      | Some (Inr (r, s')) \<Rightarrow> Some (Inr (Result r, (s', Suc n))))"
  "2 < p \<Longrightarrow> svc_dispatch (mono_requests clks) p (Some argp) True True sn = Some (Inr (NoProc, sn))"
  by (auto simp: svc_dispatch_def mono_requests_def mono_table_def counted_def bakery_numbers
      split: sum.splits option.splits)


section \<open>One client\<close>

lemma ok_facts:
  assumes "mono_ok s"
  shows "\<forall>j<32. 0 \<le> m_number s ! j \<and> m_number s ! j \<le> 32" "length (m_number s) = 32" "0 \<le> m_num s" "m_num s \<le> 32"
  using assms by (auto simp: mono_ok_def MSLOT_def intro: order_trans)

lemma mono_get_ok:
  assumes "mono_ok s" "m_num s < 32"
  shows "mono_get_number s = Inr (\<lparr>bk_num = max_loop (m_number s) + 1, bk_pid = m_num s, bk_res = 0\<rparr>,
      s\<lparr>m_num := m_num s + 1, m_number := (m_number s)[nat (m_num s) := max_loop (m_number s) + 1]\<rparr>)"
    and "0 \<le> max_loop (m_number s)" "max_loop (m_number s) \<le> 32"
proof -
  have len: "length (m_number s) = MSLOT" "m_choosing s = replicate MSLOT 0" using assms(1) by (simp_all add: mono_ok_def)
  show "mono_get_number s = Inr (\<lparr>bk_num = max_loop (m_number s) + 1, bk_pid = m_num s, bk_res = 0\<rparr>,
      s\<lparr>m_num := m_num s + 1, m_number := (m_number s)[nat (m_num s) := max_loop (m_number s) + 1]\<rparr>)"
    using assms(2) len ok_facts(3) [OF assms(1)] mono_scan [OF len(1)] MSLOT_def
    by (simp add: mono_get_number_def Let_def aput_def in_bounds_def)
  show "0 \<le> max_loop (m_number s)" by (rule max_loop_upper)
  show "max_loop (m_number s) \<le> 32"
    using ok_facts(1,2) [OF assms(1)] by (auto simp: max_loop_def max_loop_aux in_set_conv_nth intro!: foldl_max_le)
qed

lemma mono_get_full: "mono_ok s \<Longrightarrow> m_num s = 32 \<Longrightarrow> mono_get_number s = Inl OutOfBounds"
  using mono_tickets.issue_full [OF mono_ok_issuing, of s OutOfBounds] ok_facts(2) [of s] by simp

text \<open>What a client that is served in state \<open>s\<close> leaves of it.\<close>

definition after_client :: "mserver \<Rightarrow> mserver" where
  "after_client s = s\<lparr>m_num := m_num s + 1, m_letter := letter_at (Suc (length (m_printed s))),
     m_printed := m_printed s @ [(m_num s, max_loop (m_number s) + 1, letter_at (length (m_printed s)))]\<rparr>"

definition served_lines :: "env \<Rightarrow> mserver \<Rightarrow> line list" where
  "served_lines e s = [Client_pid (m_num s) (max_loop (m_number s) + 1), Client_receive (letter_at (length (m_printed s))),
     Total_time ((clock e 1 - clock e 0) + (clock e 3 - clock e 2))]"

definition env_ok :: "env \<Rightarrow> bool" where
  "env_ok e \<longleftrightarrow> (\<forall>k. representable (junk e k))"

text \<open>The two calls of a client, the second with what the first returned.\<close>

definition ticket :: "mserver \<Rightarrow> BAKERY \<Rightarrow> BAKERY" where
  "ticket s b = b\<lparr>bk_pid := m_num s, bk_num := max_loop (m_number s) + 1\<rparr>"

lemma mono_two_calls:
  assumes L: "delivers enc dec (mono_requests clks) L" "codecs enc dec L"
    and s: "mono_ok s" "m_num s < 32" and clk: "clock_advances (clks (Suc n))"
  shows "\<exists>s1. (\<forall>j. representable j \<longrightarrow>
      clnt_call L GET_NUMBER (bakery_xdr_of L) j (bakery_xdr_of L) BAKERY_zero TIMEOUT (s, n) =
        (Some (ticket s BAKERY_zero), (s1, Suc n)) \<and>
      clnt_call L MONO_BAKERY_SERVICE (bakery_xdr_of L) (ticket s j) (bakery_xdr_of L) BAKERY_zero TIMEOUT (s1, Suc n) =
        (Some \<lparr>bk_num = 0, bk_pid = 0, bk_res = letter_at (length (m_printed s))\<rparr>, (after_client s, Suc (Suc n))))"
    and "mono_ok (after_client s)"
proof -
  let ?m = "max_loop (m_number s) + 1"
  let ?s1 = "s\<lparr>m_num := m_num s + 1, m_number := (m_number s)[nat (m_num s) := ?m]\<rparr>"
  note get = mono_get_ok [OF s]
  note range = ok_facts [OF s(1)]
  have ok1: "mono_ok ?s1" using mono_ok_get [OF s(1) get(1)] .
  have rep: "representable (ticket s j)" if "representable j" for j
    using that get(2,3) range(3,4) by (auto simp: ticket_def representable_def)
  have repz: "representable (ticket s BAKERY_zero)"
    by (rule rep) (simp add: BAKERY_zero_def representable_def)
  have zero: "m_number s ! nat (m_num s) = 0" using s range(3) by (auto simp: mono_ok_def MSLOT_def)
  have sv: "mono_service (clks (Suc n)) 0 (ticket s j) ?s1 =
      Some (Inr (\<lparr>bk_num = 0, bk_pid = 0, bk_res = letter_at (length (m_printed s))\<rparr>, after_client s))" for j
  proof -
    obtain r2 s2 where sv: "mono_service (clks (Suc n)) 0 (ticket s j) ?s1 = Some (Inr (r2, s2))"
      using mono_service_in_range [OF ok1 clk, of "ticket s j" 0] s(2) range(3) by (auto simp: ticket_def)
    note eff = mono_service_effect [OF ok1 sv]
    have "s2 = after_client s"
      using eff(2-6) zero range(2,3) s(2) unfolding after_client_def
      by (intro mserver.equality) (auto simp: list_update_same_conv ticket_def)
    with sv eff(1) show ?thesis by simp
  qed
  have "representable \<lparr>bk_num = 0, bk_pid = 0, bk_res = letter_at (length (m_printed s))\<rparr>"
    using letter_at_range [of "length (m_printed s)"] by (simp add: representable_def)
  then show "\<exists>s1. (\<forall>j. representable j \<longrightarrow>
      clnt_call L GET_NUMBER (bakery_xdr_of L) j (bakery_xdr_of L) BAKERY_zero TIMEOUT (s, n) =
        (Some (ticket s BAKERY_zero), (s1, Suc n)) \<and>
      clnt_call L MONO_BAKERY_SERVICE (bakery_xdr_of L) (ticket s j) (bakery_xdr_of L) BAKERY_zero TIMEOUT (s1, Suc n) =
        (Some \<lparr>bk_num = 0, bk_pid = 0, bk_res = letter_at (length (m_printed s))\<rparr>, (after_client s, Suc (Suc n))))"
    using repz rep
    by (intro exI [of _ ?s1] allI impI conjI delivers_call(1) [OF L])
       (simp_all add: mono_requests_simps get(1) sv, simp_all add: ticket_def BAKERY_zero_def)
  show "mono_ok (after_client s)" using mono_ok_service [OF ok1 sv] .
qed

lemma mono_client_served:
  assumes L: "delivers enc dec (mono_requests clks) L" "codecs enc dec L" and e: "env_ok e"
    and s: "mono_ok s" "m_num s < 32" and clk: "clock_advances (clks (Suc n))"
  shows "mono_main L e [program, host] (s, n) = (served_lines e s, Exit 0, (after_client s, Suc (Suc n)))"
    and "mono_ok (after_client s)"
proof -
  have rep: "representable (junk e k)" for k using e by (simp add: env_ok_def)
  from mono_two_calls(1) [OF L s clk] obtain s1 where
    c: "mono_number_1 L (junk e 0) (s, n) = (Some (ticket s BAKERY_zero), (s1, Suc n))"
      "mono_service_1 L (ticket s (junk e (Suc 0))) (s1, Suc n) =
        (Some \<lparr>bk_num = 0, bk_pid = 0, bk_res = letter_at (length (m_printed s))\<rparr>, (after_client s, Suc (Suc n)))"
    using rep unfolding mono_number_1_def mono_service_1_def by blast
  then show "mono_main L e [program, host] (s, n) = (served_lines e s, Exit 0, (after_client s, Suc (Suc n)))"
    by (simp add: mono_main_def mono_prog_def delivers_ends [OF L(1)] reported_def Let_def served_lines_def ticket_def)
qed (rule mono_two_calls(2) [OF L s clk])

section \<open>Properties\<close>

text \<open>Clients started one after the other.\<close>

fun run_clients :: "('x, 'w) rpclib \<Rightarrow> env list \<Rightarrow> 'w \<Rightarrow> (line list \<times> fault) list \<times> 'w" where
  "run_clients L [] w = ([], w)"
| "run_clients L (e # es) w =
     (case mono_main L e [''bakery_client'', ''127.0.0.1''] w of (out, f, w) \<Rightarrow>
      case run_clients L es w of (rs, w) \<Rightarrow> ((out, f) # rs, w))"

definition served_state :: "nat \<Rightarrow> mserver \<Rightarrow> bool" where
  "served_state k s \<longleftrightarrow> mono_ok s \<and> m_num s = int k \<and> length (m_printed s) = k \<and> m_number s = replicate 32 0"

definition own_time :: "env \<Rightarrow> int" where
  "own_time e = (clock e 1 - clock e 0) + (clock e 3 - clock e 2)"

definition client_result :: "nat \<Rightarrow> env \<Rightarrow> line list \<times> fault" where
  "client_result k e =
     ([Client_pid (int k) 1, Client_receive (letter_at k), Total_time (own_time e)], Exit 0)"

lemma max_loop_zeros: "max_loop (replicate n 0) = 0"
proof -
  have "foldl max (0 :: int) (replicate n 0) \<le> 0" by (rule foldl_max_le) simp_all
  then show ?thesis using max_loop_upper(1) [of "replicate n 0"] by (simp add: max_loop_def max_loop_aux)
qed

lemma run_clients_from:
  assumes L: "delivers enc dec (mono_requests clks) L" "codecs enc dec L" and clk: "\<forall>n. clock_advances (clks n)"
    and "\<forall>e\<in>set es. env_ok e" "served_state k s" "k + length es \<le> 32"
  shows "\<exists>s' n'. run_clients L es (s, n) = (map (\<lambda>(k, e). client_result k e) (zip [k..<k + length es] es), (s', n')) \<and>
    served_state (k + length es) s'"
  using assms(4-6)
proof (induction es arbitrary: s n k)
  case Nil
  then show ?case by simp
next
  case (Cons e es)
  have st: "mono_ok s" "m_num s = int k" "length (m_printed s) = k" "m_number s = replicate 32 0"
    using Cons.prems(2) by (auto simp: served_state_def)
  have e: "env_ok e" and lt: "m_num s < 32" and clk': "clock_advances (clks (Suc n))"
    using Cons.prems(1,3) st(2) clk by auto
  note c = mono_client_served [OF L e st(1) lt clk']
  have "served_state (Suc k) (after_client s)"
    using c(2) st by (simp add: served_state_def after_client_def)
  moreover have "(served_lines e s, Exit 0) = client_result k e"
    using st by (simp add: served_lines_def client_result_def own_time_def max_loop_zeros)
  moreover have "[k..<k + length (e # es)] = k # [Suc k..<Suc k + length es]" by (simp add: upt_conv_Cons del: upt_Suc)
  ultimately show ?case
    using Cons.IH [of "Suc k" "after_client s" "Suc (Suc n)"] Cons.prems c(1) by (auto simp del: upt_Suc)
qed

text \<open>
  C18: The single-threaded program from end to end. Clients that run one after the other against a fresh
  server, at most 32 of them, over a transport that delivers, XDR primitives that are codecs and a server clock that
  advances: the \<open>k\<close>-th prints its process number \<open>k\<close>, ticket 1 and the \<open>k\<close>-th letter
  of the repeated alphabet and exits with 0. After 32 clients the next \<^verbatim>\<open>get_number\<close> writes outside the server's arrays.
\<close>

theorem mono_clients_in_turn:
  assumes "delivers enc dec (mono_requests clks) L" "codecs enc dec L"
    and "\<forall>n. clock_advances (clks n)" and "\<forall>e\<in>set es. env_ok e" and "length es \<le> 32"
  shows "\<exists>s n. run_clients L es (init_mserver, 0) = (map (\<lambda>(k, e). client_result k e) (zip [0..<length es] es), (s, n)) \<and>
    (length es = 32 \<longrightarrow> mono_get_number s = Inl OutOfBounds)"
proof -
  have "served_state 0 init_mserver"
    using mono_ok_init by (simp add: served_state_def init_mserver_def MSLOT_def)
  from run_clients_from [OF assms(1-4) this, of 0] assms(5) obtain s n where
    "run_clients L es (init_mserver, 0) = (map (\<lambda>(k, e). client_result k e) (zip [0..<length es] es), (s, n))"
    "served_state (length es) s" by auto
  then show ?thesis by (auto simp: served_state_def mono_get_full)
qed


text \<open>A transport that delivers: it passes the bytes on in memory.\<close>

definition ideal_call ::
  "(nat \<Rightarrow> 's handler option) \<Rightarrow> nat \<Rightarrow> stream bakery_xdr \<Rightarrow> BAKERY \<Rightarrow> stream bakery_xdr \<Rightarrow> BAKERY \<Rightarrow> int \<times> int \<Rightarrow>
   's \<Rightarrow> BAKERY option \<times> 's" where
  "ideal_call table p xargs arg xres into tmo s =
     (case xargs (XDR_ENCODE []) arg of
        (True, XDR_ENCODE bs, _) \<Rightarrow>
          (case xargs (XDR_DECODE bs) BAKERY_zero of
             (True, _, a) \<Rightarrow>
               (case svc_dispatch table p (Some a) True True s of
                  Some (Inr (Result r, s')) \<Rightarrow>
                    (case xres (XDR_ENCODE []) r of
                       (True, XDR_ENCODE rs, _) \<Rightarrow>
                         (case xres (XDR_DECODE rs) into of (True, _, v) \<Rightarrow> (Some v, s') | _ \<Rightarrow> (None, s'))
                     | _ \<Rightarrow> (None, s'))
                | Some (Inr (_, s')) \<Rightarrow> (None, s')
                | _ \<Rightarrow> (None, s))
           | _ \<Rightarrow> (None, s))
      | _ \<Rightarrow> (None, s))"

definition ideal_lib :: "(nat \<Rightarrow> 's handler option) \<Rightarrow> (stream, 's) rpclib" where
  "ideal_lib table = \<lparr>x_int = xdr_prim, x_char = xdr_prim, clnt_create = (\<lambda>_ _ _ _ w. (True, w)),
     clnt_call = ideal_call table, pause = (\<lambda>_ w. w)\<rparr>"

lemma ideal_delivers: "delivers XDR_ENCODE XDR_DECODE table (ideal_lib table)"
  by (auto simp: delivers_def ideal_lib_def ideal_call_def split: option.split sum.split answer.split)

lemma ideal_codecs: "codecs XDR_ENCODE XDR_DECODE (ideal_lib table)"
  by (auto simp: codecs_def ideal_lib_def intro: xdr_prim_codec)

lemma ticking: "clock_advances (\<lambda>k. 1000000 * int k)"
  unfolding clock_advances_def
proof (intro allI)
  fix t :: int and k :: nat
  have "k \<le> k + nat \<bar>t\<bar> + 1" "CLOCKS_PER_SEC \<le> 1000000 * int (k + nat \<bar>t\<bar> + 1) - t"
    by (auto simp: CLOCKS_PER_SEC_def)
  then show "\<exists>k'\<ge>k. CLOCKS_PER_SEC \<le> 1000000 * int k' - t" by blast
qed

definition some_env :: env where
  "some_env = \<lparr>rand = (\<lambda>_. 7), clock = (\<lambda>k. 10 * int k), junk = (\<lambda>_. \<lparr>bk_num = 5, bk_pid = -1, bk_res = 0\<rparr>)\<rparr>"

theorem mono_clients_in_turn_witness:
  "fst (run_clients (ideal_lib (mono_requests (\<lambda>_ k. 1000000 * int k))) [some_env, some_env] (init_mserver, 0)) =
    [([Client_pid 0 1, Client_receive 97, Total_time 20], Exit 0), ([Client_pid 1 1, Client_receive 98, Total_time 20], Exit 0)] \<and>
   (\<exists>s. fst (snd (run_clients (ideal_lib (mono_requests (\<lambda>_ k. 1000000 * int k))) (replicate 32 some_env) (init_mserver, 0))) = s \<and>
     mono_get_number s = Inl OutOfBounds)"
proof -
  have e: "env_ok some_env" by (simp add: env_ok_def some_env_def representable_def)
  note t = mono_clients_in_turn [OF ideal_delivers ideal_codecs, of "\<lambda>_ k. 1000000 * int k"]
  from t [of "[some_env, some_env]"] e ticking
  have "fst (run_clients (ideal_lib (mono_requests (\<lambda>_ k. 1000000 * int k))) [some_env, some_env] (init_mserver, 0)) =
    [([Client_pid 0 1, Client_receive 97, Total_time 20], Exit 0), ([Client_pid 1 1, Client_receive 98, Total_time 20], Exit 0)]"
    by (auto simp: client_result_def own_time_def some_env_def letter_at_def)
  moreover from t [of "replicate 32 some_env"] e ticking
  obtain s n where "snd (run_clients (ideal_lib (mono_requests (\<lambda>_ k. 1000000 * int k))) (replicate 32 some_env) (init_mserver, 0)) = (s, n)"
    "mono_get_number s = Inl OutOfBounds" by auto
  ultimately show ?thesis by auto
qed

text \<open>
  C37: Both programs register the same program, version and procedure numbers. A client of the
  multi-threaded server that reaches the single-threaded one has its second call, \<^verbatim>\<open>bakery_wait\<close>, taken for
  the service: the server prints and uses up a letter and clears the ticket; the third call is refused as an unknown
  procedure and the client dereferences the null result without having received its letter.
\<close>

theorem mixed_client_crashes:
  assumes L: "delivers enc dec (mono_requests clks) L" "codecs enc dec L" and e: "env_ok e"
    and s: "mono_ok s" "m_num s < 32" and clk: "clock_advances (clks (Suc n))"
  shows "client_main L e [program, host] (s, n) =
    ([Client_pid (m_num s) (max_loop (m_number s) + 1), Call_failed], NullDeref, (after_client s, Suc (Suc n)))"
proof -
  have rep: "representable (junk e k)" for k using e by (simp add: env_ok_def)
  have "BAKERY_WAIT = MONO_BAKERY_SERVICE" by (simp add: bakery_numbers)
  with mono_two_calls(1) [OF L s clk] obtain s1 where
    c: "get_number_1 L (junk e 0) (s, n) = (Some (ticket s BAKERY_zero), (s1, Suc n))"
      "bakery_wait_1 L (ticket s (junk e (Suc 0))) (s1, Suc n) =
        (Some \<lparr>bk_num = 0, bk_pid = 0, bk_res = letter_at (length (m_printed s))\<rparr>, (after_client s, Suc (Suc n)))"
    using rep unfolding get_number_1_def bakery_wait_1_def by metis
  have "representable (ticket s (junk e 2))"
    using rep [of 2] ok_facts [OF s(1)] mono_get_ok(2,3) [OF s] by (auto simp: ticket_def representable_def)
  from delivers_call(2) [OF L this mono_requests_simps(3)]
  have "bakery_service_1 L (ticket s (junk e 2)) (after_client s, Suc (Suc n)) = (None, (after_client s, Suc (Suc n)))"
    unfolding bakery_service_1_def by (simp add: bakery_numbers)
  with c show ?thesis
    by (simp add: client_main_def client_prog_def delivers_ends [OF L(1)] reported_def Let_def ticket_def numeral_2_eq_2)
qed

theorem mixed_client_crashes_witness:
  "client_main (ideal_lib (mono_requests (\<lambda>_ k. 1000000 * int k))) some_env [''bakery_client'', ''127.0.0.1''] (init_mserver, 0) =
    ([Client_pid 0 1, Call_failed], NullDeref, (after_client init_mserver, 2))"
proof -
  have "max_loop (m_number init_mserver) = 0" "m_num init_mserver = 0"
    using max_loop_zeros [of MSLOT] by (simp_all add: init_mserver_def)
  moreover have "env_ok some_env" by (simp add: env_ok_def some_env_def representable_def)
  ultimately show ?thesis
    using mixed_client_crashes [OF ideal_delivers ideal_codecs _ mono_ok_init, of some_env "\<lambda>_ k. 1000000 * int k" 0] ticking
    by (simp add: numeral_2_eq_2)
qed

text \<open>
  What the portmapper promises: \<^verbatim>\<open>pmap_unset\<close> removes every entry of a program, \<^verbatim>\<open>svc_register\<close>, where it
  succeeds, enters the server for one protocol and leaves the other alone.
\<close>

definition portmapper_laws :: "('p, 'srv) portlib \<Rightarrow> ('p \<Rightarrow> int \<Rightarrow> int \<Rightarrow> protocol \<Rightarrow> 'srv option) \<Rightarrow> bool" where
  "portmapper_laws P look \<longleftrightarrow>
     (\<forall>p v pm q. look (pmap_unset P p v pm) p v q = None) \<and>
     (\<forall>p v me q pm. case svc_register P p v me q pm of (ok, pm') \<Rightarrow>
        \<forall>q'. look pm' p v q' = (if ok \<and> q' = q then Some me else look pm p v q'))"

text \<open>
  A server that serves is the only one its program number leads to, for both protocols, whatever was
  registered before; its \<^verbatim>\<open>main\<close> never returns but by \<^verbatim>\<open>exit(1)\<close>; and if it gives up after the first
  registration, that one stays behind.
\<close>

theorem svc_main_registers:
  assumes "portmapper_laws P look" "svc_main P created svc_run me pm s = (pm', r)"
  shows "(r = None \<longrightarrow> (\<forall>q. look pm' BAKERY_PROG BAKERY_VER q = Some me)) \<and>
    (\<forall>msg f. r = Some (msg, f) \<longrightarrow> f = Exit 1) \<and>
    (look pm' BAKERY_PROG BAKERY_VER Tcp = Some me \<longrightarrow> look pm' BAKERY_PROG BAKERY_VER Udp = Some me) \<and>
    (\<not> created Tcp \<longrightarrow> look pm' BAKERY_PROG BAKERY_VER Udp = Some me \<longrightarrow> r = Some (''cannot create tcp service.'', Exit 1))"
proof -
  have unset: "look (pmap_unset P p v pm) p v q = None" for p v pm q
    using assms(1) by (simp add: portmapper_laws_def)
  have reg: "look pm'' p v q' = (if ok \<and> q' = q then Some me else look pm p v q')"
    if "svc_register P p v me q pm = (ok, pm'')" for p v me q q' pm pm'' ok
    using assms(1) that by (auto simp: portmapper_laws_def split: prod.splits)
  define pm0 where "pm0 = pmap_unset P BAKERY_PROG BAKERY_VER pm"
  obtain ok1 pm1 where 1: "svc_register P BAKERY_PROG BAKERY_VER me Udp pm0 = (ok1, pm1)" by fastforce
  obtain ok2 pm2 where 2: "svc_register P BAKERY_PROG BAKERY_VER me Tcp pm1 = (ok2, pm2)" by fastforce
  note looks = unset [of BAKERY_PROG BAKERY_VER pm, folded pm0_def] reg [OF 1] reg [OF 2]
  have all: "(\<forall>q. look pm2 BAKERY_PROG BAKERY_VER q = Some me) \<longleftrightarrow> ok1 \<and> ok2"
    by (metis (full_types) looks option.distinct(1) protocol.exhaust protocol.distinct(1))
  from assms(2) show ?thesis
    using looks all by (auto simp: svc_main_def Let_def pm0_def [symmetric] 1 2 split: if_splits)
qed

definition table_lib :: "(protocol \<Rightarrow> nat option, nat) portlib" where
  "table_lib = \<lparr>pmap_unset = (\<lambda>_ _ _ _. None), svc_register = (\<lambda>_ _ me q pm. (True, pm(q := Some me)))\<rparr>"

definition table_look :: "(protocol \<Rightarrow> nat option) \<Rightarrow> int \<Rightarrow> int \<Rightarrow> protocol \<Rightarrow> nat option" where
  "table_look pm p v q = pm q"

text \<open>The second of two servers, started while the first serves, takes both entries over.\<close>

theorem svc_main_registers_witness:
  "\<forall>q. table_look (fst (mono_svc_main table_lib (\<lambda>_. True) (\<lambda>_. None) 2
      (fst (svc_main table_lib (\<lambda>_. True) (\<lambda>_. None) 1 (\<lambda>_. None) ())) ())) BAKERY_PROG BAKERY_VER q = Some 2"
proof -
  have laws: "portmapper_laws table_lib table_look"
    by (auto simp: portmapper_laws_def table_lib_def table_look_def)
  let ?pm = "fst (svc_main table_lib (\<lambda>_. True) (\<lambda>_. None) 1 (\<lambda>_. None) ())"
  obtain pm' r where m: "svc_main table_lib (\<lambda>_. True) (\<lambda>_. None) 2 ?pm () = (pm', r)" by fastforce
  moreover have "r = None" using m by (auto simp: svc_main_def table_lib_def Let_def)
  ultimately show ?thesis using svc_main_registers [OF laws m] by (simp add: mono_svc_main_def)
qed

end
