(* ===== verification/Kernel_Calls.thy ===== *)
theory Kernel_Calls
  imports Prelude "HOL-Library.Word"
begin

text \<open>
  What the loadable modules share: the log written by \<^verbatim>\<open>printk\<close> (a message is recorded
  without its level and its final newline) and the record of the calls
  by which a module acquires and releases kernel resources. The kernel's own code is not
  modelled: whether an acquiring call succeeds is an argument of the module's functions, and
  the record only says which calls the module made. Whether the calls are balanced is judged
  on the record.
\<close>

section \<open>Resources and the record of calls\<close>

datatype kres =
    VMem                          \<comment> \<open>\<^verbatim>\<open>vmalloc\<close>\<close>
  | KMem string                   \<comment> \<open>\<^verbatim>\<open>kmalloc\<close>, by the variable that holds it\<close>
  | ProcEntry "string option" string \<comment> \<open>an entry of /proc: its parent directory and its name\<close>
  | Irq nat
  | Workqueue string
  | FsType string
  | Cache string                  \<comment> \<open>a slab cache\<close>
  | CacheObj nat                  \<comment> \<open>an object of it, by its index\<close>
  | InodeRef                      \<comment> \<open>the inode obtained by \<^verbatim>\<open>new_inode\<close>\<close>
  | RootDentry                    \<comment> \<open>the root made of it by \<^verbatim>\<open>d_make_root\<close>\<close>
  | PidRef int                    \<comment> \<open>the reference taken by \<^verbatim>\<open>find_get_pid\<close>\<close>
  | TaskRef int                   \<comment> \<open>the reference taken by \<^verbatim>\<open>get_pid_task\<close>\<close>
  | SeqBuf                        \<comment> \<open>the \<^verbatim>\<open>struct seq_file\<close> of an open file, with its buffer\<close>
  | SingleOps                     \<comment> \<open>the operations \<^verbatim>\<open>single_open\<close> makes for one record\<close>

datatype kcall = Acq kres | Rel kres

record kmod =
  klog :: "string list"
  calls :: "kcall list"

definition printk :: "string \<Rightarrow> 'a kmod_scheme \<Rightarrow> 'a kmod_scheme" where
  "printk msg s = s\<lparr>klog := klog s @ [msg]\<rparr>"

definition acquire :: "kres \<Rightarrow> 'a kmod_scheme \<Rightarrow> 'a kmod_scheme" where
  "acquire r s = s\<lparr>calls := calls s @ [Acq r]\<rparr>"

definition release :: "kres \<Rightarrow> 'a kmod_scheme \<Rightarrow> 'a kmod_scheme" where
  "release r s = s\<lparr>calls := calls s @ [Rel r]\<rparr>"

named_theorems mod_simps \<open>fields of a module's state after its primitive actions\<close>

lemma calls_primitives [simp, mod_simps]:
  "calls (printk m s) = calls s"
  "calls (acquire r s) = calls s @ [Acq r]"
  "calls (release r s) = calls s @ [Rel r]"
  "kmod.more (printk m s) = kmod.more s"
  "kmod.more (acquire r s) = kmod.more s"
  "kmod.more (release r s) = kmod.more s"
  by (simp_all add: printk_def acquire_def release_def)

section \<open>Balance\<close>

text \<open>
  What is held after a record of calls; \<open>None\<close> if something is released that is not held, or
  a /proc directory while an entry below it is still there.
\<close>

definition has_child :: "kres \<Rightarrow> kres list \<Rightarrow> bool" where
  "has_child r held \<longleftrightarrow>
     (case r of ProcEntry p d \<Rightarrow> (\<exists>x\<in>set held. case x of ProcEntry q n \<Rightarrow> q = Some d | _ \<Rightarrow> False)
      | _ \<Rightarrow> False)"

fun outstanding :: "kcall list \<Rightarrow> kres list \<Rightarrow> kres list option" where
  "outstanding [] held = Some held"
| "outstanding (Acq r # cs) held = outstanding cs (r # held)"
| "outstanding (Rel r # cs) held =
     (if r \<in> set held \<and> \<not> has_child r (remove1 r held)
      then outstanding cs (remove1 r held) else None)"

lemma outstanding_append:
  "outstanding (cs @ ds) held = Option.bind (outstanding cs held) (outstanding ds)"
  by (induction cs held rule: outstanding.induct) auto

lemma outstanding_acquires [simp]: "outstanding (map Acq rs) held = Some (rev rs @ held)"
  by (induction rs arbitrary: held) auto

text \<open>Releasing a set of resources that are held once each.\<close>

lemma outstanding_releases:
  assumes "distinct rs" "distinct held" "set rs \<subseteq> set held" "\<And>r h. r \<in> set rs \<Longrightarrow> \<not> has_child r h"
  shows "outstanding (map Rel rs) held = Some (filter (\<lambda>r. r \<notin> set rs) held)"
  using assms
proof (induction rs arbitrary: held)
  case Nil
  then show ?case by simp
next
  case (Cons r rs)
  then have "outstanding (map Rel rs) (remove1 r held) = Some (filter (\<lambda>x. x \<notin> set rs) (remove1 r held))"
    by (intro Cons.IH) auto
  moreover have "filter (\<lambda>x. x \<notin> set rs) (remove1 r held) = filter (\<lambda>x. x \<notin> set (r # rs)) held"
    using Cons.prems by (auto simp: distinct_remove1_removeAll removeAll_filter_not_eq intro: filter_cong)
  ultimately show ?case using Cons.prems by simp
qed

section \<open>The life of a module\<close>

text \<open>
  One life of a module: load it in an environment that decides which calls succeed, use it,
  unload it; \<open>made\<close> reads the calls off the module's state. If \<^verbatim>\<open>init\<close> fails, the kernel drops
  the module at once. The contract of a module's \<^verbatim>\<open>init\<close> and \<^verbatim>\<open>exit\<close>: a failed \<^verbatim>\<open>init\<close> has given back all it
  took; after a successful one, whatever the module's operations did in between, \<^verbatim>\<open>exit\<close> gives
  back the rest. \<open>handles\<close> is the part of the module's state that its operations leave alone.
\<close>

definition life ::
  "'m \<Rightarrow> ('env \<Rightarrow> 'm \<Rightarrow> int \<times> 'm) \<Rightarrow> ('m \<Rightarrow> 'm) \<Rightarrow> ('m \<Rightarrow> kcall list) \<Rightarrow> 'env \<Rightarrow> ('m \<Rightarrow> 'm) \<Rightarrow> kcall list" where
  "life fresh init exit made env use =
     (case init env fresh of (rc, m) \<Rightarrow> if rc \<noteq> 0 then made m else made (exit (use m)))"

locale exiting_module =
  fixes fresh :: "'m" and init :: "'env \<Rightarrow> 'm \<Rightarrow> int \<times> 'm" and exit :: "'m \<Rightarrow> 'm"
    and made :: "'m \<Rightarrow> kcall list" and handles :: "'m \<Rightarrow> 'h"
  assumes exit_balances: "init env fresh = (0, m) \<Longrightarrow> handles m' = handles m \<Longrightarrow> made m' = made m \<Longrightarrow>
      outstanding (made (exit m')) [] = Some []"
begin

lemma loaded_life_balanced:
  assumes "fst (init env fresh) = 0" "\<And>m. handles (use m) = handles m" "\<And>m. made (use m) = made m"
  shows "outstanding (life fresh init exit made env use) [] = Some []"
  using exit_balances [of env "snd (init env fresh)"] assms
  by (auto simp: life_def split: prod.splits)

end

locale balanced_module = exiting_module +
  assumes init_fails: "init env fresh = (rc, m) \<Longrightarrow> rc \<noteq> 0 \<Longrightarrow> outstanding (made m) [] = Some []"
begin

lemma life_balanced:
  assumes "\<And>m. handles (use m) = handles m" "\<And>m. made (use m) = made m"
  shows "outstanding (life fresh init exit made env use) [] = Some []"
  using init_fails [of env] exit_balances [of env] assms by (auto simp: life_def split: prod.splits)

text \<open>Any number of lives, one after the other, leaves nothing behind.\<close>

lemma lives_balanced:
  assumes "\<And>use m. use \<in> set (map snd us) \<Longrightarrow> handles (use m) = handles m \<and> made (use m) = made m"
  shows "outstanding (concat (map (\<lambda>(env, use). life fresh init exit made env use) us)) [] = Some []"
  using assms
proof (induction us)
  case Nil
  then show ?case by simp
next
  case (Cons u us)
  obtain env use where u: "u = (env, use)" by (cases u)
  with Cons.prems have "outstanding (life fresh init exit made env use) [] = Some []"
    by (intro life_balanced) auto
  moreover have "outstanding (concat (map (\<lambda>(env, use). life fresh init exit made env use) us)) [] = Some []"
    using Cons.prems by (intro Cons.IH) auto
  ultimately show ?case by (simp add: u outstanding_append)
qed

end

section \<open>Sizes and error codes\<close>

definition PAGE_SIZE :: nat where "PAGE_SIZE = 4096"

definition ENOMEM :: int where "ENOMEM = 12"
definition EFAULT :: int where "EFAULT = 14"
definition ENOSPC :: int where "ENOSPC = 28"

text \<open>
  \<^verbatim>\<open>copy_from_user\<close>, when \<open>left\<close> bytes could not be copied: the rest is padded with zero bytes.
\<close>

definition user_bytes :: "nat \<Rightarrow> char list \<Rightarrow> char list" where
  "user_bytes left data = take (length data - left) data @ replicate (min left (length data)) NUL"

lemma length_user_bytes [simp]: "length (user_bytes left data) = length data"
  by (cases "left \<le> length data") (auto simp: user_bytes_def)

lemma user_bytes_0 [simp]: "user_bytes 0 data = data"
  by (simp add: user_bytes_def)

end
