(* ===== verification/Fortune.thy ===== *)
theory Fortune
  imports Kernel_Calls
begin

text \<open>
  The \<^verbatim>\<open>/proc\<close> cookie pot of \<^verbatim>\<open>6/fortunka/fortune.c\<close>: writes append a NUL-terminated cookie to a
  page-sized buffer, each read of the open file returns the next cookie, cyclically.
\<close>

section \<open>State\<close>

record fortune = kmod +
  fortuneFile :: bool
  fortuneDir :: bool
  fortuneLink :: bool
  cookiePot :: "char list option"
  tmpBuf :: "char list"
  readInd :: int
  writeInd :: int

definition COOKIE_POT_SIZE :: nat where "COOKIE_POT_SIZE = PAGE_SIZE"

abbreviation FILENAME :: string where "FILENAME \<equiv> ''fortuneFile''"
abbreviation DIRNAME :: string where "DIRNAME \<equiv> ''fortuneDir''"
abbreviation SYMLINK :: string where "SYMLINK \<equiv> ''fortuneLink''"

definition fortune_fresh :: fortune where
  "fortune_fresh = \<lparr>klog = [], calls = [], fortuneFile = False, fortuneDir = False,
     fortuneLink = False, cookiePot = None, tmpBuf = replicate COOKIE_POT_SIZE NUL,
     readInd = 0, writeInd = 0\<rparr>"

section \<open>Loading and unloading\<close>

definition freeMemory :: "fortune \<Rightarrow> fortune" where
  "freeMemory s =
     (let s = (if fortuneLink s then release (ProcEntry None SYMLINK) s else s);
          s = (if fortuneFile s then release (ProcEntry (Some DIRNAME) FILENAME) s else s);
          s = (if fortuneDir s then release (ProcEntry None DIRNAME) s else s)
      in case cookiePot s of None \<Rightarrow> s | Some _ \<Rightarrow> release VMem s)"

text \<open>Which of the acquiring calls succeed.\<close>

record fortune_env =
  ok_vmalloc :: bool
  ok_mkdir :: bool
  ok_create :: bool
  ok_symlink :: bool

definition fortune_init :: "fortune_env \<Rightarrow> fortune \<Rightarrow> int \<times> fortune" where
  "fortune_init e s =
     (let s = printk ''fortune: init'' s in
      if \<not> ok_vmalloc e then (- ENOMEM, printk ''fortune: memory error'' (s\<lparr>cookiePot := None\<rparr>)) else
      let s = acquire VMem (s\<lparr>cookiePot := Some (replicate COOKIE_POT_SIZE NUL)\<rparr>) in
      if \<not> ok_mkdir e then
        (- ENOMEM, freeMemory (printk ''fortune: create dir err'' (s\<lparr>fortuneDir := False\<rparr>))) else
      let s = acquire (ProcEntry None DIRNAME) (s\<lparr>fortuneDir := True\<rparr>) in
      if \<not> ok_create e then
        (- ENOMEM, freeMemory (printk ''fortune: create file err'' (s\<lparr>fortuneFile := False\<rparr>))) else
      let s = acquire (ProcEntry (Some DIRNAME) FILENAME) (s\<lparr>fortuneFile := True\<rparr>) in
      if \<not> ok_symlink e then
        (- ENOMEM, freeMemory (printk ''fortune: create link err'' (s\<lparr>fortuneLink := False\<rparr>))) else
      let s = acquire (ProcEntry None SYMLINK) (s\<lparr>fortuneLink := True\<rparr>)
      in (0, printk ''fortune: loaded'' (s\<lparr>readInd := 0, writeInd := 0\<rparr>)))"

definition fortune_exit :: "fortune \<Rightarrow> fortune" where
  "fortune_exit s = freeMemory (printk ''fortune: exit'' s)"

section \<open>File operations\<close>

definition fortuneOpen :: "fortune \<Rightarrow> int \<times> fortune" where
  "fortuneOpen s = (0, printk ''fortune: open called'' s)"

definition fortuneRelease :: "fortune \<Rightarrow> int \<times> fortune" where
  "fortuneRelease s = (0, printk ''fortune: release called'' s)"

text \<open>
  The size check of \<^verbatim>\<open>fortuneWrite\<close>, in the unsigned 64-bit arithmetic it is done in.
\<close>

definition too_long :: "nat \<Rightarrow> int \<Rightarrow> bool" where
  "too_long len wi \<longleftrightarrow> (of_nat len :: 64 word) > of_nat COOKIE_POT_SIZE - word_of_int wi + 1"

text \<open>\<open>data\<close> is the user's buffer of \<^verbatim>\<open>len\<close> bytes, \<open>left\<close> the result of \<^verbatim>\<open>copy_from_user\<close>.\<close>

definition fortuneWrite :: "nat \<Rightarrow> char list \<Rightarrow> fortune \<Rightarrow> fault + int \<times> fortune" where
  "fortuneWrite left data s =
     (let s = printk ''fortune: write called'' s in
      if too_long (length data) (writeInd s)
      then Inr (- ENOSPC, printk ''fortune: buffer overflow'' s)
      else case cookiePot s of
        None \<Rightarrow> Inl NullDeref
      | Some pot \<Rightarrow>
        if \<not> (0 \<le> writeInd s \<and> writeInd s + int (length data) \<le> int (length pot))
        then Inl OutOfBounds
        else let s = s\<lparr>cookiePot := Some (blit pot (nat (writeInd s)) (user_bytes left data))\<rparr> in
        if left \<noteq> 0 then Inr (- EFAULT, printk ''fortune: copy_from_user error'' s)
        else let s = s\<lparr>writeInd := writeInd s + int (length data)\<rparr> in
        case cookiePot s of
          None \<Rightarrow> Inl NullDeref
        | Some pot \<Rightarrow>
          (case aput pot (writeInd s - 1) NUL of
             Inl f \<Rightarrow> Inl f
           | Inr pot \<Rightarrow> Inr (int (length data), s\<lparr>cookiePot := Some pot\<rparr>)))"

text \<open>
  \<^verbatim>\<open>snprintf(buf, sz, fmt, \<dots>)\<close> for a format that expands to \<open>str\<close>: it returns the length
  of \<open>str\<close> and stores as much of it as fits, NUL-terminated.
\<close>

definition snprintf :: "char list \<Rightarrow> nat \<Rightarrow> string \<Rightarrow> nat \<times> char list" where
  "snprintf buf sz str = (length str, blit buf 0 (take (sz - 1) str @ [NUL]))"

text \<open>
  \<open>fPos\<close> is the file position; the result holds the bytes copied to the user, the return value
  and the new position. The user's buffer size is not consulted.
\<close>

definition fortuneRead :: "nat \<Rightarrow> int \<Rightarrow> fortune \<Rightarrow> fault + char list \<times> int \<times> int \<times> fortune" where
  "fortuneRead left fPos s =
     (let s = printk ''fortune: read called'' s in
      if fPos > 0 \<or> writeInd s = 0 then Inr ([], 0, fPos, s) else
      let s = (if readInd s \<ge> writeInd s then s\<lparr>readInd := 0\<rparr> else s) in
      case cookiePot s of
        None \<Rightarrow> Inl NullDeref
      | Some pot \<Rightarrow>
        if \<not> in_bounds pot (readInd s) \<or> NUL \<notin> set (drop (nat (readInd s)) pot)
        then Inl OutOfBounds
        else case snprintf (tmpBuf s) COOKIE_POT_SIZE (cstr (drop (nat (readInd s)) pot) @ [CHR 0x0A]) of
          (readLen, buf) \<Rightarrow>
            let s = s\<lparr>tmpBuf := buf\<rparr> in
            if length buf < readLen then Inl OutOfBounds
            else if left \<noteq> 0
            then Inr (take (readLen - left) buf, - EFAULT, fPos, printk ''fortune: copy_to_user error'' s)
            else Inr (take readLen buf, int readLen, fPos + int readLen,
              s\<lparr>readInd := readInd s + int readLen\<rparr>))"


section \<open>Loading and unloading are balanced\<close>

lemmas fortune_defs = fortune_init_def fortune_exit_def freeMemory_def fortune_fresh_def Let_def
  has_child_def printk_def acquire_def release_def

definition fortune_handles :: "fortune \<Rightarrow> bool \<times> bool \<times> bool \<times> bool" where
  "fortune_handles s = (fortuneFile s, fortuneDir s, fortuneLink s, cookiePot s \<noteq> None)"

interpretation fortune_mod: balanced_module fortune_fresh fortune_init fortune_exit calls fortune_handles
proof (unfold_locales, goal_cases)
  case (1 env m m')
  then have ok: "ok_vmalloc env" "ok_mkdir env" "ok_create env" "ok_symlink env"
    by (auto simp: fortune_init_def Let_def ENOMEM_def split: if_splits)
  have m: "m = snd (fortune_init env fortune_fresh)" using 1(1) by simp
  have "calls m = [Acq VMem, Acq (ProcEntry None DIRNAME),
      Acq (ProcEntry (Some DIRNAME) FILENAME), Acq (ProcEntry None SYMLINK)]"
    by (simp add: m ok fortune_init_def fortune_fresh_def Let_def)
  moreover have "fortune_handles m = (True, True, True, True)"
    by (simp add: m ok fortune_init_def Let_def printk_def acquire_def fortune_handles_def)
  ultimately have "calls m' = [Acq VMem, Acq (ProcEntry None DIRNAME),
      Acq (ProcEntry (Some DIRNAME) FILENAME), Acq (ProcEntry None SYMLINK)]"
    "fortuneFile m'" "fortuneDir m'" "fortuneLink m'" "cookiePot m' \<noteq> None"
    using 1(2,3) by (auto simp: fortune_handles_def)
  then show ?case
    by (auto simp: fortune_exit_def freeMemory_def Let_def has_child_def printk_def release_def)
next
  case (2 env rc m)
  then show ?case
    by (cases "ok_vmalloc env"; cases "ok_mkdir env"; cases "ok_create env"; cases "ok_symlink env")
      (auto simp: fortune_defs ENOMEM_def)
qed

section \<open>The size check\<close>

lemma too_long_iff:
  assumes "0 \<le> wi" "wi \<le> 4096" "len < 2 ^ 64"
  shows "too_long len wi \<longleftrightarrow> 4097 - wi < int len"
proof -
  have "of_nat COOKIE_POT_SIZE - word_of_int wi + 1 = (word_of_int (4097 - wi) :: 64 word)"
    by (simp add: COOKIE_POT_SIZE_def PAGE_SIZE_def)
  moreover have "uint (word_of_int (4097 - wi) :: 64 word) = 4097 - wi"
    using assms by (subst uint_word_of_int) (simp add: take_bit_int_eq_self)
  moreover have "uint (of_nat len :: 64 word) = int len"
    using assms by (simp add: uint_word_of_int unsigned_of_nat take_bit_nat_eq_self)
  ultimately show ?thesis by (simp add: too_long_def word_less_def)
qed


section \<open>Cookies in the pot\<close>

definition encode :: "string list \<Rightarrow> char list" where
  "encode cs = concat (map (\<lambda>c. c @ [NUL]) cs)"

fun split_nul :: "char list \<Rightarrow> string list" where
  "split_nul [] = [[]]"
| "split_nul (b # bs) =
     (if b = NUL then [] # split_nul bs
      else case split_nul bs of [] \<Rightarrow> [[b]] | c # cs \<Rightarrow> (b # c) # cs)"

lemma encode_simps [simp]:
  "encode [] = []" "encode (c # cs) = c @ NUL # encode cs" "encode (cs @ ds) = encode cs @ encode ds"
  by (simp_all add: encode_def)

lemma split_nul_not_Nil [simp]: "split_nul bs \<noteq> []"
  by (induction bs) (auto split: list.splits)

lemma encode_split [simp]: "encode (split_nul bs) = bs @ [NUL]"
  by (induction bs) (auto split: list.splits)

lemma no_nul_split: "c \<in> set (split_nul bs) \<Longrightarrow> no_nul c"
  by (induction bs arbitrary: c) (auto simp: no_nul_def split: list.splits if_splits)

lemma split_nul_single: "no_nul c \<Longrightarrow> split_nul c = [c]"
  by (induction c) (auto simp: no_nul_def)

lemma encode_take_nth:
  "p < length cs \<Longrightarrow> encode cs = encode (take p cs) @ cs ! p @ NUL # encode (drop (Suc p) cs)"
  by (metis append_Cons append_assoc encode_simps(2,3) id_take_nth_drop)

lemma encode_take_Suc:
  "p < length cs \<Longrightarrow> length (encode (take (Suc p) cs)) = length (encode (take p cs)) + length (cs ! p) + 1"
  by (simp add: take_Suc_conv_app_nth)

lemma length_encode_take: "length (encode (take p cs)) \<le> length (encode cs)"
proof -
  have "encode cs = encode (take p cs) @ encode (drop p cs)"
    by (metis append_take_drop_id encode_simps(3))
  then show ?thesis by simp
qed

lemma encode_take_less: "p < length cs \<Longrightarrow> length (encode (take p cs)) < length (encode cs)"
  using encode_take_nth [of p cs] by (metis add_less_cancel_left length_append length_greater_0_conv
      append_is_Nil_conv list.distinct(1) less_add_same_cancel1)

section \<open>The abstract pot\<close>

text \<open>
  What the module promises: a list of cookies and a cursor. A write adds the cookies that the
  written bytes hold (the last byte is the terminator), a read returns the cookie under the
  cursor with a newline and moves on, starting over at the end.
\<close>

definition spec_write :: "char list \<Rightarrow> string list \<times> nat \<Rightarrow> string list \<times> nat" where
  "spec_write data = (\<lambda>(cs, p). (if data = [] then cs else cs @ split_nul (butlast data), p))"

definition reply :: "string \<Rightarrow> char list" where
  "reply c = (if length c + 1 < COOKIE_POT_SIZE then c @ [CHR 0x0A] else c @ [NUL])"

definition spec_read :: "string list \<times> nat \<Rightarrow> char list \<times> (string list \<times> nat)" where
  "spec_read = (\<lambda>(cs, p). if cs = [] then ([], (cs, p))
     else let p = (if length cs \<le> p then 0 else p) in (reply (cs ! p), (cs, Suc p)))"

definition pot_rel :: "string list \<times> nat \<Rightarrow> fortune \<Rightarrow> bool" where
  "pot_rel = (\<lambda>(cs, p) s. (\<exists>rest. cookiePot s = Some (encode cs @ rest) \<and>
       length (encode cs @ rest) = COOKIE_POT_SIZE) \<and>
     writeInd s = int (length (encode cs)) \<and> readInd s = int (length (encode (take p cs))) \<and>
     p \<le> length cs \<and> (\<forall>c\<in>set cs. no_nul c) \<and> length (tmpBuf s) = COOKIE_POT_SIZE)"

lemma pot_relE:
  assumes "pot_rel (cs, p) s"
  obtains rest where "cookiePot s = Some (encode cs @ rest)"
    "length (encode cs) + length rest = COOKIE_POT_SIZE" "writeInd s = int (length (encode cs))"
    "readInd s = int (length (encode (take p cs)))" "p \<le> length cs"
    "\<And>c. c \<in> set cs \<Longrightarrow> no_nul c" "length (tmpBuf s) = COOKIE_POT_SIZE"
  using assms by (auto simp: pot_rel_def)

lemma pot_rel_printk [simp]: "pot_rel a (printk m s) = pot_rel a s"
  by (cases a) (simp add: pot_rel_def printk_def)

lemma printk_fields [simp, mod_simps]:
  "readInd (printk m s) = readInd s" "writeInd (printk m s) = writeInd s"
  "cookiePot (printk m s) = cookiePot s" "tmpBuf (printk m s) = tmpBuf s"
  by (simp_all add: printk_def)

lemma pot_rel_init:
  assumes "ok_vmalloc e" "ok_mkdir e" "ok_create e" "ok_symlink e"
  shows "pot_rel ([], 0) (snd (fortune_init e fortune_fresh))"
  using assms by (simp add: fortune_init_def Let_def pot_rel_def)
    (simp add: printk_def acquire_def fortune_fresh_def)

section \<open>Writing\<close>

lemma blit_append: "length rest \<ge> length src \<Longrightarrow> blit (xs @ rest) (length xs) src = xs @ src @ drop (length src) rest"
  by (simp add: blit_def)

lemma fortuneWrite_ok:
  assumes r: "pot_rel (cs, p) s" and b: "length (encode cs) + length data \<le> COOKIE_POT_SIZE"
    and d: "data \<noteq> [] \<or> cs \<noteq> []"
  shows "\<exists>s'. fortuneWrite 0 data s = Inr (int (length data), s') \<and> pot_rel (spec_write data (cs, p)) s'"
proof -
  from r obtain rest where pot: "cookiePot s = Some (encode cs @ rest)"
    and len: "length (encode cs) + length rest = COOKIE_POT_SIZE"
    and wi: "writeInd s = int (length (encode cs))"
    and rel: "readInd s = int (length (encode (take p cs)))" "p \<le> length cs"
      "\<And>c. c \<in> set cs \<Longrightarrow> no_nul c" "length (tmpBuf s) = COOKIE_POT_SIZE"
    by (rule pot_relE) (rule that)
  have short: "\<not> too_long (length data) (writeInd s)"
    using b wi by (subst too_long_iff) (auto simp: COOKIE_POT_SIZE_def PAGE_SIZE_def)
  define w where "w = length (encode cs) + length data"
  define pot' where "pot' = encode cs @ data @ drop (length data) rest"
  have w0: "0 < w" using d by (cases cs) (auto simp: w_def)
  have lp: "length pot' = COOKIE_POT_SIZE" "w \<le> length pot'" using len b by (auto simp: pot'_def w_def)
  have new: "pot'[w - 1 := NUL] = encode (fst (spec_write data (cs, p))) @ drop (length data) rest"
  proof (cases "data = []")
    case True
    with d obtain ds c where cs: "cs = ds @ [c]" by (metis rev_exhaust)
    show ?thesis
      by (simp add: True cs pot'_def w_def spec_write_def list_update_append nth_append)
  next
    case False
    then obtain ds c where "data = ds @ [c]" by (metis rev_exhaust)
    then show ?thesis by (simp add: pot'_def w_def spec_write_def list_update_append)
  qed
  have "in_bounds pot' (int w - 1)" using w0 lp by (simp add: in_bounds_def)
  moreover have "nat (int w - 1) = w - 1" by simp
  ultimately have "fortuneWrite 0 data s = Inr (int (length data), printk ''fortune: write called''
      s\<lparr>writeInd := int w, cookiePot := Some (pot'[w - 1 := NUL])\<rparr>)"
    using short pot len b wi
    by (simp add: fortuneWrite_def Let_def printk_def blit_append aput_def w_def pot'_def)
  moreover have "pot_rel (spec_write data (cs, p)) (printk ''fortune: write called''
      s\<lparr>writeInd := int w, cookiePot := Some (pot'[w - 1 := NUL])\<rparr>)"
    using rel new b len
    by (cases "data = []") (auto simp: pot_rel_def spec_write_def no_nul_split w_def printk_def
        intro!: exI [of _ "drop (length data) rest"])
  ultimately show ?thesis by blast
qed


text \<open>One byte too much passes the size check, and so does nothing at all into an empty pot.\<close>

lemma fortuneWrite_rejects:
  assumes "pot_rel (cs, p) s" "length (encode cs) + length data > COOKIE_POT_SIZE + 1" "length data < 2 ^ 64"
  shows "fortuneWrite left data s =
    Inr (- ENOSPC, printk ''fortune: buffer overflow'' (printk ''fortune: write called'' s))"
proof -
  have "length (encode cs) \<le> COOKIE_POT_SIZE" "writeInd s = int (length (encode cs))"
    using assms(1) by (auto simp: pot_rel_def)
  then have "too_long (length data) (writeInd s)"
    using assms(2,3) by (subst too_long_iff) (auto simp: COOKIE_POT_SIZE_def PAGE_SIZE_def)
  then show ?thesis by (simp add: fortuneWrite_def Let_def printk_def)
qed

lemma fortuneWrite_faults:
  assumes r: "pot_rel (cs, p) s"
    and f: "length (encode cs) + length data = COOKIE_POT_SIZE + 1 \<or> data = [] \<and> cs = []"
  shows "fortuneWrite 0 data s = Inl OutOfBounds"
proof -
  from r obtain rest where pot: "cookiePot s = Some (encode cs @ rest)"
    and len: "length (encode cs) + length rest = COOKIE_POT_SIZE"
    and wi: "writeInd s = int (length (encode cs))" by (auto simp: pot_rel_def)
  have "\<not> too_long (length data) (writeInd s)"
    using f wi len by (subst too_long_iff) (auto simp: COOKIE_POT_SIZE_def PAGE_SIZE_def)
  with f pot len wi show ?thesis
    by (auto simp: fortuneWrite_def Let_def printk_def aput_def in_bounds_def blit_def)
qed

section \<open>Reading\<close>

lemma fortuneRead_ok:
  assumes r: "pot_rel (cs, p) s"
  shows "\<exists>s'. fortuneRead 0 0 s = Inr (fst (spec_read (cs, p)), int (length (fst (spec_read (cs, p)))),
      int (length (fst (spec_read (cs, p)))), s') \<and> pot_rel (snd (spec_read (cs, p))) s'"
proof -
  from r obtain rest where pot: "cookiePot s = Some (encode cs @ rest)"
    and len: "length (encode cs) + length rest = COOKIE_POT_SIZE"
    and wi: "writeInd s = int (length (encode cs))"
    and rd: "readInd s = int (length (encode (take p cs)))" and p: "p \<le> length cs"
    and nn: "\<And>c. c \<in> set cs \<Longrightarrow> no_nul c" and tb: "length (tmpBuf s) = COOKIE_POT_SIZE"
    by (rule pot_relE) (rule that)
  show ?thesis
  proof (cases "cs = []")
    case True
    with r wi show ?thesis by (auto simp: fortuneRead_def spec_read_def Let_def printk_def pot_rel_def)
  next
    case False
    define q where "q = (if length cs \<le> p then 0 else p)"
    have q: "q < length cs" using False by (auto simp: q_def)
    define c where "c = cs ! q"
    have c: "no_nul c" using q nn by (simp add: c_def)
    define s1 where "s1 = printk ''fortune: read called'' s\<lparr>readInd := int (length (encode (take q cs)))\<rparr>"
    have s1: "(if readInd s \<ge> writeInd s then (printk ''fortune: read called'' s)\<lparr>readInd := 0\<rparr>
        else printk ''fortune: read called'' s) = s1"
      using rd wi p encode_take_less [of p cs] by (auto simp: s1_def q_def printk_def)
    have s1_fields: "readInd s1 = int (length (encode (take q cs)))" "writeInd s1 = writeInd s"
      "cookiePot s1 = cookiePot s" "tmpBuf s1 = tmpBuf s"
      by (simp_all add: s1_def)
    have w0: "writeInd s \<noteq> 0" using wi False by (cases cs) auto
    define tail where "tail = encode (drop (Suc q) cs) @ rest"
    have split: "encode cs @ rest = encode (take q cs) @ c @ NUL # tail"
      using encode_take_nth [OF q] by (simp add: c_def tail_def)
    have fit: "length (encode (take q cs)) + length c + 1 + length tail = COOKIE_POT_SIZE"
      using len arg_cong [OF split, of length] by simp
    define buf where "buf = blit (tmpBuf s) 0 (take (COOKIE_POT_SIZE - 1) (c @ [CHR 0x0A]) @ [NUL])"
    have sn: "snprintf (tmpBuf s) COOKIE_POT_SIZE (c @ [CHR 0x0A]) = (length c + 1, buf)"
      by (simp add: snprintf_def buf_def)
    have lb: "length buf = COOKIE_POT_SIZE" unfolding buf_def using tb fit by (intro trans [OF length_blit]) auto
    have tk: "take (Suc (length c)) buf = reply c"
      using fit by (auto simp: buf_def blit_def reply_def)
    have str: "cstr (drop (length (encode (take q cs))) (encode cs @ rest)) = c"
      "NUL \<in> set (drop (length (encode (take q cs))) (encode cs @ rest))"
      by (simp_all add: split c cstr_terminated)
    have ib: "length (encode (take q cs)) < length (encode cs @ rest)" by (simp add: split)
    have "fortuneRead 0 0 s = Inr (reply c, int (length c + 1), int (length c + 1),
        s1\<lparr>tmpBuf := buf, readInd := int (length (encode (take q cs))) + (1 + int (length c))\<rparr>)"
      using w0 ib str fit lb tk
      by (simp add: fortuneRead_def Let_def s1 sn s1_fields pot)
    moreover have "spec_read (cs, p) = (reply c, (cs, Suc q))"
      using False by (simp add: spec_read_def Let_def q_def c_def)
    moreover have "pot_rel (cs, Suc q)
        (s1\<lparr>tmpBuf := buf, readInd := int (length (encode (take q cs))) + (1 + int (length c))\<rparr>)"
      using q nn wi len lb by (simp add: pot_rel_def s1_fields pot encode_take_Suc c_def)
    ultimately show ?thesis by (simp add: reply_def)
  qed
qed


text \<open>A sequence of reads, each on a newly opened file.\<close>

fun reads :: "nat \<Rightarrow> fortune \<Rightarrow> fault + char list list" where
  "reads 0 s = Inr []"
| "reads (Suc k) s =
     (case fortuneRead 0 0 (snd (fortuneOpen s)) of
        Inl f \<Rightarrow> Inl f
      | Inr (out, _, _, s) \<Rightarrow>
        (case reads k (snd (fortuneRelease s)) of Inl f \<Rightarrow> Inl f | Inr outs \<Rightarrow> Inr (out # outs)))"

text \<open>The cookies written one after the other, each by one \<^verbatim>\<open>write\<close>.\<close>

fun writes :: "char list list \<Rightarrow> fortune \<Rightarrow> fault + fortune" where
  "writes [] s = Inr s"
| "writes (d # ds) s =
     (case fortuneWrite 0 d (snd (fortuneOpen s)) of
        Inl f \<Rightarrow> Inl f | Inr (_, s) \<Rightarrow> writes ds (snd (fortuneRelease s)))"

lemma open_release [simp]:
  "pot_rel a (snd (fortuneOpen s)) = pot_rel a s" "pot_rel a (snd (fortuneRelease s)) = pot_rel a s"
  by (simp_all add: fortuneOpen_def fortuneRelease_def)

lemma reads_cycle:
  assumes "pot_rel (cs, p) s" "cs \<noteq> []"
  shows "reads k s = Inr (map (\<lambda>i. reply (cs ! ((p + i) mod length cs))) [0..<k])"
  using assms(1)
proof (induction k arbitrary: p s)
  case 0
  then show ?case by simp
next
  case (Suc k)
  define q where "q = (if length cs \<le> p then 0 else p)"
  have p: "p \<le> length cs" using Suc.prems by (simp add: pot_rel_def)
  have q: "spec_read (cs, p) = (reply (cs ! q), (cs, Suc q))"
    using assms(2) by (simp add: spec_read_def q_def)
  have md: "q = p mod length cs" using p assms(2) by (auto simp: q_def le_antisym)
  obtain s' where s': "fortuneRead 0 0 (snd (fortuneOpen s)) = Inr (reply (cs ! q), int (length (reply (cs ! q))),
      int (length (reply (cs ! q))), s')" and r: "pot_rel (cs, Suc q) s'"
    using fortuneRead_ok [of cs p "snd (fortuneOpen s)"] Suc.prems q by auto
  have "reads k (snd (fortuneRelease s')) = Inr (map (\<lambda>i. reply (cs ! ((Suc q + i) mod length cs))) [0..<k])"
    using r by (intro Suc.IH) simp
  moreover have "(Suc q + i) mod length cs = (p + Suc i) mod length cs" for i
    unfolding md by (metis add_Suc_right add_Suc_shift mod_add_left_eq)
  ultimately show ?case
    using s' md by (simp add: upt_conv_Cons comp_def del: upt_Suc flip: map_Suc_upt)
qed

lemma writes_ok:
  assumes "pot_rel (cs, p) s" "\<And>d. d \<in> set ds \<Longrightarrow> d \<noteq> []"
    "length (encode cs) + length (concat ds) \<le> COOKIE_POT_SIZE"
  shows "\<exists>s'. writes ds s = Inr s' \<and> pot_rel (cs @ concat (map (\<lambda>d. split_nul (butlast d)) ds), p) s'"
  using assms
proof (induction ds arbitrary: cs s)
  case Nil
  then show ?case by simp
next
  case (Cons d ds)
  then obtain s' where s': "fortuneWrite 0 d (snd (fortuneOpen s)) = Inr (int (length d), s')"
    and r: "pot_rel (cs @ split_nul (butlast d), p) s'"
    using fortuneWrite_ok [of cs p "snd (fortuneOpen s)" d] by (auto simp: spec_write_def)
  have "\<exists>s''. writes ds (snd (fortuneRelease s')) = Inr s'' \<and>
      pot_rel ((cs @ split_nul (butlast d)) @ concat (map (\<lambda>d. split_nul (butlast d)) ds), p) s''"
    using Cons.prems r by (intro Cons.IH) (auto simp: Suc_le_eq)
  with s' show ?case by simp
qed


section \<open>Use between loading and unloading\<close>

datatype fortune_op = FOpen | FRelease | FWrite nat "char list" | FRead nat int

text \<open>An operation that would fault is left out.\<close>

fun fortune_do :: "fortune_op \<Rightarrow> fortune \<Rightarrow> fortune" where
  "fortune_do FOpen s = snd (fortuneOpen s)"
| "fortune_do FRelease s = snd (fortuneRelease s)"
| "fortune_do (FWrite left data) s = (case fortuneWrite left data s of Inl _ \<Rightarrow> s | Inr (_, s') \<Rightarrow> s')"
| "fortune_do (FRead left fPos) s = (case fortuneRead left fPos s of Inl _ \<Rightarrow> s | Inr (_, _, _, s') \<Rightarrow> s')"

lemma fortune_do_keeps:
  "fortune_handles (fortune_do op s) = fortune_handles s \<and> calls (fortune_do op s) = calls s"
  by (cases op) (auto simp: fortune_handles_def fortuneOpen_def fortuneRelease_def fortuneWrite_def
      fortuneRead_def printk_def Let_def split: option.splits sum.splits prod.splits if_splits)

lemma fortune_ops_keep:
  "fortune_handles (fold fortune_do ops s) = fortune_handles s \<and> calls (fold fortune_do ops s) = calls s"
  by (induction ops arbitrary: s) (auto simp: fortune_do_keeps)

section \<open>Properties\<close>

text \<open>
  C2: What the pot is for: after a successful load, cookies written one by one (each with the
  newline that \<^verbatim>\<open>echo\<close> adds, all together no more than a page) are all accepted, and the reads
  that follow return them in order, one per read with a newline, starting over after the last.
  Only a cookie that fills the page alone loses its newline.
\<close>

theorem fortune_cookies:
  assumes "ok_vmalloc e" "ok_mkdir e" "ok_create e" "ok_symlink e"
    and "cs \<noteq> []" "list_all no_nul cs"
    and "length (concat (map (\<lambda>c. c @ [CHR 0x0A]) cs)) \<le> COOKIE_POT_SIZE"
  shows "\<exists>s. writes (map (\<lambda>c. c @ [CHR 0x0A]) cs) (snd (fortune_init e fortune_fresh)) = Inr s \<and>
    reads k s = Inr (map (\<lambda>i. reply (cs ! (i mod length cs))) [0..<k])"
proof -
  let ?ds = "map (\<lambda>c. c @ [CHR 0x0A]) cs"
  have "concat (map (\<lambda>d. split_nul (butlast d)) ?ds) = concat (map (\<lambda>c. [c]) cs)"
    using assms(6) by (intro arg_cong [of _ _ concat]) (auto simp: split_nul_single list_all_iff)
  moreover have "concat (map (\<lambda>c. [c]) cs) = cs" by (induction cs) auto
  ultimately obtain s where "writes ?ds (snd (fortune_init e fortune_fresh)) = Inr s" "pot_rel (cs, 0) s"
    using writes_ok [OF pot_rel_init [OF assms(1-4)], of ?ds] assms(7) by auto
  with reads_cycle [of cs 0 s k] assms(5) show ?thesis by auto
qed

theorem fortune_cookies_witness:
  "\<exists>s. writes [''ab'' @ [CHR 0x0A], ''c'' @ [CHR 0x0A]] (snd (fortune_init
      \<lparr>ok_vmalloc = True, ok_mkdir = True, ok_create = True, ok_symlink = True\<rparr> fortune_fresh)) = Inr s \<and>
    reads 3 s = Inr [''ab'' @ [CHR 0x0A], ''c'' @ [CHR 0x0A], ''ab'' @ [CHR 0x0A]]"
  using fortune_cookies [of "\<lparr>ok_vmalloc = True, ok_mkdir = True, ok_create = True, ok_symlink = True\<rparr>"
      "[''ab'', ''c'']" 3]
  by (simp add: no_nul_def reply_def COOKIE_POT_SIZE_def PAGE_SIZE_def upt_rec numeral_eq_Suc) 

text \<open>
  C14: A write in every case. It returns what the abstract pot says when the bytes fit; it
  refuses with \<^verbatim>\<open>ENOSPC\<close> when they exceed the free space by more than one byte; and it stores
  outside the pot exactly when they exceed it by one byte, which the size check lets pass, or
  when nothing is written into an empty pot.
\<close>

theorem fortune_write_cases:
  assumes "pot_rel (cs, p) s" "length data < 2 ^ 64"
  shows "if length (encode cs) + length data > COOKIE_POT_SIZE + 1
      then \<exists>s'. fortuneWrite 0 data s = Inr (- ENOSPC, s') \<and> pot_rel (cs, p) s'
    else if length (encode cs) + length data = COOKIE_POT_SIZE + 1 \<or> data = [] \<and> cs = []
      then fortuneWrite 0 data s = Inl OutOfBounds
    else \<exists>s'. fortuneWrite 0 data s = Inr (int (length data), s') \<and> pot_rel (spec_write data (cs, p)) s'"
  using fortuneWrite_rejects [OF assms(1), of data 0] fortuneWrite_faults [OF assms(1), of data]
    fortuneWrite_ok [OF assms(1), of data] assms by auto

theorem fortune_write_cases_witness:
  "fortuneWrite 0 (replicate 4097 CHR ''x'') (snd (fortune_init
      \<lparr>ok_vmalloc = True, ok_mkdir = True, ok_create = True, ok_symlink = True\<rparr> fortune_fresh)) = Inl OutOfBounds"
  using fortune_write_cases [OF pot_rel_init, of _ "replicate 4097 CHR ''x''"]
  by (simp add: COOKIE_POT_SIZE_def PAGE_SIZE_def)

text \<open>
  Whatever the module is used for, and whichever of its calls fail while it is loaded, the
  module has given back its memory and its entries of /proc when it is gone, and gives back
  nothing it does not hold, the directory only after the file in it.
\<close>

theorem fortune_balanced:
  "outstanding (life fortune_fresh fortune_init fortune_exit calls e (fold fortune_do ops)) [] = Some []"
  by (rule fortune_mod.life_balanced) (simp_all add: fortune_ops_keep)

end
