(* ===== verification/Tasks.thy ===== *)
theory Tasks
  imports Kernel_Calls
begin

text \<open>
  Task descriptors as the modules print them, and the module \<^verbatim>\<open>4/proc_info/md.c\<close>, which logs
  one line for every task when it is loaded. The task list is the kernel's: the descriptors
  and \<^verbatim>\<open>next_task\<close> are arguments of the model.
\<close>

section \<open>Descriptors\<close>

type_synonym addr = "64 word"

record fs_struct =
  root_name :: string             \<comment> \<open>\<^verbatim>\<open>root.dentry->d_iname\<close>\<close>
  pwd_name :: string              \<comment> \<open>\<^verbatim>\<open>pwd.dentry->d_name.name\<close>\<close>

record task_struct =
  comm :: string
  pid :: int
  parent :: addr
  state :: "32 word"              \<comment> \<open>\<^verbatim>\<open>__state\<close>\<close>
  on_cpu :: int
  flags :: "32 word"
  prio :: int
  policy :: "32 word"
  exit_state :: int
  exit_code :: int
  in_execve :: bool
  utime :: "64 word"
  fs :: "fs_struct option"        \<comment> \<open>\<^verbatim>\<open>NULL\<close> for a task that has left its file system\<close>

type_synonym tasks = "addr \<Rightarrow> task_struct"

section \<open>Conversions\<close>

text \<open>\<^verbatim>\<open>%x\<close>, \<^verbatim>\<open>%llu\<close>, and \<^verbatim>\<open>%d\<close> of an unsigned value\<close>

fun hex_digits :: "nat \<Rightarrow> string" where
  "hex_digits n = (if n < 16 then [''0123456789abcdef'' ! n]
     else hex_digits (n div 16) @ [''0123456789abcdef'' ! (n mod 16)])"

declare hex_digits.simps [simp del]

definition fmt_x :: "'a::len word \<Rightarrow> string" where
  "fmt_x w = hex_digits (unat w)"

definition fmt_llu :: "64 word \<Rightarrow> string" where
  "fmt_llu w = digits (unat w)"

definition fmt_wd :: "32 word \<Rightarrow> string" where
  "fmt_wd w = fmt_d (sint w)"

section \<open>The fields the /proc files print\<close>

definition task_fields :: "tasks \<Rightarrow> task_struct \<Rightarrow> string list" where
  "task_fields tasks t =
     [''comm - '' @ comm t,
      ''pid - '' @ fmt_d (pid t),
      ''parent comm - '' @ comm (tasks (parent t)),
      ''ppid - '' @ fmt_d (pid (tasks (parent t))),
      ''state - '' @ fmt_wd (state t),
      ''on_cpu - '' @ fmt_d (on_cpu t),
      ''flags - '' @ fmt_x (flags t),
      ''prio - '' @ fmt_d (prio t),
      ''policy - '' @ fmt_wd (policy t),
      ''exit_state - '' @ fmt_d (exit_state t),
      ''exit_code - '' @ fmt_d (exit_code t),
      ''in_execve - '' @ (if in_execve t then ''1'' else ''0''),
      ''utime - '' @ fmt_llu (utime t)]"

fun join :: "string \<Rightarrow> string list \<Rightarrow> string" where
  "join sep [] = []"
| "join sep [x] = x"
| "join sep (x # y # zs) = x @ sep @ join sep (y # zs)"

section \<open>The module that lists the tasks\<close>

definition info_line :: "string \<Rightarrow> tasks \<Rightarrow> addr \<Rightarrow> fault + string" where
  "info_line head tasks a =
     (let t = tasks a in
      case fs t of
        None \<Rightarrow> Inl NullDeref
      | Some f \<Rightarrow> Inr (head @ join '', ''
          [''taskp - '' @ fmt_llu a,
           ''task - '' @ comm t,
           ''pid - '' @ fmt_d (pid t),
           ''parent - '' @ comm (tasks (parent t)),
           ''ppid - '' @ fmt_d (pid (tasks (parent t))),
           ''state - '' @ fmt_wd (state t),
           ''flags - '' @ fmt_x (flags t),
           ''prio - '' @ fmt_d (prio t),
           ''root - '' @ root_name f,
           ''policy - '' @ fmt_wd (policy t),
           ''pwd - '' @ pwd_name f]))"

text \<open>The \<^verbatim>\<open>do \<dots> while\<close> loop; \<open>None\<close> if it never comes back to \<^verbatim>\<open>init_task\<close>.\<close>

partial_function (option) info_loop ::
  "tasks \<Rightarrow> (addr \<Rightarrow> addr) \<Rightarrow> addr \<Rightarrow> addr \<Rightarrow> kmod \<Rightarrow> (fault + kmod) option" where
  "info_loop tasks next_task init_task t s =
     (case info_line ''+ TASK: '' tasks t of
        Inl f \<Rightarrow> Some (Inl f)
      | Inr line \<Rightarrow>
        if next_task t = init_task then Some (Inr (printk line s))
        else info_loop tasks next_task init_task (next_task t) (printk line s))"

declare info_loop.simps [code]

definition info_init ::
  "tasks \<Rightarrow> (addr \<Rightarrow> addr) \<Rightarrow> addr \<Rightarrow> addr \<Rightarrow> kmod \<Rightarrow> (fault + int \<times> kmod) option" where
  "info_init tasks next_task init_task current s =
     (case info_loop tasks next_task init_task init_task s of
        None \<Rightarrow> None
      | Some (Inl f) \<Rightarrow> Some (Inl f)
      | Some (Inr s) \<Rightarrow>
        (case info_line ''+ CURRENT: '' tasks current of
           Inl f \<Rightarrow> Some (Inl f)
         | Inr line \<Rightarrow> Some (Inr (0, printk line s))))"

definition info_exit :: "kmod \<Rightarrow> kmod" where
  "info_exit s = printk ''+ TASK_INFO: Good by!'' s"

section \<open>The task list as a ring\<close>

text \<open>The documented shape of the task list: a circular list in which every task occurs once.\<close>

definition ring :: "(addr \<Rightarrow> addr) \<Rightarrow> addr \<Rightarrow> addr list \<Rightarrow> bool" where
  "ring next_task init_task ts \<longleftrightarrow> ts \<noteq> [] \<and> hd ts = init_task \<and> distinct ts \<and>
     map next_task ts = tl ts @ [hd ts]"

definition line_of :: "string \<Rightarrow> tasks \<Rightarrow> addr \<Rightarrow> string" where
  "line_of head tasks a = (case info_line head tasks a of Inl _ \<Rightarrow> [] | Inr l \<Rightarrow> l)"

lemma info_line_fs: "info_line head tasks a = (if fs (tasks a) = None then Inl NullDeref else Inr (line_of head tasks a))"
  by (auto simp: info_line_def line_of_def Let_def split: option.splits)

lemma info_loop_suffix:
  assumes "map next_task (t # vs) = vs @ [init_task]" "init_task \<notin> set vs"
  shows "info_loop tasks next_task init_task t s =
    (if list_all (\<lambda>a. fs (tasks a) \<noteq> None) (t # vs)
     then Some (Inr (s\<lparr>klog := klog s @ map (line_of ''+ TASK: '' tasks) (t # vs)\<rparr>))
     else Some (Inl NullDeref))"
  using assms
proof (induction vs arbitrary: t s)
  case Nil
  then show ?case by (subst info_loop.simps) (simp add: info_line_fs printk_def)
next
  case (Cons v vs)
  then have "next_task t = v" "v \<noteq> init_task" by auto
  with Cons.IH [of v "printk (line_of ''+ TASK: '' tasks t) s"] Cons.prems show ?case
    by (subst info_loop.simps) (auto simp: info_line_fs printk_def)
qed

section \<open>Properties\<close>

text \<open>
  C32: On a circular task list the loop over the tasks ends, and loading the module logs exactly
  one line per task, in list order from \<^verbatim>\<open>init_task\<close>, then the line of the current task; but a
  single task without a file system (one that is exiting) makes it dereference a null pointer.
\<close>

theorem proc_info_lists_tasks:
  assumes "ring next_task init_task ts"
  shows "info_init tasks next_task init_task current s =
    (if list_all (\<lambda>a. fs (tasks a) \<noteq> None) (current # ts)
     then Some (Inr (0, s\<lparr>klog := klog s @ map (line_of ''+ TASK: '' tasks) ts @
       [line_of ''+ CURRENT: '' tasks current]\<rparr>))
     else Some (Inl NullDeref))"
proof -
  obtain vs where "ts = init_task # vs" "init_task \<notin> set vs" "map next_task ts = vs @ [init_task]"
    using assms by (cases ts) (auto simp: ring_def)
  then show ?thesis
    using info_loop_suffix [of next_task init_task vs init_task tasks s]
    by (auto simp: info_init_def info_line_fs printk_def)
qed

definition sample_task :: task_struct where
  "sample_task = \<lparr>comm = ''swapper'', pid = 0, parent = 1, state = 0, on_cpu = 1, flags = 31, prio = 120,
     policy = 0, exit_state = 0, exit_code = 0, in_execve = False, utime = 5,
     fs = Some \<lparr>root_name = ''/'', pwd_name = ''/''\<rparr>\<rparr>"

theorem proc_info_lists_tasks_witness:
  "\<exists>l1 l2 l3. info_init (\<lambda>_. sample_task) (\<lambda>a. if a = 1 then 2 else 1) 1 2 \<lparr>klog = [], calls = []\<rparr> =
    Some (Inr (0, \<lparr>klog = [l1, l2, l3], calls = []\<rparr>)) \<and>
    l2 = ''+ TASK: taskp - 2, task - swapper, pid - 0, parent - swapper, ppid - 0, state - 0, flags - 1f, prio - 120, root - /, policy - 0, pwd - /''"
proof -
  have "line_of ''+ TASK: '' (\<lambda>_. sample_task) 2 =
    ''+ TASK: taskp - 2, task - swapper, pid - 0, parent - swapper, ppid - 0, state - 0, flags - 1f, prio - 120, root - /, policy - 0, pwd - /''"
    by code_simp
  moreover have "ring (\<lambda>a. if a = 1 then 2 else 1) 1 [1, 2 :: addr]" by code_simp
  ultimately show ?thesis
    using proc_info_lists_tasks [of "\<lambda>a. if a = 1 then 2 else 1" 1 "[1, 2]" "\<lambda>_. sample_task" 2 "\<lparr>klog = [], calls = []\<rparr>"]
    by (simp add: sample_task_def)
qed

end
