(* ===== verification/Seq_File.thy ===== *)
theory Seq_File
  imports Tasks
begin

text \<open>
  The sequence-file module \<^verbatim>\<open>6/seq_files/seq_file.c\<close>: its iterator over positions and its
  loading and unloading. The iterator's position lives in memory obtained by \<^verbatim>\<open>kmalloc\<close>, which
  is modelled by an explicit store.
\<close>

section \<open>State\<close>

record seqmod = kmod +
  seq_dir :: bool
  seq_file :: bool
  seq_symlink :: bool
  heap :: "int option list"       \<comment> \<open>cells obtained by \<^verbatim>\<open>kmalloc\<close>; \<open>None\<close> once freed\<close>

definition seqmod_fresh :: seqmod where
  "seqmod_fresh = \<lparr>klog = [], calls = [], seq_dir = False, seq_file = False, seq_symlink = False, heap = []\<rparr>"

definition limit :: int where "limit = 1"

section \<open>The iterator\<close>

text \<open>
  An iterator value is a pointer (\<open>None\<close> for \<^verbatim>\<open>NULL\<close>); log messages leave out the pointer values.
  \<open>ok\<close> tells whether \<^verbatim>\<open>kmalloc\<close> succeeds.
\<close>

definition ct_seq_start :: "bool \<Rightarrow> int \<Rightarrow> seqmod \<Rightarrow> nat option \<times> seqmod" where
  "ct_seq_start ok pos s =
     (let s = printk (''seq: call seq_start, *pos = '' @ fmt_d pos) s in
      if pos \<ge> limit then (None, printk ''Apparently, we're done.'' s)
      else if \<not> ok then (None, s)
      else (Some (length (heap s)), s\<lparr>heap := heap s @ [Some pos]\<rparr>))"

definition load :: "nat option \<Rightarrow> seqmod \<Rightarrow> fault + int" where
  "load v s = (case v of None \<Rightarrow> Inl NullDeref
     | Some a \<Rightarrow> if a < length (heap s) \<and> heap s ! a \<noteq> None then Inr (the (heap s ! a)) else Inl OutOfBounds)"

definition ct_seq_show ::
  "tasks \<Rightarrow> task_struct \<Rightarrow> nat option \<Rightarrow> seqmod \<Rightarrow> fault + string \<times> seqmod" where
  "ct_seq_show tasks current v s =
     (let s = printk ''seq: call seq_show'' s;
          s = printk (''cseq: current: '' @ join ''; '' (task_fields tasks current)) s
      in case load v s of
        Inl f \<Rightarrow> Inl f
      | Inr spos \<Rightarrow> Inr (fmt_d spos @ '' '' @ newline @ ''current:'' @ newline @
          concat (map (\<lambda>f. f @ newline) (task_fields tasks current)), s))"

text \<open>The result holds the iterator and the new \<^verbatim>\<open>*pos\<close>.\<close>

definition ct_seq_next :: "nat option \<Rightarrow> int \<Rightarrow> seqmod \<Rightarrow> fault + nat option \<times> int \<times> seqmod" where
  "ct_seq_next v pos s =
     (let s = printk (''seq: call seq_next, *pos = '' @ fmt_d pos) s in
      case load v s of
        Inl f \<Rightarrow> Inl f
      | Inr x \<Rightarrow>
        let s = s\<lparr>heap := (heap s)[the v := Some (x + 1)]\<rparr>; pos = x + 1
        in if pos \<ge> limit then Inr (None, pos, s) else Inr (v, pos, s))"

text \<open>\<^verbatim>\<open>kfree\<close> of a null pointer does nothing.\<close>

definition ct_seq_stop :: "nat option \<Rightarrow> seqmod \<Rightarrow> seqmod" where
  "ct_seq_stop v s =
     (let s = printk ''seq: call seq_stop'' s
      in case v of None \<Rightarrow> s | Some a \<Rightarrow> s\<lparr>heap := (heap s)[a := None]\<rparr>)"

section \<open>File operations\<close>

text \<open>
  Each logs its call and hands over to the \<^verbatim>\<open>seq_file\<close> function of the kernel of the same name,
  an argument here.
\<close>

definition ct_seq_open :: "(seqmod \<Rightarrow> 'r \<times> seqmod) \<Rightarrow> seqmod \<Rightarrow> 'r \<times> seqmod" where
  "ct_seq_open seq_open s = seq_open (printk ''seq: call seq_open'' s)"

definition ct_seq_read :: "(seqmod \<Rightarrow> 'r \<times> seqmod) \<Rightarrow> seqmod \<Rightarrow> 'r \<times> seqmod" where
  "ct_seq_read seq_read s = seq_read (printk ''seq: call seq_read'' s)"

definition ct_seq_release :: "(seqmod \<Rightarrow> 'r \<times> seqmod) \<Rightarrow> seqmod \<Rightarrow> 'r \<times> seqmod" where
  "ct_seq_release seq_release s = seq_release (printk ''seq: call seq_release'' s)"

definition ct_seq_lseek :: "(seqmod \<Rightarrow> 'r \<times> seqmod) \<Rightarrow> seqmod \<Rightarrow> 'r \<times> seqmod" where
  "ct_seq_lseek seq_lseek s = seq_lseek (printk ''seq: call seq_lseek'' s)"

section \<open>Loading and unloading\<close>

definition seq_free_all :: "seqmod \<Rightarrow> seqmod" where
  "seq_free_all s =
     (let s = (if seq_symlink s then release (ProcEntry None ''seq_symlink'') s else s);
          s = (if seq_file s then release (ProcEntry (Some ''seq_dir'') ''seq_file'') s else s)
      in if seq_dir s then release (ProcEntry None ''seq_dir'') s else s)"

record seq_env =
  ok_mkdir :: bool
  ok_create :: bool
  ok_symlink :: bool

definition seq_init :: "seq_env \<Rightarrow> seqmod \<Rightarrow> int \<times> seqmod" where
  "seq_init e s =
     (let s = printk ''seq: call ct_init'' s in
      if \<not> ok_mkdir e then
        (- ENOMEM, printk ''seq: [ERROR] [can't create fortune dir]'' (seq_free_all (s\<lparr>seq_dir := False\<rparr>))) else
      let s = acquire (ProcEntry None ''seq_dir'') (s\<lparr>seq_dir := True\<rparr>) in
      if \<not> ok_create e then
        (- ENOMEM, printk ''seq: [ERROR] [can't create fortune file]'' (seq_free_all (s\<lparr>seq_file := False\<rparr>))) else
      let s = acquire (ProcEntry (Some ''seq_dir'') ''seq_file'') (s\<lparr>seq_file := True\<rparr>) in
      if \<not> ok_symlink e then
        (- ENOMEM, printk ''seq: [ERROR] [can't create fortune symlink]'' (seq_free_all (s\<lparr>seq_symlink := False\<rparr>))) else
      let s = acquire (ProcEntry None ''seq_symlink'') (s\<lparr>seq_symlink := True\<rparr>)
      in (0, printk ''seq: loaded'' s))"

definition seq_exit :: "seqmod \<Rightarrow> seqmod" where
  "seq_exit s = printk ''seq: call md_exit'' (seq_free_all s)"

section \<open>Entries of /proc are balanced\<close>

definition seq_handles :: "seqmod \<Rightarrow> bool \<times> bool \<times> bool" where
  "seq_handles s = (seq_dir s, seq_file s, seq_symlink s)"

lemma seq_init_0:
  assumes "seq_init e seqmod_fresh = (0, m)"
  shows "calls m = [Acq (ProcEntry None ''seq_dir''), Acq (ProcEntry (Some ''seq_dir'') ''seq_file''),
      Acq (ProcEntry None ''seq_symlink'')]" "seq_handles m = (True, True, True)"
proof -
  have ok: "ok_mkdir e" "ok_create e" "ok_symlink e"
    using assms by (auto simp: seq_init_def Let_def ENOMEM_def split: if_splits)
  have m: "m = snd (seq_init e seqmod_fresh)" using assms by simp
  show "calls m = [Acq (ProcEntry None ''seq_dir''), Acq (ProcEntry (Some ''seq_dir'') ''seq_file''),
      Acq (ProcEntry None ''seq_symlink'')]" "seq_handles m = (True, True, True)"
    by (simp_all add: m ok seq_init_def seqmod_fresh_def Let_def printk_def acquire_def seq_handles_def)
qed

interpretation seq_mod: balanced_module seqmod_fresh seq_init seq_exit calls seq_handles
proof (unfold_locales, goal_cases)
  case (1 env m m')
  with seq_init_0 [OF 1(1)] show ?case
    by (auto simp: seq_exit_def seq_free_all_def Let_def has_child_def printk_def release_def seq_handles_def)
next
  case (2 env rc m)
  then show ?case
    by (cases "ok_mkdir env"; cases "ok_create env"; cases "ok_symlink env")
      (auto simp: seq_init_def seq_free_all_def seqmod_fresh_def Let_def has_child_def
        printk_def acquire_def release_def)
qed

section \<open>One pass of the iterator\<close>

text \<open>
  How the kernel drives an iterator when a file is read and the output fits its buffer:
  \<^verbatim>\<open>start\<close>; while the iterator is not \<^verbatim>\<open>NULL\<close>, \<^verbatim>\<open>show\<close> and \<^verbatim>\<open>next\<close>; then \<^verbatim>\<open>stop\<close>, with the last
  iterator. \<open>n\<close> bounds the number of rounds; the result holds what was shown, the new position
  and the state, \<open>None\<close> if the bound is too small.
\<close>

fun rounds ::
  "tasks \<Rightarrow> task_struct \<Rightarrow> nat \<Rightarrow> nat option \<Rightarrow> int \<Rightarrow> seqmod \<Rightarrow> (fault + string \<times> int \<times> seqmod) option" where
  "rounds tasks current n None pos s = Some (Inr ([], pos, ct_seq_stop None s))"
| "rounds tasks current 0 (Some a) pos s = None"
| "rounds tasks current (Suc n) (Some a) pos s =
     (case ct_seq_show tasks current (Some a) s of
        Inl f \<Rightarrow> Some (Inl f)
      | Inr (out, s) \<Rightarrow>
        (case ct_seq_next (Some a) pos s of
           Inl f \<Rightarrow> Some (Inl f)
         | Inr (v, pos, s) \<Rightarrow>
           (case rounds tasks current n v pos s of
              Some (Inr (outs, pos, s)) \<Rightarrow> Some (Inr (out @ outs, pos, s))
            | r \<Rightarrow> r)))"

definition seq_pass ::
  "tasks \<Rightarrow> task_struct \<Rightarrow> nat \<Rightarrow> bool \<Rightarrow> int \<Rightarrow> seqmod \<Rightarrow> (fault + string \<times> int \<times> seqmod) option" where
  "seq_pass tasks current n ok pos s =
     (case ct_seq_start ok pos s of (v, s) \<Rightarrow> rounds tasks current n v pos s)"

text \<open>The record that \<^verbatim>\<open>show\<close> prints for a position, and the cells in use.\<close>

definition item :: "tasks \<Rightarrow> task_struct \<Rightarrow> int \<Rightarrow> string" where
  "item tasks current p = fmt_d p @ '' '' @ newline @ ''current:'' @ newline @
     concat (map (\<lambda>f. f @ newline) (task_fields tasks current))"

definition cells :: "seqmod \<Rightarrow> nat" where
  "cells s = length (filter (\<lambda>c. c \<noteq> None) (heap s))"

lemma heap_printk [simp, mod_simps]: "heap (printk m s) = heap s"
  by (simp add: printk_def)

lemma rounds_from:
  assumes "p < limit" "a < length (heap s)" "heap s ! a = Some p" "nat (limit - p) \<le> n"
  shows "\<exists>s'. rounds tasks current n (Some a) pos s =
      Some (Inr (concat (map (item tasks current) [p..limit - 1]), limit, s')) \<and>
    heap s' = (heap s)[a := Some limit]"
  using assms
proof (induction n arbitrary: p pos s)
  case 0
  then show ?case by simp
next
  case (Suc n)
  obtain s1 where s1: "ct_seq_show tasks current (Some a) s = Inr (item tasks current p, s1)" "heap s1 = heap s"
    using Suc.prems by (simp add: ct_seq_show_def load_def item_def Let_def)
  obtain s2 where s2: "ct_seq_next (Some a) pos s1 = Inr (if p + 1 \<ge> limit then None else Some a, p + 1, s2)"
    "heap s2 = (heap s)[a := Some (p + 1)]"
    using Suc.prems s1(2) by (simp add: ct_seq_next_def load_def Let_def)
  show ?case
  proof (cases "p + 1 < limit")
    case True
    have "nat (limit - (p + 1)) \<le> n" using Suc.prems(4) True by linarith
    then obtain s' where "rounds tasks current n (Some a) (p + 1) s2 =
        Some (Inr (concat (map (item tasks current) [p + 1..limit - 1]), limit, s'))"
      "heap s' = (heap s2)[a := Some limit]"
      using Suc.IH [of "p + 1" s2 "p + 1"] True Suc.prems s2(2) by auto
    moreover have "[p..limit - 1] = p # [p + 1..limit - 1]" using True by (subst upto_rec1) auto
    ultimately show ?thesis using s1 s2 True by simp
  next
    case False
    with Suc.prems have "p + 1 = limit" by simp
    moreover from this have "[p..limit - 1] = [p]" by (simp flip: \<open>p + 1 = limit\<close>)
    ultimately show ?thesis using s1 s2 by (auto simp: ct_seq_stop_def Let_def)
  qed
qed

lemma cells_update:
  "a < length (heap s) \<Longrightarrow> heap s ! a \<noteq> None \<Longrightarrow> heap s' = (heap s)[a := Some x] \<Longrightarrow> cells s' = cells s"
  unfolding cells_def
  by (simp add: length_filter_conv_card) (metis (lifting) nth_list_update option.distinct(1))

text \<open>A pass leaves the entries of /proc and the calls made so far alone.\<close>

lemma ops_keep:
  "seq_handles (snd (ct_seq_start ok pos s)) = seq_handles s" "calls (snd (ct_seq_start ok pos s)) = calls s"
  "ct_seq_show tasks current v s = Inr (out, s') \<Longrightarrow> seq_handles s' = seq_handles s \<and> calls s' = calls s"
  "ct_seq_next v pos s = Inr (v', pos', s') \<Longrightarrow> seq_handles s' = seq_handles s \<and> calls s' = calls s"
  "seq_handles (ct_seq_stop v s) = seq_handles s" "calls (ct_seq_stop v s) = calls s"
  by (auto simp: ct_seq_start_def ct_seq_show_def ct_seq_next_def ct_seq_stop_def Let_def printk_def
      seq_handles_def split: sum.splits option.splits if_splits)

lemma rounds_keep:
  "rounds tasks current n v pos s = Some (Inr (out, pos', s')) \<Longrightarrow>
    seq_handles s' = seq_handles s \<and> calls s' = calls s"
proof (induction n v pos s arbitrary: out pos' s' rule: rounds.induct)
  case (1 tasks current n pos s)
  then show ?case by (auto simp: ops_keep)
next
  case (2 tasks current a pos s)
  then show ?case by simp
next
  case (3 tasks current n a pos s)
  obtain out1 s1 where s1: "ct_seq_show tasks current (Some a) s = Inr (out1, s1)"
    using "3.prems" by (auto split: sum.splits)
  obtain v pos2 s2 where s2: "ct_seq_next (Some a) pos s1 = Inr (v, pos2, s2)"
    using "3.prems" s1 by (auto split: sum.splits)
  obtain out3 where "rounds tasks current n v pos2 s2 = Some (Inr (out3, pos', s'))"
    using "3.prems" s1 s2 by (auto split: sum.splits option.splits)
  from "3.IH" [OF s1 refl s2 refl refl this] ops_keep(3) [OF s1] ops_keep(4) [OF s2] show ?case by simp
qed

definition seq_use :: "tasks \<Rightarrow> task_struct \<Rightarrow> nat \<times> bool \<times> int \<Rightarrow> seqmod \<Rightarrow> seqmod" where
  "seq_use tasks current = (\<lambda>(n, ok, pos) s.
     case seq_pass tasks current n ok pos s of Some (Inr (_, _, s')) \<Rightarrow> s' | _ \<Rightarrow> s)"

lemma seq_use_keeps:
  "seq_handles (seq_use tasks current p s) = seq_handles s \<and> calls (seq_use tasks current p s) = calls s"
proof -
  obtain n ok pos where p: "p = (n, ok, pos)" by (cases p)
  obtain v s1 where s1: "ct_seq_start ok pos s = (v, s1)" by fastforce
  have "seq_handles s1 = seq_handles s" "calls s1 = calls s"
    using ops_keep(1,2) [of ok pos s] s1 by auto
  then show ?thesis
    by (auto simp: p s1 seq_use_def seq_pass_def split: option.splits sum.splits dest: rounds_keep)
qed

lemma seq_uses_keep:
  "seq_handles (fold (seq_use tasks current) ps s) = seq_handles s \<and>
    calls (fold (seq_use tasks current) ps s) = calls s"
  by (induction ps arbitrary: s) (simp_all add: seq_use_keeps)

section \<open>Properties\<close>

text \<open>
  C31: Reading the file from any position ends within as many rounds as there are positions left,
  prints one record for every position from there up to the limit, and leaves the position at
  the limit; at the limit it prints nothing. But each pass that prints something leaves one
  more cell of kernel memory allocated for ever: \<^verbatim>\<open>next\<close> has already replaced the iterator by
  \<^verbatim>\<open>NULL\<close> when \<^verbatim>\<open>stop\<close> frees it.
\<close>

theorem seq_pass_items_and_leak:
  assumes "p \<le> limit" "nat (limit - p) \<le> n"
  shows "\<exists>s'. seq_pass tasks current n True p s =
      Some (Inr (concat (map (item tasks current) [p..limit - 1]), limit, s')) \<and>
    cells s' = cells s + (if p < limit then 1 else 0)"
proof (cases "p < limit")
  case True
  define s1 where "s1 = snd (ct_seq_start True p s)"
  have st: "ct_seq_start True p s = (Some (length (heap s)), s1)" and h: "heap s1 = heap s @ [Some p]"
    using True by (simp_all add: s1_def ct_seq_start_def Let_def)
  obtain s' where s': "rounds tasks current n (Some (length (heap s))) p s1 =
      Some (Inr (concat (map (item tasks current) [p..limit - 1]), limit, s'))"
    "heap s' = (heap s1)[length (heap s) := Some limit]"
    using rounds_from [of p "length (heap s)" s1 n tasks current p] True assms(2) h by auto
  have "cells s' = cells s1" using s'(2) h by (intro cells_update [of "length (heap s)"]) auto
  also have "\<dots> = cells s + 1" by (simp add: cells_def h)
  finally show ?thesis using True st s'(1) by (simp add: seq_pass_def)
next
  case False
  with assms(1) show ?thesis
    by (auto simp: seq_pass_def ct_seq_start_def ct_seq_stop_def cells_def Let_def)
qed

theorem seq_pass_items_and_leak_witness:
  "\<exists>s'. seq_pass (\<lambda>_. sample_task) sample_task 1 True 0 seqmod_fresh =
      Some (Inr (item (\<lambda>_. sample_task) sample_task 0, 1, s')) \<and> cells s' = 1"
  using seq_pass_items_and_leak [of 0 1 "\<lambda>_. sample_task" sample_task seqmod_fresh]
  by (simp add: limit_def cells_def seqmod_fresh_def)

text \<open>
  Any sequence of loads, whichever of the calls fail, of passes over the file, and of unloads
  of the sequence-file module removes exactly the entries of /proc it made, children first.
\<close>

theorem seq_file_balanced:
  "outstanding (concat (map (\<lambda>(e, ps). life seqmod_fresh seq_init seq_exit calls e
     (fold (seq_use tasks current) ps)) us)) [] = Some []"
proof -
  have "outstanding (concat (map (\<lambda>(e, use). life seqmod_fresh seq_init seq_exit calls e use)
      (map (\<lambda>(e, ps). (e, fold (seq_use tasks current) ps)) us))) [] = Some []"
    by (rule seq_mod.lives_balanced) (auto simp: seq_uses_keep)
  then show ?thesis by (simp add: comp_def case_prod_unfold)
qed

end
