(* ===== verification/Single_File.thy ===== *)
theory Single_File
  imports Tasks
begin

text \<open>
  The single-record module \<^verbatim>\<open>6/seq_files/single_file.c\<close>: a process id is written to the file, a
  read prints the descriptor of that process. The kernel's \<^verbatim>\<open>kstrtoint\<close> and its table of
  processes are arguments of the model.
\<close>

section \<open>State\<close>

record single = kmod +
  seq_dir :: bool
  seq_file :: bool
  seq_symlink :: bool
  cookie_buf :: "char list option"
  write_index :: "32 word"

definition COOKIE_BUF_SIZE :: nat where "COOKIE_BUF_SIZE = PAGE_SIZE"

definition single_fresh :: single where
  "single_fresh = \<lparr>klog = [], calls = [], seq_dir = False, seq_file = False, seq_symlink = False,
     cookie_buf = None, write_index = 0\<rparr>"

section \<open>Loading and unloading\<close>

definition free_all :: "single \<Rightarrow> single" where
  "free_all s =
     (let s = (if seq_symlink s then release (ProcEntry None ''seq_symlink'') s else s);
          s = (if seq_file s then release (ProcEntry (Some ''seq_dir'') ''seq_file'') s else s);
          s = (if seq_dir s then release (ProcEntry None ''seq_dir'') s else s)
      in case cookie_buf s of None \<Rightarrow> s | Some _ \<Rightarrow> release VMem s)"

record single_env =
  ok_vmalloc :: bool
  ok_mkdir :: bool
  ok_create :: bool
  ok_symlink :: bool

definition single_init :: "single_env \<Rightarrow> single \<Rightarrow> int \<times> single" where
  "single_init e s =
     (let s = printk ''seq: call ct_init'' s in
      if \<not> ok_vmalloc e then
        (- ENOMEM, printk ''fortune: [ERROR] [can't malloc cookie buffer]'' (s\<lparr>cookie_buf := None\<rparr>)) else
      let s = acquire VMem (s\<lparr>cookie_buf := Some (replicate COOKIE_BUF_SIZE NUL)\<rparr>) in
      if \<not> ok_mkdir e then
        (- ENOMEM, printk ''seq: [ERROR] [can't create fortune dir]'' (free_all (s\<lparr>seq_dir := False\<rparr>))) else
      let s = acquire (ProcEntry None ''seq_dir'') (s\<lparr>seq_dir := True\<rparr>) in
      if \<not> ok_create e then
        (- ENOMEM, printk ''seq: [ERROR] [can't create fortune file]'' (free_all (s\<lparr>seq_file := False\<rparr>))) else
      let s = acquire (ProcEntry (Some ''seq_dir'') ''seq_file'') (s\<lparr>seq_file := True\<rparr>) in
      if \<not> ok_symlink e then
        (- ENOMEM, printk ''seq: [ERROR] [can't create fortune symlink]'' (free_all (s\<lparr>seq_symlink := False\<rparr>))) else
      let s = acquire (ProcEntry None ''seq_symlink'') (s\<lparr>seq_symlink := True\<rparr>)
      in (0, printk ''seq: loaded'' (s\<lparr>write_index := 0\<rparr>)))"

definition single_exit :: "single \<Rightarrow> single" where
  "single_exit s = printk ''seq: call md_exit'' (free_all s)"

section \<open>File operations\<close>

text \<open>The size check, in unsigned 64-bit arithmetic.\<close>

definition single_too_long :: "nat \<Rightarrow> 32 word \<Rightarrow> bool" where
  "single_too_long len wi \<longleftrightarrow> (of_nat len :: 64 word) > of_nat COOKIE_BUF_SIZE - ucast wi + 1"

definition single_write :: "nat \<Rightarrow> char list \<Rightarrow> single \<Rightarrow> fault + int \<times> single" where
  "single_write left data s =
     (let s = printk ''seq: call seq_write'' s in
      if single_too_long (length data) (write_index s)
      then Inr (- ENOSPC, printk ''seq: [ERROR] [buffer overflow]'' s)
      else case cookie_buf s of
        None \<Rightarrow> Inl NullDeref
      | Some buf \<Rightarrow>
        if unat (write_index s) + length data > length buf then Inl OutOfBounds
        else let buf = blit buf (unat (write_index s)) (user_bytes left data); s = s\<lparr>cookie_buf := Some buf\<rparr> in
        if left \<noteq> 0 then Inr (- EFAULT, printk ''seq: [ERROR] [can't copy_from_user]'' s)
        else case aput buf (int (length data) - 1) NUL of
          Inl f \<Rightarrow> Inl f
        | Inr buf \<Rightarrow> Inr (int (length data), s\<lparr>cookie_buf := Some buf\<rparr>))"

text \<open>
  \<open>kstrtoint\<close> yields the number a string stands for, if it stands for one; \<open>find_pid\<close> tells
  whether there is a \<^verbatim>\<open>struct pid\<close> of a number, of which \<^verbatim>\<open>find_get_pid\<close> then takes a reference, and
  \<open>find_task\<close> finds the task \<^verbatim>\<open>get_pid_task\<close> takes a reference of.
\<close>

definition single_show ::
  "(string \<Rightarrow> int option) \<Rightarrow> (int \<Rightarrow> bool) \<Rightarrow> (int \<Rightarrow> addr option) \<Rightarrow> tasks \<Rightarrow> single \<Rightarrow> fault + string \<times> single" where
  "single_show kstrtoint find_pid find_task tasks s =
     (let s = printk ''seq: call seq_show'' s in
      case cookie_buf s of
        None \<Rightarrow> Inl NullDeref
      | Some buf \<Rightarrow>
        if NUL \<notin> set buf then Inl OutOfBounds
        else case kstrtoint (cstr buf) of
          None \<Rightarrow> Inr (cstr buf @ '': pid must be an integer'' @ newline, s)
        | Some p \<Rightarrow>
          let s = (if find_pid p then acquire (PidRef p) s else s) in
          case (if find_pid p then find_task p else None) of
            None \<Rightarrow> Inr (fmt_d p @ '': no such task'' @ newline, s)
          | Some a \<Rightarrow>
            Inr (fmt_d p @ '':'' @ newline @ concat (map (\<lambda>f. f @ newline) (task_fields tasks (tasks a))),
              acquire (TaskRef p) s))"

text \<open>The remaining operations log their call and hand over to the kernel.\<close>

definition single_open_op :: "(single \<Rightarrow> 'r \<times> single) \<Rightarrow> single \<Rightarrow> 'r \<times> single" where
  "single_open_op single_open s = single_open (printk ''seq: call seq_open'' s)"

definition single_read_op :: "(single \<Rightarrow> 'r \<times> single) \<Rightarrow> single \<Rightarrow> 'r \<times> single" where
  "single_read_op seq_read s = seq_read (printk ''seq: call seq_read'' s)"

definition single_release_op :: "(single \<Rightarrow> 'r \<times> single) \<Rightarrow> single \<Rightarrow> 'r \<times> single" where
  "single_release_op seq_release s = seq_release (printk ''seq: call seq_release'' s)"

definition single_lseek_op :: "(single \<Rightarrow> 'r \<times> single) \<Rightarrow> single \<Rightarrow> 'r \<times> single" where
  "single_lseek_op seq_lseek s = seq_lseek (printk ''seq: call seq_lseek'' s)"

section \<open>Invariant\<close>

text \<open>
  Once loaded, the module has a page-sized buffer, and the write index stays at zero: no
  operation moves it. The buffer has a terminator as long as no write fills it without one.
\<close>

definition single_ok :: "single \<Rightarrow> bool" where
  "single_ok s \<longleftrightarrow> (case cookie_buf s of None \<Rightarrow> False | Some buf \<Rightarrow> length buf = COOKIE_BUF_SIZE \<and> NUL \<in> set buf) \<and>
     write_index s = 0"

lemma printk_single [simp, mod_simps]:
  "cookie_buf (printk m s) = cookie_buf s" "write_index (printk m s) = write_index s"
  by (simp_all add: printk_def)

lemma single_okE:
  assumes "single_ok s"
  obtains buf where "cookie_buf s = Some buf" "length buf = COOKIE_BUF_SIZE" "NUL \<in> set buf" "write_index s = 0"
  using assms by (auto simp: single_ok_def split: option.splits)

lemma single_ok_init:
  assumes "ok_vmalloc e" "ok_mkdir e" "ok_create e" "ok_symlink e"
  shows "single_ok (snd (single_init e single_fresh))"
  using assms by (simp add: single_init_def Let_def single_ok_def)
    (simp add: printk_def acquire_def single_fresh_def COOKIE_BUF_SIZE_def PAGE_SIZE_def)

lemma single_too_long_iff: "len < 2 ^ 64 \<Longrightarrow> single_too_long len 0 \<longleftrightarrow> 4097 < len"
proof -
  assume "len < 2 ^ 64"
  then have "unat (of_nat len :: 64 word) = len" by (simp add: unsigned_of_nat take_bit_nat_eq_self)
  then show ?thesis
    by (simp add: single_too_long_def word_less_nat_alt COOKIE_BUF_SIZE_def PAGE_SIZE_def)
qed

lemma single_write_ok:
  assumes "single_ok s" "data \<noteq> []" "length data \<le> COOKIE_BUF_SIZE"
  shows "\<exists>s' buf'. single_write 0 data s = Inr (int (length data), s') \<and> single_ok s' \<and>
    cookie_buf s' = Some (butlast data @ NUL # buf') \<and> calls s' = calls s"
proof -
  from assms(1) obtain buf where b: "cookie_buf s = Some buf" "length buf = COOKIE_BUF_SIZE" "write_index s = 0"
    by (rule single_okE) (rule that)
  obtain ds c where data: "data = ds @ [c]" using assms(2) by (metis rev_exhaust)
  have "blit buf 0 data = ds @ c # drop (length data) buf" by (simp add: blit_def data)
  moreover have "\<not> single_too_long (length data) 0"
    using assms(3) by (subst single_too_long_iff) (auto simp: COOKIE_BUF_SIZE_def PAGE_SIZE_def)
  moreover have "int (length data) - 1 = int (length ds)" by (simp add: data)
  ultimately have "single_write 0 data s = Inr (int (length data),
      (printk ''seq: call seq_write'' s)\<lparr>cookie_buf := Some (ds @ NUL # drop (length data) buf)\<rparr>)"
    using assms(3) b by (simp add: single_write_def Let_def aput_def data)
  then show ?thesis
    using b assms(3) by (auto simp: single_ok_def data)
qed

section \<open>Entries and memory are balanced\<close>

definition single_handles :: "single \<Rightarrow> bool \<times> bool \<times> bool \<times> bool" where
  "single_handles s = (seq_dir s, seq_file s, seq_symlink s, cookie_buf s \<noteq> None)"

lemma single_init_0:
  assumes "single_init e single_fresh = (0, m)"
  shows "calls m = [Acq VMem, Acq (ProcEntry None ''seq_dir''), Acq (ProcEntry (Some ''seq_dir'') ''seq_file''),
      Acq (ProcEntry None ''seq_symlink'')]" "single_handles m = (True, True, True, True)"
proof -
  have ok: "ok_vmalloc e" "ok_mkdir e" "ok_create e" "ok_symlink e"
    using assms by (auto simp: single_init_def Let_def ENOMEM_def split: if_splits)
  have m: "m = snd (single_init e single_fresh)" using assms by simp
  show "calls m = [Acq VMem, Acq (ProcEntry None ''seq_dir''), Acq (ProcEntry (Some ''seq_dir'') ''seq_file''),
      Acq (ProcEntry None ''seq_symlink'')]" "single_handles m = (True, True, True, True)"
    by (simp_all add: m ok single_init_def single_fresh_def Let_def printk_def acquire_def single_handles_def)
qed

interpretation single_mod: balanced_module single_fresh single_init single_exit calls single_handles
proof (unfold_locales, goal_cases)
  case (1 env m m')
  with single_init_0 [OF 1(1)] show ?case
    by (auto simp: single_exit_def free_all_def Let_def has_child_def printk_def release_def single_handles_def)
next
  case (2 env rc m)
  then show ?case
    by (cases "ok_vmalloc env"; cases "ok_mkdir env"; cases "ok_create env"; cases "ok_symlink env")
      (auto simp: single_init_def free_all_def single_fresh_def Let_def has_child_def
        printk_def acquire_def release_def)
qed

text \<open>Writes, in a sequence; one that would fault is left out.\<close>

definition single_put :: "nat \<times> char list \<Rightarrow> single \<Rightarrow> single" where
  "single_put = (\<lambda>(left, data) s. case single_write left data s of Inl _ \<Rightarrow> s | Inr (_, s') \<Rightarrow> s')"

lemma single_put_keeps:
  "single_handles (single_put w s) = single_handles s \<and> calls (single_put w s) = calls s"
  by (cases w) (auto simp: single_put_def single_write_def Let_def printk_def single_handles_def aput_def
      split: sum.splits option.splits if_splits)

lemma single_puts_keep:
  "single_handles (fold single_put ws s) = single_handles s \<and> calls (fold single_put ws s) = calls s"
  by (induction ws arbitrary: s) (simp_all add: single_put_keeps)

section \<open>Properties\<close>

text \<open>
  A process id written to the file (with its line end) is what the next read looks up: it
  prints that process's descriptor, or that there is none, or that the text is no number. Each
  look-up that finds the process leaves a reference to its \<^verbatim>\<open>struct pid\<close> and one to its task
  unreleased.
\<close>

theorem single_write_show:
  assumes "single_ok s" "no_nul t" "length t < COOKIE_BUF_SIZE"
  shows "\<exists>s'. single_write 0 (t @ newline) s = Inr (int (length t) + 1, s') \<and> single_ok s' \<and>
    single_show kstrtoint find_pid find_task tasks s' =
      Inr (case kstrtoint t of
          None \<Rightarrow> (t @ '': pid must be an integer'' @ newline, printk ''seq: call seq_show'' s')
        | Some p \<Rightarrow>
          if \<not> find_pid p then (fmt_d p @ '': no such task'' @ newline, printk ''seq: call seq_show'' s')
          else case find_task p of
            None \<Rightarrow> (fmt_d p @ '': no such task'' @ newline, acquire (PidRef p) (printk ''seq: call seq_show'' s'))
          | Some a \<Rightarrow> (fmt_d p @ '':'' @ newline @ concat (map (\<lambda>f. f @ newline) (task_fields tasks (tasks a))),
              acquire (TaskRef p) (acquire (PidRef p) (printk ''seq: call seq_show'' s'))))"
proof -
  obtain s' rest where "single_write 0 (t @ newline) s = Inr (int (length t) + 1, s')" "single_ok s'"
    and c: "cookie_buf s' = Some (t @ NUL # rest)"
    using single_write_ok [OF assms(1), of "t @ newline"] assms(3) by (auto simp: newline_def)
  moreover have "cstr (t @ NUL # rest) = t" using assms(2) by (rule cstr_terminated)
  ultimately show ?thesis by (auto simp: single_show_def Let_def split: option.splits)
qed

theorem single_write_show_witness:
  "\<exists>s'. single_write 0 (''7'' @ newline) (snd (single_init
      \<lparr>ok_vmalloc = True, ok_mkdir = True, ok_create = True, ok_symlink = True\<rparr> single_fresh)) = Inr (2, s') \<and>
    single_show (\<lambda>t. if t = ''7'' then Some 7 else None) (\<lambda>p. p = 7) (\<lambda>p. Some 1) (\<lambda>_. sample_task) s' =
      Inr (''7:'' @ newline @ concat (map (\<lambda>f. f @ newline) (task_fields (\<lambda>_. sample_task) sample_task)),
        acquire (TaskRef 7) (acquire (PidRef 7) (printk ''seq: call seq_show'' s')))"
proof -
  have "single_ok (snd (single_init
      \<lparr>ok_vmalloc = True, ok_mkdir = True, ok_create = True, ok_symlink = True\<rparr> single_fresh))"
    by (rule single_ok_init) simp_all
  moreover have "fmt_d 7 = ''7''" by code_simp
  ultimately show ?thesis
    using single_write_show [where t = "''7''" and kstrtoint = "\<lambda>t. if t = ''7'' then Some 7 else None"
        and find_pid = "\<lambda>p. p = 7" and find_task = "\<lambda>p. Some 1" and tasks = "\<lambda>_. sample_task"
        and s = "snd (single_init \<lparr>ok_vmalloc = True, ok_mkdir = True, ok_create = True, ok_symlink = True\<rparr> single_fresh)"]
    by (simp add: no_nul_def COOKIE_BUF_SIZE_def PAGE_SIZE_def) blast
qed

text \<open>
  Whichever calls fail at load time and whatever is written, the single-record module gives
  back its buffer and its entries of /proc.
\<close>

theorem single_file_balanced:
  "outstanding (life single_fresh single_init single_exit calls e (fold single_put ws)) [] = Some []"
  by (rule single_mod.life_balanced) (simp_all add: single_puts_keep)

end
