(* ===== verification/Keys.thy ===== *)
theory Keys
  imports Tasks
begin

text \<open>
  What the two keyboard-interrupt modules share: the table of key names, pointers to kernel
  objects, and the return values of an interrupt handler.
\<close>

text \<open>\<^verbatim>\<open>char *ascii[84]\<close>, the same table in both modules\<close>

definition ascii :: "string list" where
  "ascii = ['' '', ''Esc'', ''1'', ''2'', ''3'', ''4'', ''5'', ''6'', ''7'', ''8'', ''9'', ''0'', ''-'', ''+'', ''Backspace'',
     ''Tab'', ''Q'', ''W'', ''E'', ''R'', ''T'', ''Y'', ''U'', ''I'', ''O'', ''P'', ''['', '']'', ''Enter'', ''Ctrl'',
     ''A'', ''S'', ''D'', ''F'', ''G'', ''H'', ''J'', ''K'', ''L'', '';'', [CHR 0x22], [CHR 0x27], ''Shift (left)'', ''|'',
     ''Z'', ''X'', ''C'', ''V'', ''B'', ''N'', ''M'', ''<'', ''>'', ''?'', ''Shift (right)'',
     ''*'', ''Alt'', ''Space'', ''CapsLock'',
     ''F1'', ''F2'', ''F3'', ''F4'', ''F5'', ''F6'', ''F7'', ''F8'', ''F9'', ''F10'',
     ''NumLock'', ''ScrollLock'', ''Home'', ''Up'', ''Page-Up'', ''-'', ''Left'',
     '' '', ''Right'', ''+'', ''End'', ''Down'', ''Page-Down'', ''Insert'', ''Delete'']"

lemma length_ascii [simp]: "length ascii = 84"
  by (simp add: ascii_def)

definition IRQ_NO :: int where "IRQ_NO = 1"

datatype irqreturn = IRQ_NONE | IRQ_HANDLED

text \<open>A pointer to an object obtained by \<^verbatim>\<open>kmalloc\<close>.\<close>

datatype 'a ptr = Null | Live 'a | Freed

fun deref :: "'a ptr \<Rightarrow> fault + 'a" where
  "deref Null = Inl NullDeref"
| "deref (Live x) = Inr x"
| "deref Freed = Inl UseAfterFree"

end
