(* ===== verification/Tasklet.thy ===== *)
theory Tasklet
  imports Keys
begin

text \<open>
  The keyboard module \<^verbatim>\<open>9/interrupts/tasklet/tasklet.c\<close>: the interrupt handler stores the scan
  code in the tasklet and schedules it; the tasklet prints the key. When the kernel runs a
  scheduled tasklet is up to the kernel: interrupts and tasklet runs are steps of an explicit
  sequence. \<^verbatim>\<open>tasklet_schedule\<close> sets the tasklet's SCHED bit; scheduling a tasklet that is
  scheduled has no effect, and a run clears the bit first. A run is one step: no interrupt comes in the middle of it.
\<close>

section \<open>State\<close>

record tasklet_struct =
  t_state :: nat                  \<comment> \<open>bit 0: scheduled; bit 1: running\<close>
  t_count :: nat
  t_use_callback :: bool
  t_data :: "64 word"

record tmod = kmod +
  tasklet :: "tasklet_struct ptr"
  tbuffer :: bool
  proc_file :: bool
  proc_dir :: bool
  proc_link :: bool

definition tmod_fresh :: tmod where
  "tmod_fresh = \<lparr>klog = [], calls = [], tasklet = Null, tbuffer = False, proc_file = False,
     proc_dir = False, proc_link = False\<rparr>"

definition tasklet_schedule :: "tasklet_struct \<Rightarrow> tasklet_struct" where
  "tasklet_schedule t = t\<lparr>t_state := set_bit 0 (t_state t)\<rparr>"

lemma set_bit_sched [simp]: "set_bit 0 (0 :: nat) = 1" "set_bit 0 (Suc 0) = Suc 0"
  by code_simp+

section \<open>Interrupt handler and tasklet\<close>

text \<open>\<open>ascii[data]\<close> is an access to the table like any other; \<open>now\<close> is \<^verbatim>\<open>ktime_get()\<close>.\<close>

definition my_tasklet_fun :: "64 word \<Rightarrow> 64 word \<Rightarrow> tmod \<Rightarrow> fault + tmod" where
  "my_tasklet_fun now data s =
     (if data < 84 then
        case deref (tasklet s) of
          Inl f \<Rightarrow> Inl f
        | Inr t \<Rightarrow>
          (case aget ascii (uint data) of
             Inl f \<Rightarrow> Inl f
           | Inr key \<Rightarrow> Inr (printk (''+ INFO: call my_tasklet_func, tasklet state='' @ fmt_d (int (t_state t)) @
               '', time='' @ fmt_llu now @ '', inb='' @ key) s))
      else Inr s)"

text \<open>\<open>inb\<close> is the byte read from port \<^verbatim>\<open>0x60\<close>.\<close>

definition my_irq_handler ::
  "int \<Rightarrow> 8 word \<Rightarrow> 64 word \<times> 64 word \<Rightarrow> tmod \<Rightarrow> fault + irqreturn \<times> tmod" where
  "my_irq_handler irq inb now s =
     (if irq = IRQ_NO then
        case deref (tasklet s) of
          Inl f \<Rightarrow> Inl f
        | Inr t \<Rightarrow>
          let s = printk (''+ INFO: before tasklet_schedule, tasklet state='' @ fmt_d (int (t_state t)) @
                '', time='' @ fmt_llu (fst now)) s;
              s = printk ''MyTasklet : scheduling'' s;
              t = tasklet_schedule (t\<lparr>t_data := ucast inb\<rparr>);
              s = s\<lparr>tasklet := Live t\<rparr>
          in Inr (IRQ_HANDLED, printk (''+ INFO: after tasklet_schedule,  tasklet state='' @ fmt_d (int (t_state t)) @
                '', time='' @ fmt_llu (snd now)) s)
      else Inr (IRQ_NONE, printk ''+ INFO: irq wasn't handled'' s))"

text \<open>
  One run of the tasklet by the kernel: nothing if it is not scheduled; otherwise the bit is
  cleared, the function called with the tasklet's data, and the running mark removed.
\<close>

definition tasklet_run :: "64 word \<Rightarrow> tmod \<Rightarrow> fault + tmod" where
  "tasklet_run now s =
     (case tasklet s of
        Live t \<Rightarrow>
          if t_state t = 1 then
            case my_tasklet_fun now (t_data t) (s\<lparr>tasklet := Live (t\<lparr>t_state := 2\<rparr>)\<rparr>) of
              Inl f \<Rightarrow> Inl f
            | Inr s \<Rightarrow> Inr (s\<lparr>tasklet := Live (t\<lparr>t_state := 0\<rparr>)\<rparr>)
          else Inr s
      | _ \<Rightarrow> Inr s)"

section \<open>The /proc file\<close>

definition tasklet_show :: "tmod \<Rightarrow> fault + string \<times> tmod" where
  "tasklet_show s =
     (let s = printk ''+ INFO: call my_show'' s in
      case deref (tasklet s) of
        Inl f \<Rightarrow> Inl f
      | Inr t \<Rightarrow> Inr (''tasklet:'' @ newline @ ''state - '' @ fmt_d (int (t_state t)) @ newline @
          ''count - '' @ fmt_d (int (t_count t)) @ newline @
          ''use_callback - '' @ (if t_use_callback t then ''1'' else ''0'') @ newline @
          ''data - '' @ fmt_d (sint (t_data t)) @ newline, s))"

definition tasklet_read :: "(tmod \<Rightarrow> 'r \<times> tmod) \<Rightarrow> tmod \<Rightarrow> 'r \<times> tmod" where
  "tasklet_read seq_read s = seq_read (printk ''+ INFO: call my_read'' s)"

definition tasklet_release :: "tmod \<Rightarrow> int \<times> tmod" where
  "tasklet_release s = (0, printk ''+ INFO: call my_release'' s)"

definition tasklet_open :: "(tmod \<Rightarrow> 'r \<times> tmod) \<Rightarrow> tmod \<Rightarrow> 'r \<times> tmod" where
  "tasklet_open single_open s = single_open (printk ''+ INFO: call my_open'' s)"

section \<open>Loading, in the stages between which an interrupt can come\<close>

record tasklet_env =
  ret_irq :: int
  ok_tasklet :: bool
  ok_buffer :: bool
  ok_file :: bool
  ok_dir :: bool
  ok_link :: bool

definition init_irq :: "tasklet_env \<Rightarrow> tmod \<Rightarrow> int \<times> tmod" where
  "init_irq e s =
     (if ret_irq e \<noteq> 0 then (ret_irq e, printk ''+ ERR: request_irq'' s)
      else (0, acquire (Irq 1) s))"

definition init_tasklet :: "tasklet_env \<Rightarrow> tmod \<Rightarrow> int \<times> tmod" where
  "init_tasklet e s =
     (if \<not> ok_tasklet e
      then (- ENOMEM, release (Irq 1) (printk ''+ ERR: kmalloc tasklet'' (s\<lparr>tasklet := Null\<rparr>)))
      else let s = acquire (KMem ''tasklet'') s;
               s = s\<lparr>tasklet := Live \<lparr>t_state = 0, t_count = 0, t_use_callback = False, t_data = 0\<rparr>\<rparr>
      in (0, printk ''+ INFO: my_init'' s))"

definition init_entries :: "tasklet_env \<Rightarrow> tmod \<Rightarrow> int \<times> tmod" where
  "init_entries e s =
     (if \<not> ok_buffer e then (- ENOMEM, printk ''+ ERR: can't vmalloc'' (s\<lparr>tbuffer := False\<rparr>))
      else let s = acquire VMem (s\<lparr>tbuffer := True\<rparr>) in
      if \<not> ok_file e
      then (- ENOMEM, printk ''+ ERR: can't proc_create'' (release VMem (s\<lparr>proc_file := False\<rparr>)))
      else let s = printk ''+ INFO: tasklet_init'' (acquire (ProcEntry None ''tasklet'') (s\<lparr>proc_file := True\<rparr>));
               s = (if ok_dir e then acquire (ProcEntry None ''tasklet_dir'') (s\<lparr>proc_dir := True\<rparr>)
                    else s\<lparr>proc_dir := False\<rparr>);
               s = (if ok_link e then acquire (ProcEntry None ''tasklet_symlink'') (s\<lparr>proc_link := True\<rparr>)
                    else s\<lparr>proc_link := False\<rparr>)
      in if \<not> proc_dir s \<or> \<not> proc_link s
         then (- ENOMEM, printk ''+ ERROR: can't proc_mkdir or proc_symlink'' (release VMem s))
         else (0, s))"

definition tasklet_my_init :: "tasklet_env \<Rightarrow> tmod \<Rightarrow> int \<times> tmod" where
  "tasklet_my_init e s =
     (case init_irq e s of (rc, s) \<Rightarrow> if rc \<noteq> 0 then (rc, s) else
      case init_tasklet e s of (rc, s) \<Rightarrow> if rc \<noteq> 0 then (rc, s) else
      init_entries e s)"

section \<open>Unloading, in its stages\<close>

text \<open>\<^verbatim>\<open>proc_remove\<close> of a null pointer does nothing; \<^verbatim>\<open>tasklet_kill\<close> waits until the tasklet is not scheduled.\<close>

definition exit_entries :: "tmod \<Rightarrow> tmod" where
  "exit_entries s =
     (let s = (if proc_file s then release (ProcEntry None ''tasklet'') s else s);
          s = (if proc_dir s then release (ProcEntry None ''tasklet_dir'') s else s)
      in if proc_link s then release (ProcEntry None ''tasklet_symlink'') s else s)"

definition exit_tasklet :: "tmod \<Rightarrow> tmod" where
  "exit_tasklet s = release (KMem ''tasklet'') (s\<lparr>tasklet := Freed\<rparr>)"

definition exit_irq :: "tmod \<Rightarrow> tmod" where
  "exit_irq s = printk ''+ INFO: my_exit---------END'' (release (Irq 1) s)"

definition tasklet_my_exit :: "tmod \<Rightarrow> tmod" where
  "tasklet_my_exit s = exit_irq (exit_tasklet (exit_entries s))"

section \<open>Interrupts and tasklet runs in sequence\<close>

datatype tevent = TIrq int "8 word" "64 word \<times> 64 word" | TRun "64 word"

fun tasklet_event :: "tevent \<Rightarrow> tmod \<Rightarrow> fault + tmod" where
  "tasklet_event (TIrq irq inb now) s = (case my_irq_handler irq inb now s of Inl f \<Rightarrow> Inl f | Inr (_, s) \<Rightarrow> Inr s)"
| "tasklet_event (TRun now) s = tasklet_run now s"

fun tasklet_events :: "tevent list \<Rightarrow> tmod \<Rightarrow> fault + tmod" where
  "tasklet_events [] s = Inr s"
| "tasklet_events (e # es) s = (case tasklet_event e s of Inl f \<Rightarrow> Inl f | Inr s \<Rightarrow> tasklet_events es s)"

text \<open>
  What the sequence promises: the codes the tasklet prints. A run prints the code of the last
  interrupt since the run before, if there was one.
\<close>

fun printed :: "8 word option \<Rightarrow> tevent list \<Rightarrow> 8 word list" where
  "printed p [] = []"
| "printed p (TIrq irq inb now # es) = printed (if irq = 1 then Some inb else p) es"
| "printed None (TRun now # es) = printed None es"
| "printed (Some c) (TRun now # es) = c # printed None es"

text \<open>The lines in the log that the tasklet printed.\<close>

definition tasklet_lines :: "tmod \<Rightarrow> string list" where
  "tasklet_lines s = filter (\<lambda>l. take 28 l = ''+ INFO: call my_tasklet_func'') (klog s)"

definition key_line :: "string \<Rightarrow> string \<Rightarrow> bool" where
  "key_line key l \<longleftrightarrow> (\<exists>head. l = head @ '', inb='' @ key)"

definition keys :: "8 word list \<Rightarrow> string list" where
  "keys cs = map (\<lambda>c. ascii ! unat c) (filter (\<lambda>c. c < 84) cs)"

section \<open>Simulation\<close>

definition holds_code :: "tmod \<Rightarrow> 8 word option \<Rightarrow> bool" where
  "holds_code s p \<longleftrightarrow> (case tasklet s of Live t \<Rightarrow>
     (case p of None \<Rightarrow> t_state t = 0 | Some c \<Rightarrow> t_state t = 1 \<and> t_data t = ucast c) | _ \<Rightarrow> False)"

lemma irq_step:
  assumes "holds_code s p"
  shows "\<exists>r s'. my_irq_handler irq inb now s = Inr (r, s') \<and>
    holds_code s' (if irq = 1 then Some inb else p) \<and> tasklet_lines s' = tasklet_lines s"
  using assms
  by (cases "tasklet s"; cases p) (auto simp: my_irq_handler_def holds_code_def Let_def printk_def tasklet_lines_def
      tasklet_schedule_def IRQ_NO_def)

lemma unat_ucast_8_64 [simp]: "unat (ucast (c :: 8 word) :: 64 word) = unat c"
proof -
  have "unat c < 2 ^ 8" using unsigned_less [of c] by simp
  then show ?thesis by (simp add: unsigned_ucast_eq take_bit_nat_eq_self)
qed

lemma ucast_less_84: "(ucast (c :: 8 word) :: 64 word) < 84 \<longleftrightarrow> c < 84"
  by (simp add: word_less_nat_alt)

lemma uint_ucast_8_64: "uint (ucast (c :: 8 word) :: 64 word) = int (unat c)"
  by (metis unat_ucast_8_64 uint_nat)

lemma my_tasklet_fun_step:
  assumes "tasklet s = Live t"
  shows "if c < 84
    then \<exists>l. my_tasklet_fun now (ucast (c :: 8 word)) s = Inr (printk l s) \<and>
      take 28 l = ''+ INFO: call my_tasklet_func'' \<and> key_line (ascii ! unat c) l
    else my_tasklet_fun now (ucast c) s = Inr s"
proof (cases "c < 84")
  case True
  then have "unat c < 84" by (simp add: word_less_nat_alt)
  then have "aget ascii (int (unat c)) = Inr (ascii ! unat c)" by (simp only: aget_def in_bounds_of_nat length_ascii if_True nat_int)
  moreover define head where
    "head = ''+ INFO: call my_tasklet_func, tasklet state='' @ fmt_d (int (t_state t)) @ '', time='' @ fmt_llu now"
  ultimately have "my_tasklet_fun now (ucast c) s = Inr (printk (head @ '', inb='' @ ascii ! unat c) s)"
    using True assms by (simp add: my_tasklet_fun_def ucast_less_84 uint_ucast_8_64)
  moreover have "take 28 (head @ rest) = ''+ INFO: call my_tasklet_func''" for rest by (simp add: head_def)
  ultimately show ?thesis using True unfolding key_line_def by (metis (full_types))
next
  case False
  then show ?thesis by (simp add: my_tasklet_fun_def ucast_less_84)
qed

lemma run_step:
  assumes "holds_code s p"
  shows "\<exists>s' ls. tasklet_run now s = Inr s' \<and> holds_code s' None \<and> tasklet_lines s' = tasklet_lines s @ ls \<and>
    list_all2 key_line (keys (case p of None \<Rightarrow> [] | Some c \<Rightarrow> [c])) ls"
proof -
  obtain t where t: "tasklet s = Live t" using assms by (cases "tasklet s") (auto simp: holds_code_def)
  show ?thesis
  proof (cases p)
    case None
    with assms t show ?thesis by (simp add: tasklet_run_def holds_code_def keys_def)
  next
    case (Some c)
    with assms t have "t_state t = 1" "t_data t = ucast c" by (auto simp: holds_code_def)
    then show ?thesis
      using my_tasklet_fun_step [of "s\<lparr>tasklet := Live (t\<lparr>t_state := 2\<rparr>)\<rparr>" "t\<lparr>t_state := 2\<rparr>" c now] t Some
      by (auto simp: tasklet_run_def holds_code_def keys_def tasklet_lines_def printk_def split: if_splits)
  qed
qed

lemma keys_Cons: "keys (c # cs) = keys [c] @ keys cs"
  by (simp add: keys_def)

lemma events_simulate:
  assumes "holds_code s p"
  shows "\<exists>s' p' ls. tasklet_events es s = Inr s' \<and> holds_code s' p' \<and> tasklet_lines s' = tasklet_lines s @ ls \<and>
    list_all2 key_line (keys (printed p es)) ls"
  using assms
proof (induction p es arbitrary: s rule: printed.induct)
  case (1 p)
  then show ?case by (auto simp: keys_def)
next
  case (2 p irq inb now es)
  obtain r s1 where s1: "my_irq_handler irq inb now s = Inr (r, s1)"
    "holds_code s1 (if irq = 1 then Some inb else p)" "tasklet_lines s1 = tasklet_lines s"
    using irq_step [OF "2.prems"] by blast
  with "2.IH" [OF s1(2)] show ?case by simp
next
  case (3 now es)
  obtain s1 ls where s1: "tasklet_run now s = Inr s1" "holds_code s1 None"
    "tasklet_lines s1 = tasklet_lines s @ ls" "list_all2 key_line (keys []) ls"
    using run_step [OF "3.prems"] by fastforce
  obtain s2 p' ls' where s2: "tasklet_events es s1 = Inr s2" "holds_code s2 p'" "tasklet_lines s2 = tasklet_lines s1 @ ls'"
    "list_all2 key_line (keys (printed None es)) ls'"
    using "3.IH" [OF s1(2)] by blast
  have "ls = []" using s1(4) by (simp add: keys_def)
  with s1 s2 have "tasklet_events (TRun now # es) s = Inr s2" "tasklet_lines s2 = tasklet_lines s @ ls'" by simp_all
  with s2(2,4) show ?case by (simp only: printed.simps) blast
next
  case (4 c now es)
  obtain s1 ls where s1: "tasklet_run now s = Inr s1" "holds_code s1 None"
    "tasklet_lines s1 = tasklet_lines s @ ls" "list_all2 key_line (keys [c]) ls"
    using run_step [OF "4.prems"] by fastforce
  obtain s2 p' ls' where s2: "tasklet_events es s1 = Inr s2" "holds_code s2 p'" "tasklet_lines s2 = tasklet_lines s1 @ ls'"
    "list_all2 key_line (keys (printed None es)) ls'"
    using "4.IH" [OF s1(2)] by blast
  have "list_all2 key_line (keys (printed (Some c) (TRun now # es))) (ls @ ls')"
    using s1(4) s2(4) unfolding printed.simps keys_Cons [of c "printed None es"] by (rule list_all2_appendI)
  moreover have "tasklet_events (TRun now # es) s = Inr s2" "tasklet_lines s2 = tasklet_lines s @ ls @ ls'"
    using s1 s2 by simp_all
  ultimately show ?case using s2(2) by blast
qed

section \<open>Properties\<close>

abbreviation all_ok :: tasklet_env where
  "all_ok \<equiv> \<lparr>ret_irq = 0, ok_tasklet = True, ok_buffer = True, ok_file = True, ok_dir = True, ok_link = True\<rparr>"

text \<open>
  C7: Once loaded, whatever interrupts come with whatever bytes and whenever the kernel runs the
  tasklet, nothing faults (the key table is never read outside its 84 entries), and the lines
  that the tasklet logs are, in order, the names of the keys with a code below 84 among the
  codes that were pending at its runs: of several interrupts before one run only the last.
\<close>

theorem tasklet_reports_pending_keys:
  "\<exists>s ls. tasklet_events es (snd (tasklet_my_init all_ok tmod_fresh)) = Inr s \<and> tasklet_lines s = ls \<and>
    list_all2 key_line (keys (printed None es)) ls"
proof -
  let ?s = "snd (tasklet_my_init all_ok tmod_fresh)"
  have "holds_code ?s None" "tasklet_lines ?s = []"
    by (simp_all add: tasklet_my_init_def init_irq_def init_tasklet_def init_entries_def Let_def tmod_fresh_def
        holds_code_def tasklet_lines_def printk_def acquire_def)
  with events_simulate [of ?s None es] show ?thesis by auto
qed

text \<open>
  A key pressed and released before the tasklet runs is not reported at all: the release
  code has overwritten the code of the press, and is not below 84.
\<close>

theorem tasklet_loses_key:
  assumes "press < 84" "84 \<le> code"
  shows "\<exists>s. tasklet_events [TIrq 1 press t1, TIrq 1 code t2, TRun t3] (snd (tasklet_my_init all_ok tmod_fresh)) = Inr s \<and>
    tasklet_lines s = []"
proof -
  let ?s = "snd (tasklet_my_init all_ok tmod_fresh)"
  have "holds_code ?s None" "tasklet_lines ?s = []"
    by (simp_all add: tasklet_my_init_def init_irq_def init_tasklet_def init_entries_def Let_def tmod_fresh_def
        holds_code_def tasklet_lines_def printk_def acquire_def)
  moreover have "keys (printed None [TIrq 1 press t1, TIrq 1 code t2, TRun t3]) = []"
    using assms(2) by (simp add: keys_def not_less)
  ultimately show ?thesis
    using events_simulate [of ?s None "[TIrq 1 press t1, TIrq 1 code t2, TRun t3]"] by auto
qed

theorem tasklet_loses_key_witness:
  "\<exists>s. tasklet_events [TIrq 1 30 (0, 0), TIrq 1 158 (0, 0), TRun 0] (snd (tasklet_my_init all_ok tmod_fresh)) = Inr s \<and>
    tasklet_lines s = []"
  by (rule tasklet_loses_key) simp_all

text \<open>
  The interrupt is requested before the tasklet is allocated and freed after it: an
  interrupt that comes in between dereferences a null pointer while the module is loaded and
  freed memory while it is unloaded.
\<close>

theorem tasklet_irq_windows:
  "my_irq_handler 1 inb now (snd (init_irq all_ok tmod_fresh)) = Inl NullDeref \<and>
   my_irq_handler 1 inb now (exit_tasklet (exit_entries s)) = Inl UseAfterFree"
  by (simp add: my_irq_handler_def IRQ_NO_def init_irq_def tmod_fresh_def acquire_def
      exit_tasklet_def release_def)

text \<open>
  What the module leaves behind. A life that loads successfully leaves the buffer, which is
  never used and never given back. A failed load leaves nothing if the interrupt or the tasklet
  could not be had; every later failure leaves the interrupt handler and the tasklet in
  place, and the entries of /proc made so far.
\<close>

theorem tasklet_leaks:
  "outstanding (life tmod_fresh tasklet_my_init tasklet_my_exit calls e (\<lambda>s. s)) [] =
    Some (if \<not> (ret_irq e = 0 \<and> ok_tasklet e) then []
      else if \<not> (ok_buffer e \<and> ok_file e) then [KMem ''tasklet'', Irq 1]
      else if ok_dir e \<and> ok_link e then [VMem]
      else (if ok_link e then [ProcEntry None ''tasklet_symlink''] else []) @
        (if ok_dir e then [ProcEntry None ''tasklet_dir''] else []) @
        [ProcEntry None ''tasklet'', KMem ''tasklet'', Irq 1])"
  by (cases "ok_tasklet e"; cases "ok_buffer e"; cases "ok_file e"; cases "ok_dir e"; cases "ok_link e")
    (simp_all add: life_def tasklet_my_init_def init_irq_def init_tasklet_def init_entries_def
      tasklet_my_exit_def exit_irq_def exit_tasklet_def exit_entries_def tmod_fresh_def Let_def
      has_child_def ENOMEM_def printk_def acquire_def release_def)

end
