(* ===== verification/Work_Queue.thy ===== *)
theory Work_Queue
  imports Keys
begin

text \<open>
  The keyboard module \<^verbatim>\<open>9/interrupts/workqueue/mywq.c\<close>: the interrupt handler stores the scan
  code in two work items and queues each on a work queue of its own; the first item prints the
  key, the second sleeps a second and prints the code then. When a queued item runs is up to
  the kernel: interrupts and the parts of the items are steps of an explicit sequence.
  \<^verbatim>\<open>queue_work\<close> on an item that is pending has no effect, and an item is no longer pending when
  its function starts. The function of the first item reads the code anew each time it uses it, and an interrupt
  can come between any two of these reads.
\<close>

section \<open>State\<close>

record my_work_t =
  code :: int
  w_pending :: bool

text \<open>Where the first item is: not running, before the look-up of the key, or about to print.\<close>

datatype stage1 = F1_Idle | F1_Key | F1_Print "string option"

record wmod = kmod +
  mywq1 :: "unit ptr"
  mywq2 :: "unit ptr"
  work_1 :: "my_work_t ptr"
  work_2 :: "my_work_t ptr"
  wproc_file :: bool
  wproc_dir :: bool
  wproc_link :: bool
  stage :: stage1
  asleep :: bool                  \<comment> \<open>the second item is between its two messages\<close>

definition wmod_fresh :: wmod where
  "wmod_fresh = \<lparr>klog = [], calls = [], mywq1 = Null, mywq2 = Null, work_1 = Null, work_2 = Null,
     wproc_file = False, wproc_dir = False, wproc_link = False, stage = F1_Idle, asleep = False\<rparr>"

definition queue_work :: "unit ptr \<Rightarrow> my_work_t \<Rightarrow> fault + my_work_t" where
  "queue_work q w = (case deref q of Inl f \<Rightarrow> Inl f | Inr _ \<Rightarrow> Inr (w\<lparr>w_pending := True\<rparr>))"

section \<open>Interrupt handler and work items\<close>

text \<open>
  The first item: the test, the look-up in the key table, and the message. Each reads the code.
\<close>

definition mywq_fun_1_test :: "my_work_t \<Rightarrow> wmod \<Rightarrow> wmod" where
  "mywq_fun_1_test mywork s = s\<lparr>stage := (if code mywork < 84 then F1_Key else F1_Print None)\<rparr>"

definition mywq_fun_1_key :: "my_work_t \<Rightarrow> wmod \<Rightarrow> fault + wmod" where
  "mywq_fun_1_key mywork s =
     (case aget ascii (code mywork) of Inl f \<Rightarrow> Inl f | Inr key \<Rightarrow> Inr (s\<lparr>stage := F1_Print (Some key)\<rparr>))"

definition mywq_fun_1_print :: "64 word \<Rightarrow> string option \<Rightarrow> my_work_t \<Rightarrow> wmod \<Rightarrow> wmod" where
  "mywq_fun_1_print now key mywork s =
     printk (''+ mywq: mywq_fun_1: time = '' @ fmt_llu now @
       (case key of None \<Rightarrow> [] | Some k \<Rightarrow> '', code = '' @ k) @ '', code = '' @ fmt_d (code mywork)) (s\<lparr>stage := F1_Idle\<rparr>)"

definition mywq_fun_1 :: "64 word \<Rightarrow> my_work_t \<Rightarrow> wmod \<Rightarrow> fault + wmod" where
  "mywq_fun_1 now mywork s =
     (case stage s of
        F1_Idle \<Rightarrow> Inr (mywq_fun_1_test mywork s)
      | F1_Key \<Rightarrow> mywq_fun_1_key mywork s
      | F1_Print key \<Rightarrow> Inr (mywq_fun_1_print now key mywork s))"

text \<open>The second item, before and after \<^verbatim>\<open>msleep\<close>.\<close>

definition mywq_fun_2_begin :: "64 word \<Rightarrow> wmod \<Rightarrow> wmod" where
  "mywq_fun_2_begin now s =
     printk (''+ mywq: mywq_fun_2: time = '' @ fmt_llu now @ '', delay = 1000'') (s\<lparr>asleep := True\<rparr>)"

definition mywq_fun_2_end :: "64 word \<Rightarrow> my_work_t \<Rightarrow> wmod \<Rightarrow> wmod" where
  "mywq_fun_2_end now mywork s =
     printk (''+ mywq: mywq_fun_2: time = '' @ fmt_llu now @ '', code = '' @ fmt_d (code mywork)) (s\<lparr>asleep := False\<rparr>)"

definition wq_irq_handler :: "int \<Rightarrow> 8 word \<Rightarrow> wmod \<Rightarrow> fault + irqreturn \<times> wmod" where
  "wq_irq_handler irq inb s =
     (case deref (work_1 s) of
        Inl f \<Rightarrow> Inl f
      | Inr w1 \<Rightarrow>
        let w1 = w1\<lparr>code := uint inb\<rparr>; s = s\<lparr>work_1 := Live w1\<rparr> in
        (case deref (work_2 s) of
           Inl f \<Rightarrow> Inl f
         | Inr w2 \<Rightarrow>
           let w2 = w2\<lparr>code := uint inb\<rparr>; s = s\<lparr>work_2 := Live w2\<rparr> in
           if irq = IRQ_NO then
             (case queue_work (mywq1 s) w1 of
                Inl f \<Rightarrow> Inl f
              | Inr w1 \<Rightarrow>
                (case queue_work (mywq2 s) w2 of
                   Inl f \<Rightarrow> Inl f
                 | Inr w2 \<Rightarrow> Inr (IRQ_HANDLED, s\<lparr>work_1 := Live w1, work_2 := Live w2\<rparr>)))
           else Inr (IRQ_NONE, printk ''+ mywq: irq wasn't handled'' s)))"

text \<open>
  The steps of a sequence: an interrupt; the first queue starts its item, or the item goes on; the second queue starts
  its item, or the item wakes up. Each of the two queues runs one item at a time.
\<close>

datatype wevent = WIrq int "8 word" | WBegin1 | WStep1 "64 word" | WBegin2 "64 word" | WEnd2 "64 word"

fun wq_event :: "wevent \<Rightarrow> wmod \<Rightarrow> fault + wmod" where
  "wq_event (WIrq irq inb) s = (case wq_irq_handler irq inb s of Inl f \<Rightarrow> Inl f | Inr (_, s) \<Rightarrow> Inr s)"
| "wq_event WBegin1 s =
     (case work_1 s of
        Live w \<Rightarrow> if w_pending w \<and> stage s = F1_Idle
          then mywq_fun_1 0 w (s\<lparr>work_1 := Live (w\<lparr>w_pending := False\<rparr>)\<rparr>) else Inr s
      | _ \<Rightarrow> Inr s)"
| "wq_event (WStep1 now) s =
     (case work_1 s of
        Live w \<Rightarrow> if stage s \<noteq> F1_Idle then mywq_fun_1 now w s else Inr s
      | _ \<Rightarrow> Inr s)"
| "wq_event (WBegin2 now) s =
     (case work_2 s of
        Live w \<Rightarrow> if w_pending w \<and> \<not> asleep s
          then Inr (mywq_fun_2_begin now (s\<lparr>work_2 := Live (w\<lparr>w_pending := False\<rparr>)\<rparr>)) else Inr s
      | _ \<Rightarrow> Inr s)"
| "wq_event (WEnd2 now) s =
     (case work_2 s of
        Live w \<Rightarrow> if asleep s then Inr (mywq_fun_2_end now w s) else Inr s
      | _ \<Rightarrow> Inr s)"

fun wq_events :: "wevent list \<Rightarrow> wmod \<Rightarrow> fault + wmod" where
  "wq_events [] s = Inr s"
| "wq_events (e # es) s = (case wq_event e s of Inl f \<Rightarrow> Inl f | Inr s \<Rightarrow> wq_events es s)"

section \<open>The /proc file\<close>

definition wq_show :: "wmod \<Rightarrow> string \<times> wmod" where
  "wq_show s = (''workqueue info:'' @ newline, printk ''+ INFO: call my_show'' s)"

definition wq_read :: "(wmod \<Rightarrow> 'r \<times> wmod) \<Rightarrow> wmod \<Rightarrow> 'r \<times> wmod" where
  "wq_read seq_read s = seq_read (printk ''+ INFO: call my_read'' s)"

definition wq_release :: "wmod \<Rightarrow> int \<times> wmod" where
  "wq_release s = (0, printk ''+ INFO: call my_release'' s)"

definition wq_open :: "(wmod \<Rightarrow> 'r \<times> wmod) \<Rightarrow> wmod \<Rightarrow> 'r \<times> wmod" where
  "wq_open single_open s = single_open (printk ''+ INFO: call my_open'' s)"

section \<open>Loading and unloading\<close>

text \<open>\<open>left_1\<close> and \<open>left_2\<close> are the numbers found in the memory \<^verbatim>\<open>kmalloc\<close> returns.\<close>

record wq_env =
  wret_irq :: int
  ok_wq1 :: bool
  ok_wq2 :: bool
  ok_work1 :: bool
  ok_work2 :: bool
  wok_file :: bool
  wok_dir :: bool
  wok_link :: bool
  left_1 :: int
  left_2 :: int

definition wq_init_irq :: "wq_env \<Rightarrow> wmod \<Rightarrow> int \<times> wmod" where
  "wq_init_irq e s =
     (if wret_irq e \<noteq> 0 then (wret_irq e, printk ''+ mywq: request_irq'' s)
      else (0, acquire (Irq 1) s))"

definition wq_init_queues :: "wq_env \<Rightarrow> wmod \<Rightarrow> int \<times> wmod" where
  "wq_init_queues e s =
     (if \<not> ok_wq1 e then (- ENOMEM, printk ''+ mywq: create_workqueue'' (release (Irq 1) s))
      else let s = acquire (Workqueue ''my_queue1'') (s\<lparr>mywq1 := Live ()\<rparr>) in
      if \<not> ok_wq2 e then (- ENOMEM, printk ''+ mywq: create_workqueue'' (release (Irq 1) s))
      else (0, acquire (Workqueue ''my_queue2'') (s\<lparr>mywq2 := Live ()\<rparr>)))"

definition wq_init_works :: "wq_env \<Rightarrow> wmod \<Rightarrow> int \<times> wmod" where
  "wq_init_works e s =
     (if \<not> ok_work1 e then (- ENOMEM, printk ''+ mywq: kmalloc work_1'' (release (Irq 1) s))
      else let s = acquire (KMem ''work_1'') (s\<lparr>work_1 := Live \<lparr>code = left_1 e, w_pending = False\<rparr>\<rparr>) in
      if \<not> ok_work2 e
      then (- ENOMEM, printk ''+ mywq: kmalloc work_2'' (release (KMem ''work_1'') (release (Irq 1) (s\<lparr>work_1 := Freed\<rparr>))))
      else (0, acquire (KMem ''work_2'') (s\<lparr>work_2 := Live \<lparr>code = left_2 e, w_pending = False\<rparr>\<rparr>)))"

definition wq_init_entries :: "wq_env \<Rightarrow> wmod \<Rightarrow> int \<times> wmod" where
  "wq_init_entries e s =
     (if \<not> wok_file e then (- ENOMEM, printk ''+ ERR: can't proc_create'' (s\<lparr>wproc_file := False\<rparr>))
      else let s = printk ''+ INFO: tasklet_init'' (acquire (ProcEntry None ''tasklet'') (s\<lparr>wproc_file := True\<rparr>));
               s = (if wok_dir e then acquire (ProcEntry None ''tasklet_dir'') (s\<lparr>wproc_dir := True\<rparr>)
                    else s\<lparr>wproc_dir := False\<rparr>);
               s = (if wok_link e then acquire (ProcEntry None ''tasklet_symlink'') (s\<lparr>wproc_link := True\<rparr>)
                    else s\<lparr>wproc_link := False\<rparr>)
      in if \<not> wproc_dir s \<or> \<not> wproc_link s
         then (- ENOMEM, printk ''+ ERROR: can't proc_mkdir or proc_symlink'' s)
         else (0, printk ''+ myqw: init mywq'' s))"

definition mywq_init :: "wq_env \<Rightarrow> wmod \<Rightarrow> int \<times> wmod" where
  "mywq_init e s =
     (case wq_init_irq e s of (rc, s) \<Rightarrow> if rc \<noteq> 0 then (rc, s) else
      case wq_init_queues e s of (rc, s) \<Rightarrow> if rc \<noteq> 0 then (rc, s) else
      case wq_init_works e s of (rc, s) \<Rightarrow> if rc \<noteq> 0 then (rc, s) else
      wq_init_entries e s)"

definition wq_exit_entries :: "wmod \<Rightarrow> wmod" where
  "wq_exit_entries s =
     (let s = (if wproc_file s then release (ProcEntry None ''tasklet'') s else s);
          s = (if wproc_dir s then release (ProcEntry None ''tasklet_dir'') s else s)
      in if wproc_link s then release (ProcEntry None ''tasklet_symlink'') s else s)"

text \<open>\<^verbatim>\<open>flush_workqueue\<close> only waits.\<close>

definition wq_exit_queues :: "wmod \<Rightarrow> wmod" where
  "wq_exit_queues s =
     release (Workqueue ''my_queue2'') (release (Workqueue ''my_queue1'') (s\<lparr>mywq1 := Freed, mywq2 := Freed\<rparr>))"

definition wq_exit_rest :: "wmod \<Rightarrow> wmod" where
  "wq_exit_rest s =
     printk ''+ mywq: exit mywq-----------------END''
       (release (KMem ''work_2'') (release (KMem ''work_1'') ((release (Irq 1) s)\<lparr>work_1 := Freed, work_2 := Freed\<rparr>)))"

definition mywq_exit :: "wmod \<Rightarrow> wmod" where
  "mywq_exit s = wq_exit_rest (wq_exit_queues (wq_exit_entries s))"

section \<open>What the sequence of steps logs\<close>

text \<open>
  The promise: an interrupt on line 1 makes both items pending; the second item announces itself and reports
  the last code read before it wakes up. The first item reports the last code read before its message, and in front of it
  the key of the last code before the look-up if the code was below 84 at the test; if a greater one
  has come in between, the look-up is outside the table (\<open>None\<close>). \<open>(p1, f, p2, sl, c)\<close>: whether the first item is pending
  and where it is, whether the second is pending and whether it sleeps, and the last code.
\<close>

definition line_1 :: "64 word \<Rightarrow> string option \<Rightarrow> 8 word \<Rightarrow> string" where
  "line_1 now key c = ''+ mywq: mywq_fun_1: time = '' @ fmt_llu now @
     (case key of None \<Rightarrow> [] | Some k \<Rightarrow> '', code = '' @ k) @ '', code = '' @ fmt_d (uint c)"

definition line_2 :: "64 word \<Rightarrow> 8 word \<Rightarrow> string" where
  "line_2 now c = ''+ mywq: mywq_fun_2: time = '' @ fmt_llu now @ '', code = '' @ fmt_d (uint c)"

type_synonym wq_abs = "bool \<times> stage1 \<times> bool \<times> bool \<times> 8 word"

fun wq_spec_step :: "wevent \<Rightarrow> wq_abs \<Rightarrow> (string list \<times> wq_abs) option" where
  "wq_spec_step (WIrq irq inb) (p1, f, p2, sl, c) =
     (if irq = 1 then Some ([], (True, f, True, sl, inb))
      else Some ([''+ mywq: irq wasn't handled''], (p1, f, p2, sl, inb)))"
| "wq_spec_step WBegin1 (p1, f, p2, sl, c) =
     Some ([], if p1 \<and> f = F1_Idle then (False, if c < 84 then F1_Key else F1_Print None, p2, sl, c) else (p1, f, p2, sl, c))"
| "wq_spec_step (WStep1 now) (p1, f, p2, sl, c) =
     (case f of
        F1_Idle \<Rightarrow> Some ([], (p1, f, p2, sl, c))
      | F1_Key \<Rightarrow> if c < 84 then Some ([], (p1, F1_Print (Some (ascii ! unat c)), p2, sl, c)) else None
      | F1_Print key \<Rightarrow> Some ([line_1 now key c], (p1, F1_Idle, p2, sl, c)))"
| "wq_spec_step (WBegin2 now) (p1, f, p2, sl, c) =
     (if p2 \<and> \<not> sl then Some ([''+ mywq: mywq_fun_2: time = '' @ fmt_llu now @ '', delay = 1000''], (p1, f, False, True, c))
      else Some ([], (p1, f, p2, sl, c)))"
| "wq_spec_step (WEnd2 now) (p1, f, p2, sl, c) =
     Some (if sl then ([line_2 now c], (p1, f, p2, False, c)) else ([], (p1, f, p2, sl, c)))"

fun wq_spec :: "wq_abs \<Rightarrow> wevent list \<Rightarrow> string list option" where
  "wq_spec st [] = Some []"
| "wq_spec st (e # es) =
     (case wq_spec_step e st of None \<Rightarrow> None | Some (ls, st) \<Rightarrow> map_option (\<lambda>ls'. ls @ ls') (wq_spec st es))"

definition wq_rel :: "wq_abs \<Rightarrow> wmod \<Rightarrow> bool" where
  "wq_rel = (\<lambda>(p1, f, p2, sl, c) s. mywq1 s = Live () \<and> mywq2 s = Live () \<and> asleep s = sl \<and> stage s = f \<and>
     (\<exists>w1 w2. work_1 s = Live w1 \<and> work_2 s = Live w2 \<and> w_pending w1 = p1 \<and> w_pending w2 = p2 \<and>
       (p1 \<or> f \<noteq> F1_Idle \<longrightarrow> code w1 = uint c) \<and> (p2 \<or> sl \<longrightarrow> code w2 = uint c)))"

lemma aget_ascii: "c < 84 \<Longrightarrow> aget ascii (uint (c :: 8 word)) = Inr (ascii ! unat c)"
  by (simp add: aget_def in_bounds_def word_less_def)

lemma uint_less_84: "uint (c :: 8 word) < 84 \<longleftrightarrow> c < 84"
  by (simp add: word_less_def)

lemma aget_ascii_out: "\<not> c < 84 \<Longrightarrow> aget ascii (uint (c :: 8 word)) = Inl OutOfBounds"
proof -
  have "length ascii = 84" by (simp add: ascii_def)
  moreover assume "\<not> c < 84"
  ultimately show ?thesis by (simp add: aget_def in_bounds_def word_less_def)
qed

text \<open>Every step does what is promised.\<close>

lemma wq_event_simulates:
  assumes "wq_rel st s"
  shows "case wq_spec_step e st of
      None \<Rightarrow> wq_event e s = Inl OutOfBounds
    | Some (ls, st') \<Rightarrow> \<exists>s'. wq_event e s = Inr s' \<and> wq_rel st' s' \<and> klog s' = klog s @ ls"
proof -
  obtain p1 f p2 sl c where st: "st = (p1, f, p2, sl, c)" by (cases st)
  obtain w1 w2 where w: "work_1 s = Live w1" "work_2 s = Live w2" "w_pending w1 = p1" "w_pending w2 = p2"
    "p1 \<or> f \<noteq> F1_Idle \<longrightarrow> code w1 = uint c" "p2 \<or> sl \<longrightarrow> code w2 = uint c"
    "mywq1 s = Live ()" "mywq2 s = Live ()" "asleep s = sl" "stage s = f"
    using assms by (auto simp: wq_rel_def st)
  show ?thesis
  proof (cases e)
    case (WIrq irq inb)
    with w show ?thesis
      by (auto simp: st wq_rel_def wq_irq_handler_def queue_work_def Let_def IRQ_NO_def printk_def)
  next
    case WBegin1
    with w show ?thesis
      by (cases "p1 \<and> f = F1_Idle") (auto simp: st wq_rel_def mywq_fun_1_def mywq_fun_1_test_def uint_less_84)
  next
    case (WStep1 now)
    show ?thesis
    proof (cases f)
      case F1_Key
      with w WStep1 show ?thesis
        by (cases "c < 84") (auto simp: st wq_rel_def mywq_fun_1_def mywq_fun_1_key_def aget_ascii aget_ascii_out)
    qed (use w WStep1 in \<open>auto simp: st wq_rel_def mywq_fun_1_def mywq_fun_1_print_def line_1_def printk_def\<close>)
  next
    case (WBegin2 now)
    with w show ?thesis by (auto simp: st wq_rel_def mywq_fun_2_begin_def printk_def)
  next
    case (WEnd2 now)
    with w show ?thesis by (auto simp: st wq_rel_def mywq_fun_2_end_def line_2_def printk_def)
  qed
qed

lemma wq_events_simulate:
  assumes "wq_rel st s"
  shows "case wq_spec st es of
      None \<Rightarrow> wq_events es s = Inl OutOfBounds
    | Some ls \<Rightarrow> \<exists>s'. wq_events es s = Inr s' \<and> klog s' = klog s @ ls"
  using assms
proof (induction es arbitrary: st s)
  case (Cons e es)
  show ?case
  proof (cases "wq_spec_step e st")
    case None
    with wq_event_simulates [OF Cons.prems, of e] show ?thesis by simp
  next
    case (Some p)
    then obtain ls st' s' where "wq_spec_step e st = Some (ls, st')" "wq_event e s = Inr s'" "wq_rel st' s'" "klog s' = klog s @ ls"
      using wq_event_simulates [OF Cons.prems, of e] by (cases p) auto
    with Cons.IH [of st' s'] show ?thesis by (cases "wq_spec st' es") auto
  qed
qed simp

text \<open>If all codes are those of the table, the look-up stays inside.\<close>

lemma wq_spec_keys:
  assumes "\<forall>irq inb. WIrq irq inb \<in> set es \<longrightarrow> inb < 84" "snd (snd (snd (snd st))) < 84"
  shows "wq_spec st es \<noteq> None"
  using assms
proof (induction es arbitrary: st)
  case (Cons e es)
  obtain p1 f p2 sl c where st: "st = (p1, f, p2, sl, c)" by (cases st)
  have "case wq_spec_step e st of None \<Rightarrow> False | Some (ls, st') \<Rightarrow> snd (snd (snd (snd st'))) < 84"
    using Cons.prems by (cases e; cases f) (auto simp: st)
  then obtain ls st' where "wq_spec_step e st = Some (ls, st')" "snd (snd (snd (snd st'))) < 84"
    by (auto split: option.splits)
  moreover have "wq_spec st' es \<noteq> None" if "snd (snd (snd (snd st'))) < 84" for st'
    using Cons.IH Cons.prems(1) that by simp
  ultimately show ?case by auto
qed simp

section \<open>Properties\<close>

definition wq_ok :: "int \<Rightarrow> int \<Rightarrow> wq_env" where
  "wq_ok l1 l2 = \<lparr>wret_irq = 0, ok_wq1 = True, ok_wq2 = True, ok_work1 = True, ok_work2 = True,
     wok_file = True, wok_dir = True, wok_link = True, left_1 = l1, left_2 = l2\<rparr>"

lemma wq_rel_loaded: "wq_rel (False, F1_Idle, False, False, c) (snd (mywq_init (wq_ok l1 l2) wmod_fresh))"
  by (simp add: wq_ok_def mywq_init_def wq_init_irq_def wq_init_queues_def wq_init_works_def
      wq_init_entries_def wmod_fresh_def Let_def wq_rel_def printk_def acquire_def)

text \<open>
  C8: Once loaded, with any numbers in the memory of the two items, every sequence of interrupts and
  steps of the two items does exactly what is promised: no item runs before a code was
  stored, each queue reports what is pending, in particular only the last of several codes, and the log grows by
  exactly the lines promised. The only fault is the one promised: an interrupt with a code of 84 or more, as every
  released key gives, between the test of the first item and its look-up makes it read outside the key
  table. As long as all codes are below 84 there is none.
\<close>

theorem wq_logs:
  fixes l1 l2
  defines "s0 \<equiv> snd (mywq_init (wq_ok l1 l2) wmod_fresh)"
  shows "(case wq_spec (False, F1_Idle, False, False, 0) es of
      None \<Rightarrow> wq_events es s0 = Inl OutOfBounds
    | Some ls \<Rightarrow> \<exists>s. wq_events es s0 = Inr s \<and> klog s = klog s0 @ ls) \<and>
    ((\<forall>irq inb. WIrq irq inb \<in> set es \<longrightarrow> inb < 84) \<longrightarrow> wq_spec (False, F1_Idle, False, False, 0) es \<noteq> None)"
  unfolding s0_def
  by (intro conjI impI wq_events_simulate wq_rel_loaded wq_spec_keys) simp_all

text \<open>A key is pressed, and released before its name is looked up; and the same without the release.\<close>

theorem wq_logs_witness:
  "wq_events [WIrq 1 30, WBegin1, WIrq 1 158, WStep1 5] (snd (mywq_init (wq_ok 7 7) wmod_fresh)) = Inl OutOfBounds \<and>
   (\<exists>s before. wq_events [WIrq 1 30, WBegin1, WStep1 5, WStep1 6] (snd (mywq_init (wq_ok 7 7) wmod_fresh)) = Inr s \<and>
     klog s = before @ [''+ mywq: mywq_fun_1: time = 6, code = A, code = 30''])"
proof -
  have "fmt_llu 6 = ''6''" "fmt_d 30 = ''30''" by (simp_all add: fmt_llu_def fmt_d_def digits.simps)
  moreover have "ascii ! 30 = ''A''" by (simp add: ascii_def)
  ultimately show ?thesis
    using wq_logs [of "[WIrq 1 30, WBegin1, WIrq 1 158, WStep1 5]" 7 7] wq_logs [of "[WIrq 1 30, WBegin1, WStep1 5, WStep1 6]" 7 7]
    by (auto simp: line_1_def)
qed

text \<open>
  The delayed item does not report the code it was queued for: a second interrupt during its
  sleep replaces the code, so the first code is never reported by it and the second twice.
\<close>

theorem wq_delayed_code_replaced:
  "\<exists>s before. wq_events [WIrq 1 c1, WBegin2 t1, WIrq 1 c2, WEnd2 t2, WBegin2 t3, WEnd2 t4]
      (snd (mywq_init (wq_ok l1 l2) wmod_fresh)) = Inr s \<and>
    klog s = before @ [''+ mywq: mywq_fun_2: time = '' @ fmt_llu t2 @ '', code = '' @ fmt_d (uint c2),
      ''+ mywq: mywq_fun_2: time = '' @ fmt_llu t3 @ '', delay = 1000'',
      ''+ mywq: mywq_fun_2: time = '' @ fmt_llu t4 @ '', code = '' @ fmt_d (uint c2)]"
proof -
  let ?es = "[WIrq 1 c1, WBegin2 t1, WIrq 1 c2, WEnd2 t2, WBegin2 t3, WEnd2 t4]"
  obtain s where s: "wq_events ?es (snd (mywq_init (wq_ok l1 l2) wmod_fresh)) = Inr s"
    "klog s = klog (snd (mywq_init (wq_ok l1 l2) wmod_fresh)) @
      [''+ mywq: mywq_fun_2: time = '' @ fmt_llu t1 @ '', delay = 1000'', line_2 t2 c2,
       ''+ mywq: mywq_fun_2: time = '' @ fmt_llu t3 @ '', delay = 1000'', line_2 t4 c2]"
    using wq_events_simulate [OF wq_rel_loaded, where es = ?es] by auto
  then have "klog s = (klog (snd (mywq_init (wq_ok l1 l2) wmod_fresh)) @
    [''+ mywq: mywq_fun_2: time = '' @ fmt_llu t1 @ '', delay = 1000'']) @
    [line_2 t2 c2, ''+ mywq: mywq_fun_2: time = '' @ fmt_llu t3 @ '', delay = 1000'', line_2 t4 c2]" by simp
  with s(1) show ?thesis unfolding line_2_def by blast
qed

text \<open>
  An interrupt that comes before the work items are allocated dereferences a null pointer,
  and one that comes after the queues are destroyed, when the handler is still installed,
  queues work on a destroyed queue.
\<close>

theorem wq_irq_windows:
  assumes "wq_rel st s"
  shows "wq_irq_handler 1 inb (snd (wq_init_irq (wq_ok l1 l2) wmod_fresh)) = Inl NullDeref \<and>
    wq_irq_handler 1 inb (snd (wq_init_queues (wq_ok l1 l2) (snd (wq_init_irq (wq_ok l1 l2) wmod_fresh)))) = Inl NullDeref \<and>
    wq_irq_handler 1 inb (wq_exit_queues (wq_exit_entries s)) = Inl UseAfterFree"
proof -
  obtain w1 w2 where "work_1 s = Live w1" "work_2 s = Live w2" using assms by (auto simp: wq_rel_def)
  then have "wq_irq_handler 1 inb (wq_exit_queues (wq_exit_entries s)) = Inl UseAfterFree"
    by (simp add: wq_irq_handler_def wq_exit_queues_def wq_exit_entries_def release_def queue_work_def
        IRQ_NO_def Let_def)
  then show ?thesis
    by (simp add: wq_irq_handler_def wq_init_irq_def wq_init_queues_def wq_ok_def wmod_fresh_def acquire_def Let_def)
qed

theorem wq_irq_windows_witness:
  "wq_irq_handler 1 30 (wq_exit_queues (wq_exit_entries (snd (mywq_init (wq_ok 7 7) wmod_fresh)))) = Inl UseAfterFree"
  using wq_irq_windows [OF wq_rel_loaded] by blast

text \<open>
  What is left behind: nothing by a life that loads successfully, or if the interrupt or the
  first queue could not be had; every other failed load leaves the queues made so far, and
  a failure after the work items are allocated leaves those and the interrupt handler too.
\<close>

theorem wq_leaks:
  "outstanding (life wmod_fresh mywq_init mywq_exit calls e (\<lambda>s. s)) [] =
    Some (if \<not> (wret_irq e = 0 \<and> ok_wq1 e) then []
      else if \<not> ok_wq2 e then [Workqueue ''my_queue1'']
      else if \<not> (ok_work1 e \<and> ok_work2 e) then [Workqueue ''my_queue2'', Workqueue ''my_queue1'']
      else if wok_file e \<and> wok_dir e \<and> wok_link e then []
      else (if wok_file e \<and> wok_link e then [ProcEntry None ''tasklet_symlink''] else []) @
        (if wok_file e \<and> wok_dir e then [ProcEntry None ''tasklet_dir''] else []) @
        (if wok_file e then [ProcEntry None ''tasklet''] else []) @
        [KMem ''work_2'', KMem ''work_1'', Workqueue ''my_queue2'', Workqueue ''my_queue1'', Irq 1])"
  by (cases "ok_wq1 e"; cases "ok_wq2 e"; cases "ok_work1 e"; cases "ok_work2 e"; cases "wok_file e";
      cases "wok_dir e"; cases "wok_link e")
    (simp_all add: life_def mywq_init_def wq_init_irq_def wq_init_queues_def wq_init_works_def
      wq_init_entries_def mywq_exit_def wq_exit_entries_def wq_exit_queues_def wq_exit_rest_def
      wmod_fresh_def Let_def has_child_def ENOMEM_def printk_def acquire_def release_def)

end
