(* ===== verification/Proc_Files.thy ===== *)
theory Proc_Files
  imports Fortune Seq_File Single_File Tasklet Work_Queue
begin

text \<open>
  The files of /proc as their users see them: the tables of operations the modules register
  (6/fortunka/fortune.c, 6/seq_files, 9/interrupts), and sessions of system calls on an open file,
  which reach the module through its table. Five of the tables hand over to the kernel's
  \<^verbatim>\<open>seq_file\<close> library, which is a parameter with documented laws; what a session takes from the
  kernel and does not give back is read off the record of calls.
\<close>

section \<open>Tables\<close>

text \<open>
  A table of operations; a missing entry is \<^const>\<open>None\<close>. Opening yields a handle (what the kernel
  keeps as the private data of the file) or an error number; reading is given the part of
  the user's buffer that cannot be written and the position, and yields the bytes, the result and the new
  position.
\<close>

type_synonym reading = "fault + string \<times> int \<times> int"

record ('f, 's) proc_ops =
  proc_open :: "'s \<Rightarrow> (int + 'f) \<times> 's"
  proc_read :: "'f \<Rightarrow> nat \<Rightarrow> int \<Rightarrow> 's \<Rightarrow> reading \<times> 's"
  proc_write :: "(nat \<Rightarrow> char list \<Rightarrow> 's \<Rightarrow> fault + int \<times> 's) option"
  proc_lseek :: "('f \<Rightarrow> int \<Rightarrow> int \<Rightarrow> 's \<Rightarrow> int \<times> 's) option"
  proc_release :: "'f \<Rightarrow> 's \<Rightarrow> int \<times> 's"

text \<open>
  The functions of the library the modules use: \<^verbatim>\<open>single_open\<close> is given the function that shows the
  record, \<^verbatim>\<open>seq_open\<close> the iterator.
\<close>

type_synonym 's show_fun = "'s \<Rightarrow> fault + string \<times> 's"

record 's seq_operations =
  start :: "bool \<Rightarrow> int \<Rightarrow> 's \<Rightarrow> nat option \<times> 's"
  "next" :: "nat option \<Rightarrow> int \<Rightarrow> 's \<Rightarrow> fault + nat option \<times> int \<times> 's"
  stop :: "nat option \<Rightarrow> 's \<Rightarrow> 's"
  "show" :: "nat option \<Rightarrow> 's show_fun"

record ('f, 's) seqlib =
  seq_open :: "'s seq_operations \<Rightarrow> 's \<Rightarrow> (int + 'f) \<times> 's"
  single_open :: "'s show_fun \<Rightarrow> 's \<Rightarrow> (int + 'f) \<times> 's"
  seq_read :: "'f \<Rightarrow> nat \<Rightarrow> int \<Rightarrow> 's \<Rightarrow> reading \<times> 's"
  seq_lseek :: "'f \<Rightarrow> int \<Rightarrow> int \<Rightarrow> 's \<Rightarrow> int \<times> 's"
  seq_release :: "'f \<Rightarrow> 's \<Rightarrow> int \<times> 's"

text \<open>\<^verbatim>\<open>seq_file.c\<close>; the variant for older kernels has the same entries.\<close>

definition ct_seq_ops :: "tasks \<Rightarrow> task_struct \<Rightarrow> seqmod seq_operations" where
  "ct_seq_ops tasks current = \<lparr>start = ct_seq_start, next = ct_seq_next, stop = ct_seq_stop, show = ct_seq_show tasks current\<rparr>"

definition ct_file_ops :: "tasks \<Rightarrow> task_struct \<Rightarrow> ('f, seqmod) seqlib \<Rightarrow> ('f, seqmod) proc_ops" where
  "ct_file_ops tasks current L =
     \<lparr>proc_open = ct_seq_open (seq_open L (ct_seq_ops tasks current)),
      proc_read = (\<lambda>f left pos. ct_seq_read (seq_read L f left pos)),
      proc_write = None,
      proc_lseek = Some (\<lambda>f off whence. ct_seq_lseek (seq_lseek L f off whence)),
      proc_release = (\<lambda>f. ct_seq_release (seq_release L f))\<rparr>"

text \<open>\<^verbatim>\<open>single_file.c\<close>\<close>

definition single_file_ops ::
  "(string \<Rightarrow> int option) \<Rightarrow> (int \<Rightarrow> bool) \<Rightarrow> (int \<Rightarrow> addr option) \<Rightarrow> tasks \<Rightarrow> ('f, single) seqlib \<Rightarrow> ('f, single) proc_ops" where
  "single_file_ops kstrtoint find_pid find_task tasks L =
     \<lparr>proc_open = single_open_op (single_open L (single_show kstrtoint find_pid find_task tasks)),
      proc_read = (\<lambda>f left pos. single_read_op (seq_read L f left pos)),
      proc_write = Some single_write,
      proc_lseek = Some (\<lambda>f off whence. single_lseek_op (seq_lseek L f off whence)),
      proc_release = (\<lambda>f. single_release_op (seq_release L f))\<rparr>"

text \<open>\<^verbatim>\<open>tasklet.c\<close> and \<^verbatim>\<open>mywq.c\<close>\<close>

definition tasklet_fops :: "('f, tmod) seqlib \<Rightarrow> ('f, tmod) proc_ops" where
  "tasklet_fops L =
     \<lparr>proc_open = tasklet_open (single_open L tasklet_show),
      proc_read = (\<lambda>f left pos. tasklet_read (seq_read L f left pos)),
      proc_write = None, proc_lseek = None,
      proc_release = (\<lambda>f. tasklet_release)\<rparr>"

definition wq_fops :: "('f, wmod) seqlib \<Rightarrow> ('f, wmod) proc_ops" where
  "wq_fops L =
     \<lparr>proc_open = wq_open (single_open L (\<lambda>s. Inr (wq_show s))),
      proc_read = (\<lambda>f left pos. wq_read (seq_read L f left pos)),
      proc_write = None, proc_lseek = None,
      proc_release = (\<lambda>f. wq_release)\<rparr>"

text \<open>\<^verbatim>\<open>fortune.c\<close>, which does not use the library\<close>

definition fortune_fops :: "(unit, fortune) proc_ops" where
  "fortune_fops =
     \<lparr>proc_open = (\<lambda>s. case fortuneOpen s of (rc, s) \<Rightarrow> (if rc = 0 then Inr () else Inl rc, s)),
      proc_read = (\<lambda>f left pos s. case fortuneRead left pos s of
        Inl e \<Rightarrow> (Inl e, s) | Inr (bs, rc, pos, s) \<Rightarrow> (Inr (bs, rc, pos), s)),
      proc_write = Some fortuneWrite,
      proc_lseek = None,
      proc_release = (\<lambda>f. fortuneRelease)\<rparr>"

section \<open>Sessions\<close>

text \<open>
  What a user does between opening and closing a file. A call without an entry in the table does
  not reach the module. A session yields what was read, or \<^const>\<open>None\<close> if the file could not be
  opened, and then nothing is closed.
\<close>

datatype user_call = Read nat | Write nat "char list" | Lseek int int

fun do_call :: "('f, 's) proc_ops \<Rightarrow> 'f \<Rightarrow> user_call \<Rightarrow> int \<Rightarrow> 's \<Rightarrow> fault + string \<times> int \<times> 's" where
  "do_call T f (Read left) pos s =
     (case proc_read T f left pos s of
        (Inl e, _) \<Rightarrow> Inl e
      | (Inr (bs, _, pos), s) \<Rightarrow> Inr (bs, pos, s))"
| "do_call T f (Write left bs) pos s =
     (case proc_write T of
        None \<Rightarrow> Inr ([], pos, s)
      | Some h \<Rightarrow> map_sum id (\<lambda>(_, s). ([], pos, s)) (h left bs s))"
| "do_call T f (Lseek off whence) pos s =
     (case proc_lseek T of
        None \<Rightarrow> Inr ([], pos, s)
      | Some h \<Rightarrow> case h f off whence s of (rc, s) \<Rightarrow> Inr ([], if rc < 0 then pos else rc, s))"

fun user_calls :: "('f, 's) proc_ops \<Rightarrow> 'f \<Rightarrow> user_call list \<Rightarrow> int \<Rightarrow> 's \<Rightarrow> fault + string \<times> 's" where
  "user_calls T f [] pos s = Inr ([], s)"
| "user_calls T f (c # cs) pos s =
     (case do_call T f c pos s of
        Inl e \<Rightarrow> Inl e
      | Inr (bs, pos, s) \<Rightarrow> map_sum id (\<lambda>(out, s). (bs @ out, s)) (user_calls T f cs pos s))"

definition session :: "('f, 's) proc_ops \<Rightarrow> user_call list \<Rightarrow> 's \<Rightarrow> fault + string option \<times> 's" where
  "session T cs s =
     (case proc_open T s of
        (Inl _, s) \<Rightarrow> Inr (None, s)
      | (Inr f, s) \<Rightarrow> map_sum id (\<lambda>(out, s). (Some out, snd (proc_release T f s))) (user_calls T f cs 0 s))"

fun sessions :: "('f, 's) proc_ops \<Rightarrow> user_call list list \<Rightarrow> 's \<Rightarrow> fault + string option list \<times> 's" where
  "sessions T [] s = Inr ([], s)"
| "sessions T (cs # css) s =
     (case session T cs s of
        Inl e \<Rightarrow> Inl e
      | Inr (out, s) \<Rightarrow> map_sum id (\<lambda>(outs, s). (out # outs, s)) (sessions T css s))"

lemma map_sum_Inr: "map_sum id h x = Inr y \<longleftrightarrow> (\<exists>z. x = Inr z \<and> y = h z)"
  by (cases x) auto

definition opened :: "string option list \<Rightarrow> nat" where
  "opened outs = length (filter (\<lambda>out. out \<noteq> None) outs)"

text \<open>A file that can always be opened is opened by every session.\<close>

lemma sessions_opened:
  "sessions T css s = Inr (outs, s') \<Longrightarrow> \<forall>s. \<not> isl (fst (proc_open T s)) \<Longrightarrow> opened outs = length css"
proof (induction css arbitrary: s outs)
  case Nil
  then show ?case by (simp add: opened_def)
next
  case (Cons cs css)
  then obtain out s1 outs' where c: "session T cs s = Inr (out, s1)" "sessions T css s1 = Inr (outs', s')" "outs = out # outs'"
    by (auto simp: map_sum_Inr split: sum.splits)
  have "out \<noteq> None"
    using c(1) Cons.prems(2) [rule_format, of s] by (auto simp: session_def map_sum_Inr split: prod.splits sum.splits)
  with Cons.IH [OF c(2) Cons.prems(2)] show ?case by (simp add: c(3) opened_def)
qed

section \<open>What sessions leave behind\<close>

text \<open>The calls of the library that take and give back something.\<close>

fun of_lib :: "kcall \<Rightarrow> bool" where
  "of_lib (Acq r) \<longleftrightarrow> r = SeqBuf \<or> r = SingleOps"
| "of_lib (Rel r) \<longleftrightarrow> r = SeqBuf \<or> r = SingleOps"

abbreviation libcalls :: "'a kmod_scheme \<Rightarrow> kcall list" where
  "libcalls s \<equiv> filter of_lib (calls s)"

text \<open>
  The laws of the library: \<^verbatim>\<open>seq_open\<close> allocates the \<^verbatim>\<open>struct seq_file\<close>, \<^verbatim>\<open>single_open\<close> also the operations,
  both nothing when they fail; \<^verbatim>\<open>seq_release\<close> frees the \<^verbatim>\<open>struct seq_file\<close> with its buffer (and
  \<^verbatim>\<open>single_release\<close>, which no module calls, both); reading and seeking leave them.
\<close>

definition seqlib_laws :: "('f, 'a kmod_scheme) seqlib \<Rightarrow> bool" where
  "seqlib_laws L \<longleftrightarrow>
     (\<forall>ops s r s'. seq_open L ops s = (r, s') \<longrightarrow> libcalls s' = libcalls s @ (if isl r then [] else [Acq SeqBuf])) \<and>
     (\<forall>sh s r s'. single_open L sh s = (r, s') \<longrightarrow> libcalls s' = libcalls s @ (if isl r then [] else [Acq SingleOps, Acq SeqBuf])) \<and>
     (\<forall>f left pos s. libcalls (snd (seq_read L f left pos s)) = libcalls s) \<and>
     (\<forall>f off whence s. libcalls (snd (seq_lseek L f off whence s)) = libcalls s) \<and>
     (\<forall>f s. libcalls (snd (seq_release L f s)) = libcalls s @ [Rel SeqBuf])"

text \<open>
  The contract of a table: what one session takes and gives back, whatever the user does in it.
\<close>

locale proc_file =
  fixes table :: "'l \<Rightarrow> ('f, 'a kmod_scheme) proc_ops" and lawful :: "'l \<Rightarrow> bool"
    and taken given left :: "kres list"
  assumes opens: "lawful L \<Longrightarrow> proc_open (table L) s = (r, s') \<Longrightarrow>
      libcalls s' = libcalls s @ (if isl r then [] else map Acq taken)"
    and reads: "lawful L \<Longrightarrow> proc_read (table L) f lft pos s = (q, s') \<Longrightarrow> libcalls s' = libcalls s"
    and writes: "lawful L \<Longrightarrow> proc_write (table L) = Some h \<Longrightarrow> h lft bs s = Inr (rc, s') \<Longrightarrow> libcalls s' = libcalls s"
    and seeks: "lawful L \<Longrightarrow> proc_lseek (table L) = Some g \<Longrightarrow> g f off whence s = (rc, s') \<Longrightarrow> libcalls s' = libcalls s"
    and releases: "lawful L \<Longrightarrow> proc_release (table L) f s = (rc, s') \<Longrightarrow> libcalls s' = libcalls s @ map Rel given"
    and remains: "outstanding (map Acq taken @ map Rel given) held = Some (left @ held)"
begin

lemma call_keeps:
  "lawful L \<Longrightarrow> do_call (table L) f c pos s = Inr (out, pos', s') \<Longrightarrow> libcalls s' = libcalls s"
  by (cases c) (auto split: option.splits prod.splits sum.splits simp: map_sum_Inr dest: reads writes seeks)

lemma calls_keep:
  "lawful L \<Longrightarrow> user_calls (table L) f cs pos s = Inr (out, s') \<Longrightarrow> libcalls s' = libcalls s"
proof (induction cs arbitrary: pos s out)
  case Nil
  then show ?case by simp
next
  case (Cons c cs)
  then show ?case by (fastforce simp: map_sum_Inr split: sum.splits dest: call_keeps)
qed

lemma session_leaves:
  assumes "lawful L" "session (table L) cs s = Inr (out, s')" "outstanding (libcalls s) [] = Some held"
  shows "outstanding (libcalls s') [] = Some ((if out = None then [] else left) @ held)"
proof (cases "proc_open (table L) s")
  case (Pair r s1)
  note o = opens [OF assms(1) Pair]
  show ?thesis
  proof (cases r)
    case (Inl e)
    with assms Pair o show ?thesis by (simp add: session_def)
  next
    case (Inr f)
    then obtain bs s2 where s2: "user_calls (table L) f cs 0 s1 = Inr (bs, s2)"
      "out = Some bs" "s' = snd (proc_release (table L) f s2)"
      using assms(2) Pair by (auto simp: session_def map_sum_Inr)
    then have "libcalls s' = libcalls s2 @ map Rel given"
      using releases [OF assms(1), of f s2 "fst (proc_release (table L) f s2)" s'] by simp
    then show ?thesis
      using calls_keep [OF assms(1) s2(1)] s2(2) o Inr assms(3) remains [of held]
      by (simp add: outstanding_append)
  qed
qed

lemma sessions_leave:
  assumes "lawful L" "sessions (table L) css s = Inr (outs, s')" "outstanding (libcalls s) [] = Some held"
  shows "outstanding (libcalls s') [] = Some (concat (replicate (opened outs) left) @ held)"
  using assms(2,3)
proof (induction css arbitrary: s outs held)
  case Nil
  then show ?case by (simp add: opened_def)
next
  case (Cons cs css)
  then obtain out s1 outs' where c: "session (table L) cs s = Inr (out, s1)" "sessions (table L) css s1 = Inr (outs', s')" "outs = out # outs'"
    by (auto simp: map_sum_Inr split: sum.splits)
  have "concat (replicate n left) @ left = left @ concat (replicate n left)" for n
    by (induction n) simp_all
  with Cons.IH [OF c(2) session_leaves [OF assms(1) c(1) Cons.prems(2)]] show ?case
    by (simp add: opened_def c(3))
qed

end

section \<open>The five tables\<close>

lemmas law_defs = seqlib_laws_def ct_file_ops_def single_file_ops_def tasklet_fops_def wq_fops_def fortune_fops_def
  ct_seq_open_def ct_seq_read_def ct_seq_lseek_def ct_seq_release_def
  single_open_op_def single_read_op_def single_lseek_op_def single_release_op_def
  tasklet_open_def tasklet_read_def tasklet_release_def wq_open_def wq_read_def wq_release_def

interpretation seq_table: proc_file "ct_file_ops tasks current" seqlib_laws "[SeqBuf]" "[SeqBuf]" "[]" for tasks current
  by unfold_locales (auto simp: law_defs has_child_def, (metis snd_conv calls_primitives(1))+)

lemma single_write_calls: "single_write left bs s = Inr (rc, s') \<Longrightarrow> calls s' = calls s"
  by (auto simp: single_write_def Let_def split: if_splits option.splits sum.splits)

lemma fortuneRead_calls: "fortuneRead left pos s = Inr (bs, rc, pos', s') \<Longrightarrow> calls s' = calls s"
  by (auto simp: fortuneRead_def Let_def split: if_splits option.splits prod.splits)

lemma fortuneWrite_calls: "fortuneWrite left bs s = Inr (rc, s') \<Longrightarrow> calls s' = calls s"
  by (auto simp: fortuneWrite_def Let_def split: if_splits option.splits sum.splits)

interpretation single_table: proc_file "single_file_ops kstrtoint find_pid find_task tasks" seqlib_laws "[SingleOps, SeqBuf]" "[SeqBuf]" "[SingleOps]"
    for kstrtoint find_pid find_task tasks
  by unfold_locales (auto simp: law_defs has_child_def single_write_calls, (metis snd_conv calls_primitives(1))+)

interpretation tasklet_table: proc_file tasklet_fops seqlib_laws "[SingleOps, SeqBuf]" "[]" "[SeqBuf, SingleOps]"
  by unfold_locales (auto simp: law_defs has_child_def, (metis snd_conv calls_primitives(1))+)

interpretation wq_table: proc_file wq_fops seqlib_laws "[SingleOps, SeqBuf]" "[]" "[SeqBuf, SingleOps]"
  by unfold_locales (auto simp: law_defs has_child_def, (metis snd_conv calls_primitives(1))+)

interpretation fortune_table: proc_file "\<lambda>_ :: unit. fortune_fops" "\<lambda>_. True" "[]" "[]" "[]"
  by unfold_locales (auto simp: law_defs has_child_def fortuneOpen_def fortuneRelease_def fortuneWrite_calls fortuneRead_calls
      split: if_splits sum.splits)

section \<open>One record through the library\<close>

lemma cstr_split: "NUL \<in> set bs \<Longrightarrow> \<exists>rest. bs = cstr bs @ NUL # rest"
  unfolding cstr_def by (induction bs) auto

text \<open>
  What \<^verbatim>\<open>single_open\<close> and \<^verbatim>\<open>seq_read\<close> do with one record, as far as the module sees it: opening only
  allocates; the first read with a buffer that takes it all calls the function given at opening once,
  on the state at that time, and delivers its text, if that function does not call the library itself.
\<close>

definition lib_free :: "'a kmod_scheme show_fun \<Rightarrow> bool" where
  "lib_free sh \<longleftrightarrow> (\<forall>s text s'. sh s = Inr (text, s') \<longrightarrow> libcalls s' = libcalls s)"

definition one_record :: "('f, 'a kmod_scheme) seqlib \<Rightarrow> bool" where
  "one_record L \<longleftrightarrow>
     (\<forall>sh s r s'. single_open L sh s = (r, s') \<longrightarrow>
        s' = s\<lparr>calls := calls s @ (if isl r then [] else [Acq SingleOps, Acq SeqBuf])\<rparr> \<and>
        (\<forall>f t. r = Inr f \<and> lib_free sh \<longrightarrow> seq_read L f 0 0 t =
           (case sh t of Inl e \<Rightarrow> (Inl e, t) | Inr (text, t') \<Rightarrow> (Inr (text, int (length text), int (length text)), t')))) \<and>
     (\<forall>f s. snd (seq_release L f s) = s\<lparr>calls := calls s @ [Rel SeqBuf]\<rparr>)"

text \<open>The text a read of the single-record file shows for the text written.\<close>

definition shown :: "(string \<Rightarrow> int option) \<Rightarrow> (int \<Rightarrow> bool) \<Rightarrow> (int \<Rightarrow> addr option) \<Rightarrow> tasks \<Rightarrow> string \<Rightarrow> string" where
  "shown kstrtoint find_pid find_task tasks t =
     (case kstrtoint t of
        None \<Rightarrow> t @ '': pid must be an integer'' @ newline
      | Some p \<Rightarrow>
        case (if find_pid p then find_task p else None) of
          None \<Rightarrow> fmt_d p @ '': no such task'' @ newline
        | Some a \<Rightarrow> fmt_d p @ '':'' @ newline @ concat (map (\<lambda>f. f @ newline) (task_fields tasks (tasks a))))"

lemma single_show_lib_free: "lib_free (single_show kstrtoint find_pid find_task tasks)"
  by (auto simp: lib_free_def single_show_def Let_def split: option.splits if_splits)

lemma single_show_shown:
  assumes "cookie_buf s = Some (t @ NUL # rest)" "no_nul t"
  shows "\<exists>s'. single_show kstrtoint find_pid find_task tasks s = Inr (shown kstrtoint find_pid find_task tasks t, s')"
  using assms cstr_terminated [OF assms(2), of rest]
  by (auto simp: single_show_def shown_def Let_def split: option.splits)

lemma single_ok_calls [simp]: "single_ok (s\<lparr>calls := cs\<rparr>) = single_ok s" "single_ok (printk m s) = single_ok s"
  by (simp_all add: single_ok_def)

lemma one_recordD:
  assumes "one_record L"
  shows "single_open L sh s = (r, s') \<Longrightarrow> s' = s\<lparr>calls := calls s @ (if isl r then [] else [Acq SingleOps, Acq SeqBuf])\<rparr>"
    "single_open L sh s = (Inr f, s') \<Longrightarrow> lib_free sh \<Longrightarrow> seq_read L f 0 0 t =
       (case sh t of Inl e \<Rightarrow> (Inl e, t) | Inr (text, t') \<Rightarrow> (Inr (text, int (length text), int (length text)), t'))"
    "snd (seq_release L f s) = s\<lparr>calls := calls s @ [Rel SeqBuf]\<rparr>"
  using assms unfolding one_record_def by blast+

text \<open>One session of each kind on the single-record file.\<close>

lemma write_session:
  assumes L: "one_record L" and "single_ok s" "bs \<noteq> []" "length bs \<le> COOKIE_BUF_SIZE"
  shows "\<exists>out s'. session (single_file_ops kstrtoint find_pid find_task tasks L) [Write 0 bs] s = Inr (out, s') \<and> single_ok s' \<and>
    (out = None \<or> out = Some [] \<and> (\<exists>rest. cookie_buf s' = Some (butlast bs @ NUL # rest)))"
proof -
  obtain r s1 where o: "single_open L (single_show kstrtoint find_pid find_task tasks) (printk ''seq: call seq_open'' s) = (r, s1)"
    by fastforce
  have ok: "single_ok s1" unfolding one_recordD(1) [OF L o] using assms(2) by simp
  from single_write_ok [OF this assms(3,4)] obtain s2 rest where
    "single_write 0 bs s1 = Inr (int (length bs), s2)" "single_ok s2" "cookie_buf s2 = Some (butlast bs @ NUL # rest)" by blast
  then show ?thesis
    using o ok
    by (cases r) (simp_all add: session_def single_file_ops_def single_open_op_def single_release_op_def one_recordD(3) [OF L])
qed

lemma read_session:
  assumes L: "one_record L" and "cookie_buf s = Some (t @ NUL # rest)" "no_nul t"
  shows "\<exists>out s'. session (single_file_ops kstrtoint find_pid find_task tasks L) [Read 0] s = Inr (out, s') \<and>
    (out = None \<or> out = Some (shown kstrtoint find_pid find_task tasks t))"
proof -
  obtain r s1 where o: "single_open L (single_show kstrtoint find_pid find_task tasks) (printk ''seq: call seq_open'' s) = (r, s1)"
    by fastforce
  have "cookie_buf (printk ''seq: call seq_read'' s1) = Some (t @ NUL # rest)"
    unfolding one_recordD(1) [OF L o] using assms(2) by simp
  from single_show_shown [OF this assms(3)] obtain s2 where
    "single_show kstrtoint find_pid find_task tasks (printk ''seq: call seq_read'' s1) = Inr (shown kstrtoint find_pid find_task tasks t, s2)"
    by blast
  then show ?thesis
    using o one_recordD(2) [OF L _ single_show_lib_free]
    by (cases r) (simp_all add: session_def single_file_ops_def single_open_op_def single_read_op_def)
qed

section \<open>What is left per opening\<close>

definition leaves :: "('f, 'a kmod_scheme) proc_ops \<Rightarrow> kres list \<Rightarrow> bool" where
  "leaves T left \<longleftrightarrow> (\<forall>css s outs s'. outstanding (libcalls s) [] = Some [] \<longrightarrow> sessions T css s = Inr (outs, s') \<longrightarrow>
     outstanding (libcalls s') [] = Some (concat (replicate (opened outs) left)))"

section \<open>Properties\<close>

text \<open>
  C19: What sessions on the files of /proc leave behind. Whatever users read, write and seek, and however many
  times the files are opened: the files of \<^verbatim>\<open>fortune.c\<close> and \<^verbatim>\<open>seq_file.c\<close> give back everything the
  library allocated; every successful opening of the file of \<^verbatim>\<open>single_file.c\<close> leaves the operations
  made by \<^verbatim>\<open>single_open\<close>, as it is closed with \<^verbatim>\<open>seq_release\<close>; and every opening of the files of
  \<^verbatim>\<open>tasklet.c\<close> and \<^verbatim>\<open>mywq.c\<close> leaves the operations and the open file's own record, as their release
  functions release nothing.
\<close>

theorem proc_sessions_leave:
  assumes "seqlib_laws Ls" "seqlib_laws L1" "seqlib_laws Lt" "seqlib_laws Lw"
  shows "leaves fortune_fops [] \<and> leaves (ct_file_ops tasks current Ls) [] \<and>
    leaves (single_file_ops kstrtoint find_pid find_task tasks L1) [SingleOps] \<and>
    leaves (tasklet_fops Lt) [SeqBuf, SingleOps] \<and> leaves (wq_fops Lw) [SeqBuf, SingleOps]"
  unfolding leaves_def
  using fortune_table.sessions_leave seq_table.sessions_leave [OF assms(1)] single_table.sessions_leave [OF assms(2)]
    tasklet_table.sessions_leave [OF assms(3)] wq_table.sessions_leave [OF assms(4)]
  by (auto dest!: meta_spec)

text \<open>
  C38: \<^verbatim>\<open>echo\<close> into the single-record file and \<^verbatim>\<open>cat\<close> of it, through the table: neither session
  faults, and if both can open the file the second prints the descriptor of the process whose
  id was written, or that there is none or that the text is no number.
\<close>

theorem echo_then_cat:
  assumes "one_record L" "single_ok s" "no_nul t" "length t < COOKIE_BUF_SIZE"
  shows "\<exists>outs s'. sessions (single_file_ops kstrtoint find_pid find_task tasks L) [[Write 0 (t @ newline)], [Read 0]] s = Inr (outs, s') \<and>
    (opened outs = 2 \<longrightarrow> outs = [Some [], Some (shown kstrtoint find_pid find_task tasks t)])"
proof -
  let ?T = "single_file_ops kstrtoint find_pid find_task tasks L"
  obtain out s1 where w: "session ?T [Write 0 (t @ newline)] s = Inr (out, s1)" "single_ok s1"
    "out = None \<or> out = Some [] \<and> (\<exists>rest. cookie_buf s1 = Some (t @ NUL # rest))"
    using write_session [OF assms(1,2), of "t @ newline"] assms(4) by (fastforce simp: newline_def)
  obtain buf where b: "cookie_buf s1 = Some buf" "NUL \<in> set buf" using w(2) by (rule single_okE)
  obtain rest where rest: "cookie_buf s1 = Some ((if out = None then cstr buf else t) @ NUL # rest)"
    using w(3) b cstr_split [of buf] by fastforce
  have "no_nul (if out = None then cstr buf else t)" using assms(3) by simp
  from read_session [OF assms(1) rest this] obtain out' s2 where
    "session ?T [Read 0] s1 = Inr (out', s2)"
    "out' = None \<or> out' = Some (shown kstrtoint find_pid find_task tasks (if out = None then cstr buf else t))"
    by blast
  with w(1,3) show ?thesis by (auto simp: opened_def)
qed

section \<open>A library that keeps the laws\<close>

text \<open>It lives in the module's state only as far as the record of calls; a handle is the function to show.\<close>

definition plain_seqlib :: "('a kmod_scheme show_fun, 'a kmod_scheme) seqlib" where
  "plain_seqlib =
     \<lparr>seq_open = (\<lambda>ops s. (Inr (show ops None), acquire SeqBuf s)),
      single_open = (\<lambda>sh s. (Inr sh, acquire SeqBuf (acquire SingleOps s))),
      seq_read = (\<lambda>sh left pos s. case sh s of
          Inl e \<Rightarrow> (Inl e, s)
        | Inr (text, s') \<Rightarrow>
            (Inr (text, int (length text), int (length text)), if libcalls s' = libcalls s then s' else s)),
      seq_lseek = (\<lambda>sh off whence s. (off, s)),
      seq_release = (\<lambda>sh s. (0, release SeqBuf s))\<rparr>"

lemma plain_laws: "seqlib_laws plain_seqlib"
  by (auto simp: seqlib_laws_def plain_seqlib_def acquire_def release_def split: sum.splits)

theorem proc_sessions_leave_witness:
  "case sessions (tasklet_fops plain_seqlib) [[], []] tmod_fresh of
     Inl e \<Rightarrow> False
   | Inr (outs, s') \<Rightarrow> opened outs = 2 \<and> outstanding (libcalls s') [] = Some [SeqBuf, SingleOps, SeqBuf, SingleOps]"
proof -
  obtain s' where s: "sessions (tasklet_fops plain_seqlib) [[], []] tmod_fresh = Inr ([Some [], Some []], s')"
    by (simp add: session_def tasklet_fops_def plain_seqlib_def tasklet_open_def)
  have o: "opened [Some [], Some []] = 2" by (simp add: opened_def)
  have "leaves (tasklet_fops plain_seqlib) [SeqBuf, SingleOps]"
    using proc_sessions_leave [OF plain_laws plain_laws plain_laws plain_laws] by blast
  then have "outstanding (libcalls s') [] = Some (concat (replicate 2 [SeqBuf, SingleOps]))"
    using s o unfolding leaves_def by (metis (no_types, lifting) filter.simps(1) outstanding.simps(1) tmod.select_convs(1) kmod.select_convs(2) tmod_fresh_def)
  with s o show ?thesis by (simp add: numeral_2_eq_2)
qed

lemma plain_one_record: "one_record plain_seqlib"
  by (auto simp: one_record_def plain_seqlib_def acquire_def release_def lib_free_def split: sum.splits)

theorem echo_then_cat_witness:
  "\<exists>s'. sessions (single_file_ops (\<lambda>t. if t = ''7'' then Some 7 else None) (\<lambda>p. True) (\<lambda>p. None) (\<lambda>_. sample_task) plain_seqlib)
      [[Write 0 (''7'' @ newline)], [Read 0]]
      (snd (single_init \<lparr>ok_vmalloc = True, ok_mkdir = True, ok_create = True, ok_symlink = True\<rparr> single_fresh)) =
    Inr ([Some [], Some (''7: no such task'' @ newline)], s')"
proof -
  let ?s = "snd (single_init \<lparr>ok_vmalloc = True, ok_mkdir = True, ok_create = True, ok_symlink = True\<rparr> single_fresh)"
  let ?T = "single_file_ops (\<lambda>t. if t = ''7'' then Some 7 else None) (\<lambda>p. True) (\<lambda>p. None) (\<lambda>_. sample_task) plain_seqlib"
  have "single_ok ?s" by (rule single_ok_init) simp_all
  from echo_then_cat [OF plain_one_record this, of "''7''" "\<lambda>t. if t = ''7'' then Some 7 else None" "\<lambda>p. True" "\<lambda>p. None" "\<lambda>_. sample_task"]
  obtain outs s' where o: "sessions ?T [[Write 0 (''7'' @ newline)], [Read 0]] ?s = Inr (outs, s')"
    and two: "opened outs = 2 \<longrightarrow> outs = [Some [], Some (shown (\<lambda>t. if t = ''7'' then Some 7 else None) (\<lambda>p. True) (\<lambda>p. None) (\<lambda>_. sample_task) ''7'')]"
    by (auto simp: no_nul_def COOKIE_BUF_SIZE_def PAGE_SIZE_def)
  have "opened outs = 2"
    using sessions_opened [OF o] by (simp add: single_file_ops_def plain_seqlib_def single_open_op_def)
  moreover have "fmt_d 7 = ''7''" by code_simp
  ultimately show ?thesis using o two by (simp add: shown_def)
qed

end
