(* ===== verification/Myfs.thy ===== *)
theory Myfs
  imports Kernel_Calls
begin

text \<open>
  The file system module \<^verbatim>\<open>7/vfs/main.c\<close>: its superblock and root inode, mounting, and the slab
  cache of inodes that loading fills and unloading empties. What the kernel's functions return
  is an argument of the model.
\<close>

section \<open>Superblocks and inodes\<close>

record inode =
  i_ino :: nat
  i_mode :: "32 word"
  i_size :: nat
  i_time :: nat                   \<comment> \<open>\<^verbatim>\<open>i_atime\<close>, \<^verbatim>\<open>i_mtime\<close> and \<^verbatim>\<open>i_ctime\<close>, always set together\<close>
  i_nlink :: nat
  i_op :: string                  \<comment> \<open>the table of operations, by name\<close>
  i_fop :: string
  i_private :: string

record super_block =
  s_blocksize :: nat
  s_blocksize_bits :: nat
  s_magic :: "64 word"
  s_op :: string
  s_time_gran :: nat
  s_root :: "inode option"

definition PAGE_SHIFT :: nat where "PAGE_SHIFT = 12"
definition S_IFDIR :: "32 word" where "S_IFDIR = 0x4000"
definition MYFS_MAGIC_NUMBER :: "64 word" where "MYFS_MAGIC_NUMBER = 0x13131313"

abbreviation dir_mode :: "32 word" where "dir_mode \<equiv> or S_IFDIR 0x1ED"

section \<open>The superblock\<close>

text \<open>
  \<open>new\<close> is the inode \<^verbatim>\<open>new_inode\<close> returns, \<open>ok_root\<close> tells whether \<^verbatim>\<open>d_make_root\<close> succeeds; it
  takes over the reference to the inode, also when it fails. On its failure the code calls
  \<^verbatim>\<open>d_genocide\<close> with the null pointer it got, which that function dereferences.
\<close>

definition my_simple_fill_super ::
  "inode option \<Rightarrow> bool \<Rightarrow> nat \<Rightarrow> super_block \<Rightarrow> kmod \<Rightarrow> fault + int \<times> super_block \<times> kmod" where
  "my_simple_fill_super new ok_root now sb s =
     (let sb = sb\<lparr>s_blocksize := PAGE_SIZE, s_blocksize_bits := PAGE_SHIFT, s_magic := MYFS_MAGIC_NUMBER,
          s_op := ''myfs_sup_ops'', s_time_gran := 1\<rparr> in
      case new of
        None \<Rightarrow> Inr (- ENOMEM, sb, printk ''MYFS inode allocation failed!'' s)
      | Some ind \<Rightarrow>
        let s = acquire InodeRef s;
            ind = ind\<lparr>i_ino := 1, i_mode := dir_mode, i_time := now,
              i_op := ''myfs_inode_ops'', i_fop := ''myfs_fops'', i_nlink := 2\<rparr>;
            s = release InodeRef s
        in if \<not> ok_root then Inl NullDeref
           else Inr (0, sb\<lparr>s_root := Some ind\<rparr>, acquire RootDentry s))"

definition myfs_put_super :: "kmod \<Rightarrow> kmod" where
  "myfs_put_super s = printk ''MYFS superblock destroy called'' s"

text \<open>\<open>kill_anon_super\<close> is the kernel's.\<close>

definition my_kill_block_super :: "(kmod \<Rightarrow> kmod) \<Rightarrow> kmod \<Rightarrow> kmod" where
  "my_kill_block_super kill_anon_super s = kill_anon_super (printk ''MYFS kill super block'' s)"

text \<open>
  \<open>mount_nodev\<close> is the kernel's: given the function that fills the superblock, it returns an
  error or the root of the mounted file system.
\<close>

definition myfs_mount ::
  "((super_block \<Rightarrow> kmod \<Rightarrow> fault + int \<times> super_block \<times> kmod) \<Rightarrow> kmod \<Rightarrow> fault + (int + inode) \<times> kmod)
     \<Rightarrow> inode option \<Rightarrow> bool \<Rightarrow> nat \<Rightarrow> kmod \<Rightarrow> fault + (int + inode) \<times> kmod" where
  "myfs_mount mount_nodev new ok_root now s =
     (case mount_nodev (my_simple_fill_super new ok_root now) s of
        Inl f \<Rightarrow> Inl f
      | Inr (Inl err, s) \<Rightarrow> Inr (Inl err, printk ''MYFS mounting failed !'' s)
      | Inr (Inr entry, s) \<Rightarrow> Inr (Inr entry, printk ''MYFS mounted!'' s))"

section \<open>The slab cache\<close>

record myfs = kmod +
  cache :: bool
  slab :: "nat option list option" \<comment> \<open>the array of objects; an object is named by a number\<close>

definition myfs_fresh :: myfs where
  "myfs_fresh = \<lparr>klog = [], calls = [], cache = False, slab = None\<rparr>"

definition number :: nat where "number = 128"

text \<open>The constructor stores the low 32 bits of the object's address in it, as an \<^verbatim>\<open>int\<close>.\<close>

definition ctor :: "64 word \<Rightarrow> int" where
  "ctor p = sint (ucast p :: 32 word)"

text \<open>What the kernel's functions do while the module is loaded.\<close>

record myfs_env =
  ret_register :: int
  ok_kmalloc :: bool
  ok_cache :: bool
  ok_alloc :: "nat \<Rightarrow> bool"

text \<open>
  \<^verbatim>\<open>for (j = 0; j < n; j++) kmem_cache_free(cache, slab[j]);\<close> an entry that holds no object is released all the same,
  which the record of calls shows as the release of an object that is not held.
\<close>

definition free_object :: "nat \<Rightarrow> myfs \<Rightarrow> myfs" where
  "free_object j s = (case slab s of None \<Rightarrow> release (CacheObj j) s
     | Some a \<Rightarrow> (case a ! j of None \<Rightarrow> release (CacheObj j) s | Some x \<Rightarrow> release (CacheObj x) s))"

definition free_objects :: "nat \<Rightarrow> myfs \<Rightarrow> myfs" where
  "free_objects n s = fold free_object [0..<n] s"

function alloc_loop :: "(nat \<Rightarrow> bool) \<Rightarrow> nat \<Rightarrow> myfs \<Rightarrow> int \<times> myfs" where
  "alloc_loop ok i s =
     (if i < number then
        if \<not> ok i then
          (- ENOMEM, release (KMem ''slab'') (release (Cache ''myfs_slab'') (free_objects i
             (printk ''MYFS_MODULE kmem_cache_alloc error'' s))))
        else alloc_loop ok (i + 1) (acquire (CacheObj i) (s\<lparr>slab := map_option (\<lambda>a. a[i := Some i]) (slab s)\<rparr>))
      else (0, printk ''MYFS_MODULE loaded'' s))"
  by pat_completeness auto

termination
  by (relation "measure (\<lambda>(ok, i, s). number - i)") auto

declare alloc_loop.simps [simp del]

definition myfs_init :: "myfs_env \<Rightarrow> myfs \<Rightarrow> int \<times> myfs" where
  "myfs_init e s =
     (if ret_register e \<noteq> 0
      then (ret_register e, printk ''MYFS_MODULE cannot register filesystem!'' s)
      else let s = acquire (FsType ''myfs'') s in
      if \<not> ok_kmalloc e then (- ENOMEM, printk ''MYFS_MODULE kmalloc error'' (s\<lparr>slab := None\<rparr>))
      else let s = acquire (KMem ''slab'') (s\<lparr>slab := Some (replicate number None)\<rparr>) in
      if \<not> ok_cache e
      then (- ENOMEM, release (KMem ''slab'') (printk ''MYFS_MODULE kmem_cache_create error'' (s\<lparr>cache := False\<rparr>)))
      else alloc_loop (ok_alloc e) 0 (acquire (Cache ''myfs_slab'') (s\<lparr>cache := True\<rparr>)))"

text \<open>\<open>ret\<close> is what \<^verbatim>\<open>unregister_filesystem\<close> returns: zero for a file system that is registered.\<close>

definition myfs_exit :: "int \<Rightarrow> myfs \<Rightarrow> myfs" where
  "myfs_exit ret s =
     (let s = printk ''MYFS_MODULE unloading'' s;
          s = free_objects number s;
          s = release (KMem ''slab'') (release (Cache ''myfs_slab'') s);
          s = printk ''MYFS_MODULE cache mem freed'' s;
          s = (if ret \<noteq> 0 then printk ''MYFS_MODULE cannot unregister filesystem !'' s
               else release (FsType ''myfs'') s)
      in printk ''MYFS_MODULE unloaded !'' s)"

section \<open>The loops\<close>

text \<open>The array after the first \<open>i\<close> allocations.\<close>

definition filled :: "nat \<Rightarrow> nat option list" where
  "filled i = map Some [0..<i] @ replicate (number - i) None"

lemma filled_step: "i < number \<Longrightarrow> (filled i)[i := Some i] = filled (i + 1)"
  by (simp add: filled_def list_update_append replicate_append_same
      Suc_diff_Suc [symmetric] del: replicate_Suc) (simp add: Suc_diff_Suc [symmetric])

lemma free_objects_calls:
  "slab s = Some (filled i) \<Longrightarrow> n \<le> i \<Longrightarrow>
    calls (free_objects n s) = calls s @ map (\<lambda>j. Rel (CacheObj j)) [0..<n]"
  (is "?A \<Longrightarrow> ?B \<Longrightarrow> ?C")
proof -
  assume A: ?A and B: ?B
  have "slab (free_objects n s) = slab s \<and> ?C"
    using B
  proof (induction n)
    case 0
    then show ?case by (simp add: free_objects_def)
  next
    case (Suc n)
    then have "slab (free_objects n s) = Some (filled i)"
      and "calls (free_objects n s) = calls s @ map (\<lambda>j. Rel (CacheObj j)) [0..<n]" using A by auto
    moreover have "filled i ! n = Some n" using Suc.prems by (simp add: filled_def nth_append)
    moreover have "free_objects (Suc n) s = free_object n (free_objects n s)"
      by (simp add: free_objects_def)
    ultimately show ?case using A by (simp add: free_object_def release_def)
  qed
  then show ?C ..
qed

lemma alloc_loop_calls:
  assumes "slab s = Some (filled i)" "i \<le> number"
  shows "if \<forall>k\<in>{i..<number}. ok k
    then fst (alloc_loop ok i s) = 0 \<and> slab (snd (alloc_loop ok i s)) = Some (filled number) \<and>
      calls (snd (alloc_loop ok i s)) = calls s @ map Acq (map CacheObj [i..<number])
    else fst (alloc_loop ok i s) = - ENOMEM \<and> (\<exists>n\<ge>i. n < number \<and>
      calls (snd (alloc_loop ok i s)) = calls s @ map Acq (map CacheObj [i..<n]) @
        map Rel (map CacheObj [0..<n]) @ [Rel (Cache ''myfs_slab''), Rel (KMem ''slab'')])"
  using assms
proof (induction ok i s rule: alloc_loop.induct)
  case (1 ok i s)
  let ?s = "acquire (CacheObj i) (s\<lparr>slab := map_option (\<lambda>a. a[i := Some i]) (slab s)\<rparr>)"
  consider "i = number" | "i < number" "\<not> ok i" | "i < number" "ok i" using "1.prems" by linarith
  then show ?case
  proof cases
    case 1
    with "1.prems" show ?thesis by (subst (1 2 3 4 5) alloc_loop.simps) (simp add: printk_def)
  next
    case 2
    let ?p = "printk ''MYFS_MODULE kmem_cache_alloc error'' s"
    have "calls (free_objects i ?p) = calls s @ map (\<lambda>j. Rel (CacheObj j)) [0..<i]"
      using "1.prems" free_objects_calls [of ?p i i] by (simp add: printk_def)
    with 2 show ?thesis
      by (subst (1 2 3 4 5) alloc_loop.simps) (auto intro!: exI [of _ i] simp: comp_def)
  next
    case 3
    have s: "slab ?s = Some (filled (i + 1))" "calls ?s = calls s @ [Acq (CacheObj i)]"
      using 3 "1.prems" by (simp_all add: acquire_def filled_step)
    have all: "(\<forall>k\<in>{i..<number}. ok k) \<longleftrightarrow> (\<forall>k\<in>{i + 1..<number}. ok k)"
      using 3 by (auto simp: Suc_le_eq le_less)
    have step: "alloc_loop ok i s = alloc_loop ok (i + 1) ?s" using 3 by (subst alloc_loop.simps) simp
    have up: "[i..<n] = i # [i + 1..<n]" if "i + 1 \<le> n" for n using that by (simp add: upt_conv_Cons)
    from 3 have "i + 1 \<le> number" by simp
    note ih = "1.IH" [OF 3(1) _ s(1) this, unfolded s(2)]
    show ?thesis
    proof (cases "\<forall>k\<in>{i + 1..<number}. ok k")
      case True
      with ih 3(2) show ?thesis unfolding all step by (simp add: up [OF \<open>i + 1 \<le> number\<close>])
    next
      case False
      with ih 3(2) obtain n where n: "i + 1 \<le> n" "n < number" "fst (alloc_loop ok (i + 1) ?s) = - ENOMEM"
        "calls (snd (alloc_loop ok (i + 1) ?s)) = (calls s @ [Acq (CacheObj i)]) @ map Acq (map CacheObj [i + 1..<n]) @
          map Rel (map CacheObj [0..<n]) @ [Rel (Cache ''myfs_slab''), Rel (KMem ''slab'')]"
        by (simp only: if_False not_not) blast
      then show ?thesis
        using False unfolding all step by (auto simp: up [OF n(1)] intro!: exI [of _ n])
    qed
  qed
qed


section \<open>Balance\<close>

lemma objects_taken_and_freed:
  assumes "CacheObj ` {0..<n} \<inter> set held = {}" "distinct held"
  shows "outstanding (map Acq (map CacheObj [0..<n]) @ map Rel (map CacheObj [0..<n]) @ rest) held =
    outstanding rest held"
proof -
  have "outstanding (map Rel (map CacheObj [0..<n])) (rev (map CacheObj [0..<n]) @ held) =
      Some (filter (\<lambda>r. r \<notin> set (map CacheObj [0..<n])) (rev (map CacheObj [0..<n]) @ held))"
    using assms by (intro outstanding_releases) (auto simp: distinct_map inj_on_def has_child_def)
  also have "filter (\<lambda>r. r \<notin> set (map CacheObj [0..<n])) (rev (map CacheObj [0..<n]) @ held) = held"
    using assms(1) by (auto simp: filter_empty_conv filter_id_conv)
  finally show ?thesis by (simp only: outstanding_append outstanding_acquires Option.bind.simps)
qed

lemma init_cases:
  shows "if ret_register e \<noteq> 0 then myfs_init e myfs_fresh = (ret_register e,
        printk ''MYFS_MODULE cannot register filesystem!'' myfs_fresh)
    else if ok_kmalloc e \<and> ok_cache e \<and> (\<forall>k\<in>{0..<number}. ok_alloc e k)
    then fst (myfs_init e myfs_fresh) = 0 \<and> slab (snd (myfs_init e myfs_fresh)) = Some (filled number) \<and>
      calls (snd (myfs_init e myfs_fresh)) =
        [Acq (FsType ''myfs''), Acq (KMem ''slab''), Acq (Cache ''myfs_slab'')] @ map Acq (map CacheObj [0..<number])
    else fst (myfs_init e myfs_fresh) = - ENOMEM \<and>
      outstanding (calls (snd (myfs_init e myfs_fresh))) [] = Some [FsType ''myfs'']"
proof (cases "ret_register e = 0 \<and> ok_kmalloc e \<and> ok_cache e")
  case False
  then show ?thesis
    by (cases "ok_kmalloc e") (auto simp: myfs_init_def Let_def myfs_fresh_def ENOMEM_def has_child_def
        printk_def acquire_def release_def)
next
  case True
  define s where "s = acquire (Cache ''myfs_slab'') ((acquire (KMem ''slab'')
    ((acquire (FsType ''myfs'') myfs_fresh)\<lparr>slab := Some (replicate number None)\<rparr>))\<lparr>cache := True\<rparr>)"
  have init: "myfs_init e myfs_fresh = alloc_loop (ok_alloc e) 0 s"
    using True by (simp add: myfs_init_def Let_def s_def)
  have s: "slab s = Some (filled 0)"
    "calls s = [Acq (FsType ''myfs''), Acq (KMem ''slab''), Acq (Cache ''myfs_slab'')]"
    by (simp_all add: s_def acquire_def filled_def myfs_fresh_def)
  have undone: "outstanding (calls s @ map Acq (map CacheObj [0..<n]) @ map Rel (map CacheObj [0..<n]) @
      [Rel (Cache ''myfs_slab''), Rel (KMem ''slab'')]) [] = Some [FsType ''myfs'']" for n
    unfolding s(2) append.simps outstanding.simps
    by (subst objects_taken_and_freed) (auto simp: has_child_def)
  show ?thesis
    using alloc_loop_calls [OF s(1), of "ok_alloc e"] True undone unfolding init s(2) by (auto split: if_splits)
qed


lemma exit_calls:
  assumes "slab s = Some (filled number)"
  shows "calls (myfs_exit 0 s) = calls s @ map Rel (map CacheObj [0..<number]) @
    [Rel (Cache ''myfs_slab''), Rel (KMem ''slab''), Rel (FsType ''myfs'')]"
proof -
  let ?p = "printk ''MYFS_MODULE unloading'' s"
  have "calls (free_objects number ?p) = calls s @ map (\<lambda>j. Rel (CacheObj j)) [0..<number]"
    using assms free_objects_calls [of ?p number number] by (simp add: printk_def)
  then show ?thesis by (simp add: myfs_exit_def Let_def comp_def)
qed

interpretation myfs_mod: exiting_module myfs_fresh myfs_init "myfs_exit 0" calls slab
proof (unfold_locales, goal_cases)
  case (1 env m m')
  then have "ret_register env = 0" by (auto simp: myfs_init_def split: if_splits)
  with 1 init_cases [of env] have "slab m' = Some (filled number)"
    "calls m' = [Acq (FsType ''myfs''), Acq (KMem ''slab''), Acq (Cache ''myfs_slab'')] @
      map Acq (map CacheObj [0..<number])"
    by (auto simp: ENOMEM_def split: if_splits)
  then have "calls (myfs_exit 0 m') = Acq (FsType ''myfs'') # Acq (KMem ''slab'') # Acq (Cache ''myfs_slab'') #
      map Acq (map CacheObj [0..<number]) @ map Rel (map CacheObj [0..<number]) @
      [Rel (Cache ''myfs_slab''), Rel (KMem ''slab''), Rel (FsType ''myfs'')]"
    by (simp add: exit_calls)
  also have "outstanding \<dots> [] = Some []"
    unfolding outstanding.simps by (subst objects_taken_and_freed) (auto simp: has_child_def)
  finally show ?case .
qed

section \<open>Properties\<close>

text \<open>
  C17: Loading the file system module: if some object of the slab cannot be allocated, exactly
  the objects allocated before it are freed, then the cache and the array, and loading fails
  with \<^verbatim>\<open>ENOMEM\<close>. But whenever loading fails after the file system was registered, the file
  system stays registered, with its table in the memory of a module that is gone.
\<close>

theorem myfs_failed_load:
  assumes "ret_register e = 0"
    and "\<not> (ok_kmalloc e \<and> ok_cache e \<and> list_all (ok_alloc e) [0..<number])"
  shows "fst (myfs_init e myfs_fresh) = - ENOMEM \<and>
    outstanding (calls (snd (myfs_init e myfs_fresh))) [] = Some [FsType ''myfs'']"
  using init_cases [of e] assms by (auto simp: list_all_iff split: if_splits)

theorem myfs_failed_load_witness:
  "fst (myfs_init \<lparr>ret_register = 0, ok_kmalloc = True, ok_cache = True, ok_alloc = \<lambda>i. i < 100\<rparr> myfs_fresh) = - ENOMEM"
proof -
  have "\<not> list_all (\<lambda>i. i < 100) [0..<number]"
    by (auto simp: number_def list_all_iff intro!: bexI [of _ 100])
  then show ?thesis
    using myfs_failed_load [of "\<lparr>ret_register = 0, ok_kmalloc = True, ok_cache = True, ok_alloc = \<lambda>i. i < 100\<rparr>"]
    by simp
qed

text \<open>
  After a successful load, any use that leaves the array of objects alone, and an unload,
  the module has freed each of its 128 objects once, before their cache, and everything else.
\<close>

theorem myfs_balanced:
  assumes "ret_register e = 0" "ok_kmalloc e" "ok_cache e" "list_all (ok_alloc e) [0..<number]"
    and "\<And>m. slab (use m) = slab m" "\<And>m. calls (use m) = calls m"
  shows "outstanding (life myfs_fresh myfs_init (myfs_exit 0) calls e use) [] = Some []"
  using init_cases [of e] assms by (intro myfs_mod.loaded_life_balanced) (auto simp: list_all_iff split: if_splits)

theorem myfs_balanced_witness:
  "outstanding (life myfs_fresh myfs_init (myfs_exit 0) calls
     \<lparr>ret_register = 0, ok_kmalloc = True, ok_cache = True, ok_alloc = \<lambda>i. True\<rparr> (printk ''used'')) [] = Some []"
  by (rule myfs_balanced) (simp_all add: list_all_iff printk_def)

text \<open>
  Filling the superblock keeps no inode reference on any path that returns; it reports
  \<^verbatim>\<open>ENOMEM\<close> without a root and success with one, a directory with mode 0755 in both its read and
  search bits, and blocks of \<^verbatim>\<open>2^s_blocksize_bits\<close> bytes. It does not return if the root cannot be made.
\<close>

theorem myfs_fill_super:
  assumes "s_root sb = None"
  shows "(my_simple_fill_super new ok_root now sb s = Inl NullDeref \<longleftrightarrow> new \<noteq> None \<and> \<not> ok_root) \<and>
    (\<forall>rc sb' s'. my_simple_fill_super new ok_root now sb s = Inr (rc, sb', s') \<longrightarrow>
      s_blocksize sb' = 2 ^ s_blocksize_bits sb' \<and>
      (rc = - ENOMEM \<and> s_root sb' = None \<and> calls s' = calls s \<or>
       rc = 0 \<and> (\<exists>ind. s_root sb' = Some ind \<and> and (i_mode ind) 0xF000 = S_IFDIR \<and> and (i_mode ind) 0x16D = 0x16D) \<and>
         outstanding (calls s') [] = map_option (Cons RootDentry) (outstanding (calls s) [])))"
  using assms
  by (auto simp: my_simple_fill_super_def Let_def PAGE_SIZE_def PAGE_SHIFT_def S_IFDIR_def outstanding_append
      has_child_def split: option.splits if_splits) (cases "outstanding (calls s) []"; simp add: has_child_def)

theorem myfs_fill_super_witness:
  "my_simple_fill_super (Some \<lparr>i_ino = 9, i_mode = 0, i_size = 0, i_time = 0, i_nlink = 1, i_op = [], i_fop = [], i_private = []\<rparr>)
     False 5 \<lparr>s_blocksize = 0, s_blocksize_bits = 0, s_magic = 0, s_op = [], s_time_gran = 0, s_root = None\<rparr>
     \<lparr>klog = [], calls = []\<rparr> = Inl NullDeref"
  using myfs_fill_super [of "\<lparr>s_blocksize = 0, s_blocksize_bits = 0, s_magic = 0, s_op = [], s_time_gran = 0, s_root = None\<rparr>"]
  by simp

end
