(* ===== verification/My_Vfs.thy ===== *)
theory My_Vfs
  imports Myfs
begin

text \<open>
  The second file system module, \<^verbatim>\<open>7/vfs/myvfs.c\<close>: one object of a slab cache, and a root inode
  made by a function of its own.
\<close>

section \<open>The superblock\<close>

definition MYVFS_MAGIC_NUMBER :: "64 word" where "MYVFS_MAGIC_NUMBER = 0xAAAABBBB"

text \<open>
  \<open>new\<close> is what \<^verbatim>\<open>new_inode\<close> returns. \<^verbatim>\<open>inode_init_owner\<close> with no parent directory sets the mode.
\<close>

definition my_vfs_make_inode :: "inode option \<Rightarrow> nat \<Rightarrow> 32 word \<Rightarrow> kmod \<Rightarrow> inode option \<times> kmod" where
  "my_vfs_make_inode new now mode s =
     (case new of
        None \<Rightarrow> (None, printk ''MyVFS: struct inode created'' s)
      | Some ind \<Rightarrow>
        (Some (ind\<lparr>i_mode := mode, i_size := PAGE_SIZE, i_time := now, i_private := ''my_vfs_inode'', i_ino := 1\<rparr>),
         printk ''MyVFS: struct inode created'' (acquire InodeRef s)))"

text \<open>\<^verbatim>\<open>d_make_root\<close> takes over the reference to the inode, also when it fails.\<close>

definition my_vfs_fill_sb ::
  "inode option \<Rightarrow> bool \<Rightarrow> nat \<Rightarrow> super_block \<Rightarrow> kmod \<Rightarrow> int \<times> super_block \<times> kmod" where
  "my_vfs_fill_sb new ok_root now sb s =
     (let sb = sb\<lparr>s_blocksize := PAGE_SIZE, s_blocksize_bits := PAGE_SHIFT, s_magic := MYVFS_MAGIC_NUMBER,
          s_op := ''my_vfs_sup_ops''\<rparr> in
      case my_vfs_make_inode new now dir_mode s of
        (None, s) \<Rightarrow> (- ENOMEM, sb, printk ''MyVFS: my_vfs_make_inode error'' s)
      | (Some ind, s) \<Rightarrow>
        let ind = ind\<lparr>i_time := now, i_op := ''simple_dir_inode_operations'', i_fop := ''simple_dir_operations''\<rparr>;
            s = release InodeRef s
        in if \<not> ok_root
           then (- ENOMEM, sb\<lparr>s_root := None\<rparr>, release InodeRef (printk ''MyVFS: d_make_root error'' s))
           else (0, sb\<lparr>s_root := Some ind\<rparr>, printk ''MyVFS: super_block init''
              (printk ''MyVFS: VFS root created'' (acquire RootDentry s))))"

definition my_vfs_put_super :: "kmod \<Rightarrow> kmod" where
  "my_vfs_put_super s = printk ''MyVFS: super block destroyed!'' s"

definition my_kill_litter_super :: "(kmod \<Rightarrow> kmod) \<Rightarrow> kmod \<Rightarrow> kmod" where
  "my_kill_litter_super kill_litter_super s = kill_litter_super (printk ''MyVFS: my_kill_litter_super'' s)"

definition my_vfs_mount ::
  "((super_block \<Rightarrow> kmod \<Rightarrow> int \<times> super_block \<times> kmod) \<Rightarrow> kmod \<Rightarrow> (int + inode) \<times> kmod)
     \<Rightarrow> inode option \<Rightarrow> bool \<Rightarrow> nat \<Rightarrow> kmod \<Rightarrow> (int + inode) \<times> kmod" where
  "my_vfs_mount mount_nodev new ok_root now s =
     (case mount_nodev (my_vfs_fill_sb new ok_root now) s of
        (Inl err, s) \<Rightarrow> (Inl err, printk ''MyVFS: mounting failed'' s)
      | (Inr root, s) \<Rightarrow> (Inr root, printk ''MyVFS: mounted'' s))"

section \<open>Loading and unloading\<close>

definition func_init :: "64 word \<Rightarrow> int" where
  "func_init p = sint (ucast p :: 32 word)"

record my_vfs_env =
  ret_reg :: int
  ok_area :: bool
  ok_create :: bool
  ok_object :: bool

definition my_vfs_init :: "my_vfs_env \<Rightarrow> kmod \<Rightarrow> int \<times> kmod" where
  "my_vfs_init e s =
     (if ret_reg e \<noteq> 0 then (ret_reg e, printk ''MyVFS: register_filesystem error'' s)
      else let s = acquire (FsType ''MyVFS'') s in
      if \<not> ok_area e then (- ENOMEM, printk ''MyVFS: cache_mem_area error'' s)
      else let s = acquire (KMem ''cache_mem_area'') s in
      if \<not> ok_create e
      then (- ENOMEM, release (KMem ''cache_mem_area'') (printk ''MyVFS: kmem_cache_create error'' s))
      else let s = acquire (Cache ''MyVFSCache'') s in
      if \<not> ok_object e
      then (- ENOMEM, release (KMem ''cache_mem_area'') (release (Cache ''MyVFSCache'')
             (release (CacheObj 0) (printk ''MyVFS: kmem_cache_alloc error'' s))))
      else (0, printk ''MyVFS: loaded'' (acquire (CacheObj 0) s)))"

definition my_vfs_exit :: "int \<Rightarrow> kmod \<Rightarrow> kmod" where
  "my_vfs_exit ret s =
     (let s = release (KMem ''cache_mem_area'') (release (Cache ''MyVFSCache'') (release (CacheObj 0) s));
          s = (if ret \<noteq> 0 then printk ''MyVFS: unregister_filesystem error'' s
               else release (FsType ''MyVFS'') s)
      in printk ''MyVFS: exit'' s)"

abbreviation kmod_fresh :: kmod where "kmod_fresh \<equiv> \<lparr>klog = [], calls = []\<rparr>"

interpretation my_vfs_mod: exiting_module kmod_fresh my_vfs_init "my_vfs_exit 0" calls "\<lambda>_. ()"
proof (unfold_locales, goal_cases)
  case (1 env m m')
  then have "ret_reg env = 0 \<and> ok_area env \<and> ok_create env \<and> ok_object env"
    by (auto simp: my_vfs_init_def Let_def ENOMEM_def split: if_splits)
  with 1 have "calls m' = calls (snd (my_vfs_init env kmod_fresh))" "ret_reg env = 0" "ok_area env"
    "ok_create env" "ok_object env" by simp_all
  then have "calls m' = [Acq (FsType ''MyVFS''), Acq (KMem ''cache_mem_area''), Acq (Cache ''MyVFSCache''), Acq (CacheObj 0)]"
    by (simp add: my_vfs_init_def Let_def)
  then show ?case by (simp add: my_vfs_exit_def Let_def has_child_def)
qed

section \<open>Properties\<close>

text \<open>
  What a failing load of the second file system module leaves behind: nothing if the file
  system cannot be registered; the registration if the array or the cache cannot be had; and if
  the object cannot be allocated, the module frees an object it never got.
\<close>

theorem my_vfs_failed_load:
  assumes "fst (my_vfs_init e kmod_fresh) \<noteq> 0"
  shows "outstanding (calls (snd (my_vfs_init e kmod_fresh))) [] =
    (if ret_reg e \<noteq> 0 then Some []
     else if \<not> ok_area e \<or> \<not> ok_create e then Some [FsType ''MyVFS'']
     else None)"
  using assms by (cases "ok_area e"; cases "ok_create e"; cases "ok_object e")
    (auto simp: my_vfs_init_def Let_def has_child_def)

theorem my_vfs_failed_load_witness:
  "outstanding (calls (snd (my_vfs_init
     \<lparr>ret_reg = 0, ok_area = True, ok_create = True, ok_object = False\<rparr> kmod_fresh))) [] = None"
  using my_vfs_failed_load [of "\<lparr>ret_reg = 0, ok_area = True, ok_create = True, ok_object = False\<rparr>"]
  by (simp add: my_vfs_init_def Let_def ENOMEM_def)

text \<open>
  After a successful load and any use that makes no further calls, the second file system
  module gives everything back when it is unloaded.
\<close>

theorem my_vfs_balanced:
  assumes "fst (my_vfs_init e kmod_fresh) = 0" "\<And>m. calls (use m) = calls m"
  shows "outstanding (life kmod_fresh my_vfs_init (my_vfs_exit 0) calls e use) [] = Some []"
  using assms by (intro my_vfs_mod.loaded_life_balanced) simp_all

theorem my_vfs_balanced_witness:
  "outstanding (life kmod_fresh my_vfs_init (my_vfs_exit 0) calls
     \<lparr>ret_reg = 0, ok_area = True, ok_create = True, ok_object = True\<rparr> my_vfs_put_super) [] = Some []"
  by (rule my_vfs_balanced) (simp_all add: my_vfs_init_def Let_def my_vfs_put_super_def)

text \<open>
  Filling the superblock of the second file system: the inode reference is dropped once on
  every path but one; if the root cannot be made, it is dropped a second time.
\<close>

theorem my_vfs_fill_sb_references:
  "outstanding (calls (snd (snd (my_vfs_fill_sb new ok_root now sb kmod_fresh)))) [] =
     (if new = None then Some [] else if ok_root then Some [RootDentry] else None)"
  by (auto simp: my_vfs_fill_sb_def my_vfs_make_inode_def Let_def has_child_def split: option.splits)

end
