(* ===== verification/Vfs_Mounts.thy ===== *)
theory Vfs_Mounts
  imports My_Vfs
begin

text \<open>
  The file systems of \<^verbatim>\<open>7/vfs\<close> in use: the tables of super operations and the file-system types the
  modules register, and mounting and unmounting through them, any number of times. The VFS is a
  parameter with documented laws.
\<close>

section \<open>The tables\<close>

text \<open>The functions of the kernel are named; the module's own are given.\<close>

record super_ops =
  put_super :: "kmod \<Rightarrow> kmod"
  statfs :: string
  drop_inode :: string

definition myfs_sup_ops :: super_ops where
  "myfs_sup_ops = \<lparr>put_super = myfs_put_super, statfs = ''simple_statfs'', drop_inode = ''generic_delete_inode''\<rparr>"

definition my_vfs_sup_ops :: super_ops where
  "my_vfs_sup_ops = \<lparr>put_super = my_vfs_put_super, statfs = ''simple_statfs'', drop_inode = ''generic_delete_inode''\<rparr>"

definition sup_ops :: "string \<rightharpoonup> super_ops" where
  "sup_ops = [''myfs_sup_ops'' \<mapsto> myfs_sup_ops, ''my_vfs_sup_ops'' \<mapsto> my_vfs_sup_ops]"

text \<open>
  A function that fills a superblock, and what mounting yields: an error number or the root. A type is
  given \<^verbatim>\<open>mount_nodev\<close>, and the function its \<^verbatim>\<open>kill_sb\<close> hands over to. \<open>new\<close>, \<open>ok_root\<close> and \<open>now\<close>
  are the results of \<^verbatim>\<open>new_inode\<close>, \<^verbatim>\<open>d_make_root\<close> and the clock.
\<close>

type_synonym filler = "super_block \<Rightarrow> kmod \<Rightarrow> fault + int \<times> super_block \<times> kmod"
type_synonym nodev = "filler \<Rightarrow> kmod \<Rightarrow> fault + (int + inode) \<times> kmod"
type_synonym killer = "super_block \<Rightarrow> kmod \<Rightarrow> kmod"

record fs_type =
  fs_name :: string
  fs_mount :: "nodev \<Rightarrow> inode option \<Rightarrow> bool \<Rightarrow> nat \<Rightarrow> kmod \<Rightarrow> fault + (int + inode) \<times> kmod"
  fs_kill_sb :: "killer \<Rightarrow> killer"

definition myfs_type :: fs_type where
  "myfs_type = \<lparr>fs_name = ''myfs'', fs_mount = myfs_mount, fs_kill_sb = (\<lambda>kill_anon_super sb. my_kill_block_super (kill_anon_super sb))\<rparr>"

text \<open>The function that fills the superblock of the second file system always returns.\<close>

definition my_vfs_type :: fs_type where
  "my_vfs_type =
     \<lparr>fs_name = ''MyVFS'',
      fs_mount = (\<lambda>mount_nodev new ok_root now s.
        Inr (my_vfs_mount (\<lambda>fill s. projr (mount_nodev (\<lambda>sb s. Inr (fill sb s)) s)) new ok_root now s)),
      fs_kill_sb = (\<lambda>kill_litter_super sb. my_kill_litter_super (kill_litter_super sb))\<rparr>"

section \<open>The laws of the VFS\<close>

definition sb_empty :: super_block where
  "sb_empty = \<lparr>s_blocksize = 0, s_blocksize_bits = 0, s_magic = 0, s_op = [], s_time_gran = 0, s_root = None\<rparr>"

text \<open>
  Both \<^verbatim>\<open>kill_anon_super\<close> and \<^verbatim>\<open>kill_litter_super\<close> shut a superblock down: if it has a root, the root is
  dropped and \<^verbatim>\<open>put_super\<close> of its operations called.
\<close>

definition shutdown_law :: "killer \<Rightarrow> bool" where
  "shutdown_law k \<longleftrightarrow> (\<forall>sb s. k sb s =
     (if s_root sb = None then s
      else case sup_ops (s_op sb) of None \<Rightarrow> release RootDentry s | Some ops \<Rightarrow> put_super ops (release RootDentry s)))"

text \<open>
  \<^verbatim>\<open>mount_nodev\<close> may fail before it has a superblock; it fills a new one, gives it to \<^verbatim>\<open>kill_sb\<close> if that
  fails, and otherwise returns its root.
\<close>

definition mount_law :: "killer \<Rightarrow> nodev \<Rightarrow> bool" where
  "mount_law kill M \<longleftrightarrow> (\<forall>fill s.
     (\<exists>err<0. M fill s = Inr (Inl err, s)) \<or>
     M fill s = (case fill sb_empty s of
        Inl f \<Rightarrow> Inl f
      | Inr (rc, sb, s') \<Rightarrow> if rc = 0 then Inr (Inr (the (s_root sb)), s') else Inr (Inl rc, kill sb s')))"

definition vfs_law :: "fs_type \<Rightarrow> killer \<Rightarrow> nodev \<Rightarrow> bool" where
  "vfs_law T k M \<longleftrightarrow> shutdown_law k \<and> mount_law (fs_kill_sb T k) M"

section \<open>Mounting and unmounting\<close>

text \<open>
  The state and the superblocks that are mounted. A mount that succeeds adds the superblock that was
  filled, which the VFS keeps with its root; \<open>fill\<close> is the function the type mounts with, \<open>happens\<close> says what
  \<^verbatim>\<open>new_inode\<close> and \<^verbatim>\<open>d_make_root\<close> may return.
\<close>

inductive fs_step ::
  "(inode option \<Rightarrow> bool \<Rightarrow> bool) \<Rightarrow> fs_type \<Rightarrow> (inode option \<Rightarrow> bool \<Rightarrow> nat \<Rightarrow> filler) \<Rightarrow> killer \<Rightarrow> nodev \<Rightarrow> kmod \<times> super_block list \<Rightarrow> kmod \<times> super_block list \<Rightarrow> bool"
  for happens T fill k M where
  mounts: "happens new ok_root \<Longrightarrow> fs_mount T M new ok_root now s = Inr (Inr root, s') \<Longrightarrow> fill new ok_root now sb_empty s = Inr (0, sb, s1) \<Longrightarrow>
    s_root sb = Some root \<Longrightarrow> fs_step happens T fill k M (s, live) (s', sb # live)"
| fails: "happens new ok_root \<Longrightarrow> fs_mount T M new ok_root now s = Inr (Inl err, s') \<Longrightarrow> fs_step happens T fill k M (s, live) (s', live)"
| unmounts: "i < length live \<Longrightarrow>
    fs_step happens T fill k M (s, live) (fs_kill_sb T k (live ! i) s, take i live @ drop (Suc i) live)"

text \<open>What is held: the root of every superblock mounted, and nothing else.\<close>

definition roots_held :: "kmod \<times> super_block list \<Rightarrow> bool" where
  "roots_held = (\<lambda>(s, live). outstanding (calls s) [] = Some (replicate (length live) RootDentry) \<and>
     (\<forall>sb\<in>set live. s_root sb \<noteq> None))"

text \<open>
  The contract of a file system: filling a superblock fails without holding anything, or yields a root
  and holds it; mounting and killing only write to the log beyond what the VFS does.
\<close>

locale file_system =
  fixes T :: fs_type and fill :: "inode option \<Rightarrow> bool \<Rightarrow> nat \<Rightarrow> filler" and sound :: "inode option \<Rightarrow> bool \<Rightarrow> bool"
  assumes fills: "sound new ok_root \<Longrightarrow> fill new ok_root now sb_empty s = Inr (rc, sb, s') \<Longrightarrow>
      outstanding (calls s) [] = Some held \<Longrightarrow>
      (if rc = 0 then s_root sb \<noteq> None \<and> outstanding (calls s') [] = Some (RootDentry # held)
       else s_root sb = None \<and> outstanding (calls s') [] = Some held)"
    and mount_logs: "mount_law kill M \<Longrightarrow> fs_mount T M new ok_root now s = Inr (r, s') \<Longrightarrow>
      \<exists>s1. M (fill new ok_root now) s = Inr (r, s1) \<and> calls s' = calls s1"
    and kill_logs: "\<exists>s1. fs_kill_sb T k sb s = k sb s1 \<and> calls s1 = calls s"
begin

lemma kill_calls:
  assumes "shutdown_law k"
  shows "calls (fs_kill_sb T k sb s) = calls s @ (if s_root sb = None then [] else [Rel RootDentry])"
proof -
  have put: "calls (put_super ops t) = calls t" if "sup_ops n = Some ops" for n ops t
    using that by (auto simp: sup_ops_def myfs_sup_ops_def my_vfs_sup_ops_def myfs_put_super_def my_vfs_put_super_def split: if_splits)
  obtain s1 where "fs_kill_sb T k sb s = k sb s1" "calls s1 = calls s" using kill_logs by blast
  with assms show ?thesis by (auto simp: shutdown_law_def put split: option.splits)
qed

lemma mount_calls:
  assumes "vfs_law T k M" "sound new ok_root" "fs_mount T M new ok_root now s = Inr (r, s')"
    and "outstanding (calls s) [] = Some held"
  shows "outstanding (calls s') [] = Some ((if isl r then [] else [RootDentry]) @ held)"
proof -
  obtain s1 where s1: "M (fill new ok_root now) s = Inr (r, s1)" "calls s' = calls s1"
    using mount_logs [of "fs_kill_sb T k" M, OF _ assms(3)] assms(1) by (auto simp: vfs_law_def)
  consider (early) err where "M (fill new ok_root now) s = Inr (Inl err, s)"
    | (filled) "M (fill new ok_root now) s = (case fill new ok_root now sb_empty s of
        Inl f \<Rightarrow> Inl f
      | Inr (rc, sb, s') \<Rightarrow> if rc = 0 then Inr (Inr (the (s_root sb)), s') else Inr (Inl rc, fs_kill_sb T k sb s'))"
    using assms(1) unfolding vfs_law_def mount_law_def by blast
  then show ?thesis
  proof cases
    case early
    with s1 assms(4) show ?thesis by auto
  next
    case filled
    with s1(1) obtain rc sb s2 where f: "fill new ok_root now sb_empty s = Inr (rc, sb, s2)"
      and m: "Inr (r, s1) = (if rc = 0 then Inr (Inr (the (s_root sb)), s2) else Inr (Inl rc, fs_kill_sb T k sb s2) :: fault + _)"
      by (cases "fill new ok_root now sb_empty s") auto
    from fills [OF assms(2) f assms(4)] m s1(2) kill_calls [of k sb s2] assms(1) show ?thesis
      by (auto simp: vfs_law_def split: if_splits)
  qed
qed

lemma step_keeps:
  assumes "vfs_law T k M" "\<And>new ok_root. happens new ok_root \<Longrightarrow> sound new ok_root"
    and "fs_step happens T fill k M a b" "roots_held a"
  shows "roots_held b"
  using assms(3,4)
proof cases
  case (mounts new ok_root now s root s' sb s1 live)
  with assms(4) mount_calls [OF assms(1) assms(2) [OF mounts(3)] mounts(4)] show ?thesis
    by (auto simp: roots_held_def)
next
  case (fails new ok_root now s err s' live)
  with assms(4) mount_calls [OF assms(1) assms(2) [OF fails(3)] fails(4)] show ?thesis
    by (auto simp: roots_held_def)
next
  case (unmounts i live s)
  have "live \<noteq> []" using unmounts(3) by auto
  then obtain n where n: "length live = Suc n" by (cases live) auto
  have "calls (fs_kill_sb T k (live ! i) s) = calls s @ [Rel RootDentry]"
    using kill_calls [of k "live ! i" s] assms(1,4) unmounts nth_mem [OF unmounts(3)] by (auto simp: vfs_law_def roots_held_def)
  moreover have "length (take i live @ drop (Suc i) live) = n" using unmounts(3) n by simp
  moreover have "outstanding [Rel RootDentry] (replicate (Suc n) RootDentry) = Some (replicate n RootDentry)"
    by (simp add: has_child_def)
  moreover have "s_root sb \<noteq> None" if "sb \<in> set (take i live @ drop (Suc i) live)" for sb
    using that assms(4) unmounts(1) by (auto simp: roots_held_def dest: in_set_takeD in_set_dropD)
  ultimately show ?thesis
    using assms(4) n unfolding unmounts(1,2) roots_held_def by (simp add: outstanding_append)
qed

lemma reachable_roots:
  assumes "vfs_law T k M" "\<And>new ok_root. happens new ok_root \<Longrightarrow> sound new ok_root"
    and "reachable (\<lambda>a. a = (kmod_fresh, [])) (fs_step happens T fill k M) a"
  shows "roots_held a"
  using assms(3)
proof (induction rule: reachable.induct)
  case (reach_init s)
  then show ?case by (simp add: roots_held_def)
next
  case (reach_step s t)
  from assms(1,2) reach_step.hyps(2) reach_step.IH show ?case by (rule step_keeps)
qed

end

section \<open>Both file systems\<close>

interpretation myfs_system: file_system myfs_type my_simple_fill_super "\<lambda>_ _. True"
proof (unfold_locales, goal_cases)
  case (1 new ok_root now s rc sb s' held)
  then show ?case
    by (auto simp: my_simple_fill_super_def Let_def ENOMEM_def sb_empty_def outstanding_append has_child_def
        split: option.splits if_splits)
next
  case (2 kill M new ok_root now s r s')
  then show ?case
    by (cases "M (my_simple_fill_super new ok_root now) s") (auto simp: myfs_type_def myfs_mount_def split: sum.splits)
next
  case (3 k sb s)
  show ?case by (rule exI [of _ "printk ''MYFS kill super block'' s"]) (simp add: myfs_type_def my_kill_block_super_def)
qed

definition my_vfs_filler :: "inode option \<Rightarrow> bool \<Rightarrow> nat \<Rightarrow> filler" where
  "my_vfs_filler new ok_root now = (\<lambda>sb s. Inr (my_vfs_fill_sb new ok_root now sb s))"

interpretation my_vfs_system: file_system my_vfs_type my_vfs_filler "\<lambda>new ok_root. new = None \<or> ok_root"
proof (unfold_locales, goal_cases)
  case (1 new ok_root now s rc sb s' held)
  then show ?case
    by (auto simp: my_vfs_filler_def my_vfs_fill_sb_def my_vfs_make_inode_def Let_def ENOMEM_def sb_empty_def
        outstanding_append has_child_def split: option.splits if_splits)
next
  case (2 kill M new ok_root now s r s')
  have "\<not> isl (M (my_vfs_filler new ok_root now) s)"
    using 2(1) unfolding mount_law_def my_vfs_filler_def
    by (auto dest!: spec [of _ "\<lambda>sb s. Inr (my_vfs_fill_sb new ok_root now sb s)"] spec [of _ s] split: prod.splits if_splits)
  then obtain q s1 where q: "M (my_vfs_filler new ok_root now) s = Inr (q, s1)" by (cases "M (my_vfs_filler new ok_root now) s") auto
  then show ?case using 2(2)
    by (auto simp: my_vfs_type_def my_vfs_mount_def my_vfs_filler_def split: sum.splits)
next
  case (3 k sb s)
  show ?case by (rule exI [of _ "printk ''MyVFS: my_kill_litter_super'' s"]) (simp add: my_vfs_type_def my_kill_litter_super_def)
qed

text \<open>A mount by the second file system whose root cannot be made.\<close>

lemma root_not_made:
  assumes "vfs_law my_vfs_type k M" "outstanding (calls s) [] = Some (replicate n RootDentry)"
    and "M (my_vfs_filler (Some ind) False now) s = Inr (r, s1)"
  shows "calls s1 = calls s \<or> outstanding (calls s1) [] = None"
proof -
  have fill: "my_vfs_filler (Some ind) False now sb_empty s = Inr (- ENOMEM, sb, t) \<Longrightarrow>
      s_root sb = None \<and> outstanding (calls t) [] = None" for sb t
    using assms(2) by (auto simp: my_vfs_filler_def my_vfs_fill_sb_def my_vfs_make_inode_def Let_def outstanding_append has_child_def)
  obtain sb t where f: "my_vfs_filler (Some ind) False now sb_empty s = Inr (- ENOMEM, sb, t)"
    by (auto simp: my_vfs_filler_def my_vfs_fill_sb_def my_vfs_make_inode_def Let_def)
  have "calls s1 = calls s \<or> s1 = fs_kill_sb my_vfs_type k sb t"
    using assms(1,3) f unfolding vfs_law_def mount_law_def
    by (auto dest!: spec [of _ "my_vfs_filler (Some ind) False now"] spec [of _ s] simp: ENOMEM_def)
  then show ?thesis
    using fill [OF f] my_vfs_system.kill_calls [of k sb t] assms(1) by (auto simp: vfs_law_def)
qed

section \<open>Properties\<close>

text \<open>
  C26: Mounting and unmounting, over all sequences of mounts that succeed or fail and unmounts in any
  order. Through the type of \<^verbatim>\<open>main.c\<close> exactly the roots of the mounted superblocks are held at any time,
  so that a failed mount and an unmount leave nothing (a mount whose root cannot be made does
  not return). The same holds for \<^verbatim>\<open>myvfs.c\<close> as long as every root can be made; the first mount whose
  root cannot be made drops the inode twice.
\<close>

theorem mounts_hold_roots:
  assumes "vfs_law myfs_type k M" "vfs_law my_vfs_type k' M'"
  shows "(reachable (\<lambda>a. a = (kmod_fresh, [])) (fs_step (\<lambda>_ _. True) myfs_type my_simple_fill_super k M) (t, up) \<longrightarrow>
      outstanding (calls t) [] = Some (replicate (length up) RootDentry)) \<and>
    (reachable (\<lambda>a. a = (kmod_fresh, [])) (fs_step (\<lambda>new ok_root. new = None \<or> ok_root) my_vfs_type my_vfs_filler k' M') (s, live) \<longrightarrow>
      outstanding (calls s) [] = Some (replicate (length live) RootDentry) \<and>
      (\<forall>ind now r s'. fs_mount my_vfs_type M' (Some ind) False now s = Inr (r, s') \<longrightarrow>
        calls s' = calls s \<or> outstanding (calls s') [] = None))"
proof (intro conjI impI allI)
  assume "reachable (\<lambda>a. a = (kmod_fresh, [])) (fs_step (\<lambda>_ _. True) myfs_type my_simple_fill_super k M) (t, up)"
  then have "roots_held (t, up)" by (rule myfs_system.reachable_roots [OF assms(1) TrueI])
  then show "outstanding (calls t) [] = Some (replicate (length up) RootDentry)" by (simp add: roots_held_def)
next
  assume r: "reachable (\<lambda>a. a = (kmod_fresh, [])) (fs_step (\<lambda>new ok_root. new = None \<or> ok_root) my_vfs_type my_vfs_filler k' M') (s, live)"
  have "roots_held (s, live)" by (rule my_vfs_system.reachable_roots [OF assms(2) _ r])
  then show held: "outstanding (calls s) [] = Some (replicate (length live) RootDentry)" by (simp add: roots_held_def)
  fix ind now q s'
  assume "fs_mount my_vfs_type M' (Some ind) False now s = Inr (q, s')"
  with assms(2) obtain s1 where "M' (my_vfs_filler (Some ind) False now) s = Inr (q, s1)" "calls s' = calls s1"
    using my_vfs_system.mount_logs [of "fs_kill_sb my_vfs_type k'" M' "Some ind" False now s q s'] by (auto simp: vfs_law_def)
  with root_not_made [OF assms(2)] held show "calls s' = calls s \<or> outstanding (calls s') [] = None" by metis
qed

text \<open>A VFS that obeys the laws, and never fails before it has a superblock.\<close>

definition plain_killer :: killer where
  "plain_killer sb s =
     (if s_root sb = None then s
      else case sup_ops (s_op sb) of None \<Rightarrow> release RootDentry s | Some ops \<Rightarrow> put_super ops (release RootDentry s))"

definition plain_nodev :: "killer \<Rightarrow> nodev" where
  "plain_nodev kill fill s =
     (case fill sb_empty s of
        Inl f \<Rightarrow> Inl f
      | Inr (rc, sb, s') \<Rightarrow> if rc = 0 then Inr (Inr (the (s_root sb)), s') else Inr (Inl rc, kill sb s'))"

lemma plain_vfs: "vfs_law T plain_killer (plain_nodev (fs_kill_sb T plain_killer))"
  by (auto simp: vfs_law_def shutdown_law_def mount_law_def plain_killer_def plain_nodev_def)

abbreviation blank_inode :: inode where
  "blank_inode \<equiv> \<lparr>i_ino = 0, i_mode = 0, i_size = 0, i_time = 0, i_nlink = 1, i_op = [], i_fop = [], i_private = []\<rparr>"

lemmas vfs_run = myfs_type_def myfs_mount_def my_simple_fill_super_def my_vfs_type_def my_vfs_mount_def
  my_vfs_fill_sb_def my_vfs_make_inode_def my_vfs_filler_def plain_nodev_def plain_killer_def Let_def ENOMEM_def
  my_kill_litter_super_def sb_empty_def

theorem mounts_hold_roots_witness:
  "outstanding (calls (snd (projr (fs_mount myfs_type (plain_nodev (fs_kill_sb myfs_type plain_killer))
     (Some blank_inode) True 5 kmod_fresh)))) [] = Some [RootDentry] \<and>
   outstanding (calls (snd (projr (fs_mount my_vfs_type (plain_nodev (fs_kill_sb my_vfs_type plain_killer))
     (Some blank_inode) False 5 kmod_fresh)))) [] = None"
proof -
  let ?M = "plain_nodev (fs_kill_sb myfs_type plain_killer)" and ?M' = "plain_nodev (fs_kill_sb my_vfs_type plain_killer)"
  obtain root t where m: "fs_mount myfs_type ?M (Some blank_inode) True 5 kmod_fresh = Inr (Inr root, t)"
    by (simp add: vfs_run)
  obtain sb s1 where f: "my_simple_fill_super (Some blank_inode) True 5 sb_empty kmod_fresh = Inr (0, sb, s1)" "s_root sb = Some root"
    using m by (auto simp: vfs_run)
  have r: "reachable (\<lambda>a. a = (kmod_fresh, [])) (fs_step (\<lambda>_ _. True) myfs_type my_simple_fill_super plain_killer ?M) (t, [sb])"
  proof (rule reach_step)
    show "reachable (\<lambda>a. a = (kmod_fresh, [])) (fs_step (\<lambda>_ _. True) myfs_type my_simple_fill_super plain_killer ?M) (kmod_fresh, [])"
      by (rule reach_init) simp
    show "fs_step (\<lambda>_ _. True) myfs_type my_simple_fill_super plain_killer ?M (kmod_fresh, []) (t, [sb])"
      by (rule fs_step.mounts) (rule TrueI m f)+
  qed
  obtain q s' where m': "fs_mount my_vfs_type ?M' (Some blank_inode) False 5 kmod_fresh = Inr (q, s')" "calls s' \<noteq> calls kmod_fresh"
    by (simp add: vfs_run)
  show ?thesis
    using mounts_hold_roots [OF plain_vfs plain_vfs, of t "[sb]" kmod_fresh "[]"] r m m'
    by (auto intro: reach_init)
qed

end
