(* ===== verification/Open_Files.thy ===== *)
theory Open_Files
  imports Prelude
begin

text \<open>
  The system calls and stdio functions used by the programs of \<^verbatim>\<open>8/open_file/src\<close>, as far as
  these use them: one file, the table of open-file descriptions (each with its own
  offset), and streams with a buffer of their own on top of a description.
\<close>

section \<open>Descriptions\<close>

record desc =
  off :: nat
  app :: bool                     \<comment> \<open>\<^verbatim>\<open>O_APPEND\<close>\<close>

record os =
  content :: "char list option"   \<comment> \<open>\<open>None\<close> if there is no such file\<close>
  descs :: "desc option list"     \<comment> \<open>by descriptor; \<open>None\<close> once closed\<close>
  out :: "char list"              \<comment> \<open>what was written to standard output\<close>

text \<open>A descriptor; \<open>None\<close> stands for the \<^verbatim>\<open>-1\<close> of a failed \<^verbatim>\<open>open\<close>.\<close>

type_synonym fd = "nat option"

definition sys_open :: "bool \<Rightarrow> os \<Rightarrow> fd \<times> os" where
  "sys_open ap s =
     (case content s of None \<Rightarrow> (None, s)
      | Some _ \<Rightarrow> (Some (length (descs s)), s\<lparr>descs := descs s @ [Some \<lparr>off = 0, app = ap\<rparr>]\<rparr>))"

definition lookup :: "fd \<Rightarrow> os \<Rightarrow> (nat \<times> desc \<times> char list) option" where
  "lookup fd s =
     (case fd of None \<Rightarrow> None
      | Some d \<Rightarrow> if d < length (descs s)
          then (case descs s ! d of None \<Rightarrow> None
                | Some e \<Rightarrow> (case content s of None \<Rightarrow> None | Some c \<Rightarrow> Some (d, e, c)))
          else None)"

text \<open>\<open>None\<close> is the return value \<^verbatim>\<open>-1\<close>, otherwise the bytes read are returned.\<close>

definition sys_read :: "fd \<Rightarrow> nat \<Rightarrow> os \<Rightarrow> char list option \<times> os" where
  "sys_read fd n s =
     (case lookup fd s of None \<Rightarrow> (None, s)
      | Some (d, e, c) \<Rightarrow>
        let bs = take n (drop (off e) c)
        in (Some bs, s\<lparr>descs := (descs s)[d := Some (e\<lparr>off := off e + length bs\<rparr>)]\<rparr>))"

definition sys_write :: "fd \<Rightarrow> char list \<Rightarrow> os \<Rightarrow> nat option \<times> os" where
  "sys_write fd bs s =
     (case lookup fd s of None \<Rightarrow> (None, s)
      | Some (d, e, c) \<Rightarrow>
        let p = (if app e then length c else off e)
        in (Some (length bs), s\<lparr>content := Some (take p c @ replicate (p - length c) NUL @ bs @ drop (p + length bs) c),
             descs := (descs s)[d := Some (e\<lparr>off := p + length bs\<rparr>)]\<rparr>))"

definition sys_close :: "fd \<Rightarrow> os \<Rightarrow> os" where
  "sys_close fd s = (case fd of None \<Rightarrow> s | Some d \<Rightarrow> s\<lparr>descs := (descs s)[d := None]\<rparr>)"

definition emit :: "char list \<Rightarrow> os \<Rightarrow> os" where
  "emit bs s = s\<lparr>out := out s @ bs\<rparr>"

text \<open>
  \<^verbatim>\<open>stat\<close> of the file with inode number \<open>ino\<close>: the inode number and the size; the buffer is left
  alone when there is no file.
\<close>

type_synonym stat = "nat \<times> nat"

definition sys_stat :: "nat \<Rightarrow> os \<Rightarrow> stat \<Rightarrow> stat" where
  "sys_stat ino s statbuf = (case content s of None \<Rightarrow> statbuf | Some c \<Rightarrow> (ino, length c))"

text \<open>What the macro \<^verbatim>\<open>PRINT_STAT\<close> prints after its call of \<^verbatim>\<open>stat\<close>.\<close>

definition stat_line :: "string \<Rightarrow> stat \<Rightarrow> char list" where
  "stat_line action statbuf = action @ '': inode = '' @ digits (fst statbuf) @ '', size = '' @ digits (snd statbuf) @
     '' bytes'' @ [CHR 0x0A]"

definition print_stat :: "string \<Rightarrow> nat \<Rightarrow> os \<times> stat \<Rightarrow> os \<times> stat" where
  "print_stat action ino = (\<lambda>(s, statbuf). let statbuf = sys_stat ino s statbuf in (emit (stat_line action statbuf) s, statbuf))"

text \<open>\<^verbatim>\<open>for (char c = 'a'; c <= 'z'; c++)\<close>\<close>

definition letters :: "char list" where
  "letters = ''abcdefghijklmnopqrstuvwxyz''"

definition odd_char :: "char \<Rightarrow> bool" where
  "odd_char c \<longleftrightarrow> (of_char c :: nat) mod 2 \<noteq> 0"

section \<open>Streams for reading\<close>

record rstream =
  rfd :: nat
  cap :: nat                      \<comment> \<open>the size of its buffer\<close>
  unread :: "char list"

text \<open>\<^verbatim>\<open>fdopen\<close> followed by \<^verbatim>\<open>setvbuf\<close>; the latter dereferences the null pointer of a failed \<^verbatim>\<open>fdopen\<close>.\<close>

definition fdopen_buf :: "fd \<Rightarrow> nat \<Rightarrow> fault + rstream" where
  "fdopen_buf fd n = (case fd of None \<Rightarrow> Inl NullDeref | Some d \<Rightarrow> Inr \<lparr>rfd = d, cap = n, unread = []\<rparr>)"

fun opt_char :: "char option \<Rightarrow> char list" where
  "opt_char None = []"
| "opt_char (Some c) = [c]"

text \<open>\<^verbatim>\<open>fscanf(st, "%c", &c)\<close>: \<open>None\<close> at the end of the file.\<close>

definition fscanf_c :: "rstream \<Rightarrow> os \<Rightarrow> char option \<times> rstream \<times> os" where
  "fscanf_c st s =
     (case unread st of
        b # bs \<Rightarrow> (Some b, st\<lparr>unread := bs\<rparr>, s)
      | [] \<Rightarrow>
        (case sys_read (Some (rfd st)) (cap st) s of
           (Some (b # bs), s) \<Rightarrow> (Some b, st\<lparr>unread := bs\<rparr>, s)
         | (_, s) \<Rightarrow> (None, st, s)))"

section \<open>Streams for writing\<close>

record wstream =
  wfd :: fd
  wcap :: nat
  wbuf :: "char list"

text \<open>\<^verbatim>\<open>fopen\<close> with mode \<^verbatim>\<open>w\<close> or \<^verbatim>\<open>a\<close> creates the file; \<^verbatim>\<open>w\<close> empties it.\<close>

definition fopen_w :: "nat \<Rightarrow> os \<Rightarrow> wstream \<times> os" where
  "fopen_w n s = (case sys_open False (s\<lparr>content := Some []\<rparr>) of (fd, s) \<Rightarrow> (\<lparr>wfd = fd, wcap = n, wbuf = []\<rparr>, s))"

definition fopen_a :: "nat \<Rightarrow> os \<Rightarrow> wstream \<times> os" where
  "fopen_a n s =
     (case sys_open True (s\<lparr>content := Some (case content s of None \<Rightarrow> [] | Some c \<Rightarrow> c)\<rparr>) of
        (fd, s) \<Rightarrow> (\<lparr>wfd = fd, wcap = n, wbuf = []\<rparr>, s))"

text \<open>One character into the buffer, which is written out first when it is full.\<close>

definition fprintf_c :: "char \<Rightarrow> wstream \<Rightarrow> os \<Rightarrow> wstream \<times> os" where
  "fprintf_c b st s =
     (if length (wbuf st) < wcap st then (st\<lparr>wbuf := wbuf st @ [b]\<rparr>, s)
      else case sys_write (wfd st) (wbuf st) s of (_, s) \<Rightarrow> (st\<lparr>wbuf := [b]\<rparr>, s))"

definition fclose :: "wstream \<Rightarrow> os \<Rightarrow> os" where
  "fclose st s = sys_close (wfd st) (snd (sys_write (wfd st) (wbuf st) s))"

section \<open>What is left to read\<close>

definition rest :: "nat \<Rightarrow> os \<Rightarrow> char list option" where
  "rest d s = (case lookup (Some d) s of None \<Rightarrow> None | Some (_, e, c) \<Rightarrow> Some (drop (off e) c))"

lemma lookup_SomeD:
  "lookup (Some d) s = Some (d', e, c) \<Longrightarrow> d' = d \<and> d < length (descs s) \<and> descs s ! d = Some e \<and> content s = Some c"
  by (auto simp: lookup_def split: if_splits option.splits)

lemma lookup_emit [simp]: "lookup fd (emit bs s) = lookup fd s"
  by (simp add: lookup_def emit_def cong: option.case_cong if_cong)

lemma emit_simps [simp]: "content (emit bs s) = content s" "descs (emit bs s) = descs s" "out (emit bs s) = out s @ bs"
  by (simp_all add: emit_def)

lemma rest_emit [simp]: "rest d (emit bs s) = rest d s"
  by (simp add: rest_def)

lemma sys_read_rest:
  assumes "rest d s = Some r"
  obtains s' where "sys_read (Some d) n s = (Some (take n r), s')" "rest d s' = Some (drop n r)" "out s' = out s"
    "content s' = content s" "length (descs s') = length (descs s)" "\<And>d'. d' \<noteq> d \<Longrightarrow> descs s' ! d' = descs s ! d'"
proof -
  obtain e c where l: "lookup (Some d) s = Some (d, e, c)" and r: "r = drop (off e) c"
    using assms by (auto simp: rest_def split: option.splits dest: lookup_SomeD)
  note L = lookup_SomeD [OF l]
  let ?s = "s\<lparr>descs := (descs s)[d := Some (e\<lparr>off := off e + length (take n r)\<rparr>)]\<rparr>"
  have "sys_read (Some d) n s = (Some (take n r), ?s)" by (simp add: sys_read_def l r Let_def)
  moreover have "rest d ?s = Some (drop n r)"
    using L by (simp add: rest_def lookup_def r min_def add.commute)
  ultimately show thesis using that [of ?s] by simp
qed

lemma rest_cong:
  "content s' = content s \<Longrightarrow> length (descs s') = length (descs s) \<Longrightarrow> descs s' ! d = descs s ! d \<Longrightarrow> rest d s' = rest d s"
  by (auto simp: rest_def lookup_def split: option.splits)

text \<open>What a \<^verbatim>\<open>fscanf\<close> takes comes from the stream's buffer, filled from the description when empty.\<close>

definition avail :: "rstream \<Rightarrow> char list \<Rightarrow> char list" where
  "avail st r = (if unread st = [] then take (cap st) r else unread st)"

definition left :: "rstream \<Rightarrow> char list \<Rightarrow> char list" where
  "left st r = (if unread st = [] then drop (cap st) r else r)"

lemma fscanf_c_rest:
  assumes "rest (rfd st) s = Some r" "0 < cap st"
  obtains c st' s' where "fscanf_c st s = (c, st', s')" "avail st r = opt_char c @ unread st'"
    "c = None \<longleftrightarrow> avail st r = []" "rest (rfd st) s' = Some (left st r)"
    "rfd st' = rfd st" "cap st' = cap st" "out s' = out s"
proof (cases "unread st")
  case Nil
  obtain s' where s': "sys_read (Some (rfd st)) (cap st) s = (Some (take (cap st) r), s')"
    "rest (rfd st) s' = Some (drop (cap st) r)" "out s' = out s"
    using assms(1) by (rule sys_read_rest)
  show thesis
  proof (cases "take (cap st) r")
    case Nil': Nil
    show thesis
      by (rule that [of None st s']) (use s' Nil Nil' in \<open>auto simp: fscanf_c_def avail_def left_def\<close>)
  next
    case (Cons b bs)
    show thesis
      by (rule that [of "Some b" "st\<lparr>unread := bs\<rparr>" s'])
        (use s' Nil Cons in \<open>auto simp: fscanf_c_def avail_def left_def\<close>)
  qed
next
  case (Cons b bs)
  show thesis
    by (rule that [of "Some b" "st\<lparr>unread := bs\<rparr>" s])
      (use assms Cons in \<open>auto simp: fscanf_c_def avail_def left_def\<close>)
qed

end
