(* ===== verification/Open_File_Programs.thy ===== *)
theory Open_File_Programs
  imports Open_Files "HOL-Library.Multiset"
begin

text \<open>
  The single-threaded programs of \<^verbatim>\<open>8/open_file/src\<close>: \<^verbatim>\<open>1.c\<close> (two streams on one description),
  \<^verbatim>\<open>2.c\<close> (two descriptions of one file), \<^verbatim>\<open>2_1.c\<close> (two appending descriptions) and \<^verbatim>\<open>3.c\<close> (two
  streams that write the same file).
\<close>

definition initial :: "char list option \<Rightarrow> os" where
  "initial c = \<lparr>content = c, descs = [], out = []\<rparr>"

section \<open>\<^verbatim>\<open>1.c\<close>\<close>

partial_function (option) main1_loop :: "rstream \<Rightarrow> rstream \<Rightarrow> os \<Rightarrow> os option" where
  "main1_loop fs1 fs2 s =
     (case fscanf_c fs1 s of (c1, fs1, s) \<Rightarrow>
      case fscanf_c fs2 (emit (opt_char c1) s) of (c2, fs2, s) \<Rightarrow>
      if c1 \<noteq> None \<or> c2 \<noteq> None then main1_loop fs1 fs2 (emit (opt_char c2) s)
      else Some (emit (opt_char c2) s))"

definition main1 :: "os \<Rightarrow> (fault + os) option" where
  "main1 s =
     (case sys_open False s of (fd, s) \<Rightarrow>
      case fdopen_buf fd 20 of
        Inl f \<Rightarrow> Some (Inl f)
      | Inr fs1 \<Rightarrow>
        (case fdopen_buf fd 20 of
           Inl f \<Rightarrow> Some (Inl f)
         | Inr fs2 \<Rightarrow> map_option Inr (main1_loop fs1 fs2 s)))"

text \<open>The output promised: blocks of 20 characters, two by two, each pair spliced.\<close>

fun spliced :: "char list \<Rightarrow> char list" where
  "spliced [] = []"
| "spliced (x # xs) = splice (take 20 (x # xs)) (take 20 (drop 20 (x # xs))) @ spliced (drop 40 (x # xs))"

declare spliced.simps(2) [simp del]

lemma spliced_unfold: "r \<noteq> [] \<Longrightarrow> spliced r = splice (take 20 r) (take 20 (drop 20 r)) @ spliced (drop 40 r)"
  by (cases r) (simp_all add: spliced.simps(2))

lemma mset_splice: "mset (splice xs ys) = mset xs + mset ys"
  by (induction xs ys rule: splice.induct) auto

lemma mset_spliced: "mset (spliced r) = mset r"
proof (induction r rule: spliced.induct)
  case 1
  then show ?case by simp
next
  case (2 x xs)
  let ?r = "x # xs"
  have "?r = take 20 ?r @ take 20 (drop 20 ?r) @ drop 40 ?r"
    by (metis append_take_drop_id drop_drop numeral_Bit0)
  then have "mset ?r = mset (take 20 ?r) + mset (take 20 (drop 20 ?r)) + mset (drop 40 ?r)"
    by (metis mset_append add.assoc)
  with 2 show ?case by (simp only: spliced.simps mset_append mset_splice)
qed

lemma splice_opt:
  "(c1 = None \<Longrightarrow> u1 = []) \<Longrightarrow> (c2 = None \<Longrightarrow> u2 = []) \<Longrightarrow>
    splice (opt_char c1 @ u1) (opt_char c2 @ u2) = opt_char c1 @ opt_char c2 @ splice u1 u2"
  by (cases c1; cases c2) auto

text \<open>The loop, in terms of what the two buffers and the description have left.\<close>

lemma main1_loop_out:
  assumes "rest d s = Some r" "rfd fs1 = d" "rfd fs2 = d" "cap fs1 = 20" "cap fs2 = 20"
    and "r = [] \<or> length (unread fs1) = length (unread fs2)"
  shows "\<exists>s'. main1_loop fs1 fs2 s = Some s' \<and> out s' = out s @ splice (unread fs1) (unread fs2) @ spliced r"
  using assms
proof (induction "length (unread fs1) + length (unread fs2) + length r" arbitrary: fs1 fs2 r s rule: less_induct)
  case less
  obtain c1 fs1' s1 where f1: "fscanf_c fs1 s = (c1, fs1', s1)" "avail fs1 r = opt_char c1 @ unread fs1'"
    "c1 = None \<longleftrightarrow> avail fs1 r = []" "rest d s1 = Some (left fs1 r)" "rfd fs1' = d" "cap fs1' = 20" "out s1 = out s"
    by (rule fscanf_c_rest [of fs1 s r]) (use less.prems in auto)
  define r1 where "r1 = left fs1 r"
  define t1 where "t1 = emit (opt_char c1) s1"
  obtain c2 fs2' s2 where f2: "fscanf_c fs2 t1 = (c2, fs2', s2)" "avail fs2 r1 = opt_char c2 @ unread fs2'"
    "c2 = None \<longleftrightarrow> avail fs2 r1 = []" "rest d s2 = Some (left fs2 r1)" "rfd fs2' = d" "cap fs2' = 20" "out s2 = out t1"
    by (rule fscanf_c_rest [of fs2 t1 r1]) (use less.prems f1 in \<open>auto simp: r1_def t1_def\<close>)
  define r2 where "r2 = left fs2 r1"
  define t2 where "t2 = emit (opt_char c2) s2"
  have t2: "rest d t2 = Some r2" "out t2 = out s @ opt_char c1 @ opt_char c2"
    using f1 f2 by (simp_all add: t2_def r2_def t1_def)
  have sp: "splice (avail fs1 r) (avail fs2 r1) = opt_char c1 @ opt_char c2 @ splice (unread fs1') (unread fs2')"
    using f1(2,3) f2(2,3) splice_opt [of c1 "unread fs1'" c2 "unread fs2'"] by auto
  have split: "splice (avail fs1 r) (avail fs2 r1) @ spliced r2 = splice (unread fs1) (unread fs2) @ spliced r"
  proof (cases "r = []")
    case True
    then show ?thesis by (simp add: avail_def r1_def r2_def left_def)
  next
    case False
    then have "unread fs1 = [] \<longleftrightarrow> unread fs2 = []" using less.prems(6) by auto
    with False less.prems(4,5) show ?thesis
      by (auto simp: avail_def r1_def r2_def left_def spliced_unfold)
  qed
  have sync: "r2 = [] \<or> length (unread fs1') = length (unread fs2')"
  proof (cases "r2 = []")
    case False
    then have ne: "r \<noteq> []" by (auto simp: r2_def r1_def left_def split: if_splits)
    with less.prems(6) have eq: "length (unread fs1) = length (unread fs2)" by simp
    have "length (avail fs1 r) = length (avail fs2 r1) \<and> avail fs1 r \<noteq> []"
      using False ne eq less.prems(4,5) by (auto simp: avail_def r1_def r2_def left_def split: if_splits)
    then show ?thesis using f1(2,3) f2(2,3) by (cases c1; cases c2) auto
  qed simp
  show ?case
  proof (cases "c1 = None \<and> c2 = None")
    case True
    then have "main1_loop fs1 fs2 s = Some t2"
      using f1(1) f2(1) by (subst main1_loop.simps) (simp add: t1_def t2_def)
    moreover have "spliced r2 = []"
      using True f1(3) f2(3) less.prems(4,5) by (auto simp: avail_def r1_def r2_def left_def split: if_splits)
    moreover have "splice (unread fs1') (unread fs2') = []" using True f1(2,3) f2(2,3) by auto
    ultimately show ?thesis using t2(2) split sp True by simp
  next
    case False
    then have step: "main1_loop fs1 fs2 s = main1_loop fs1' fs2' t2"
      using f1(1) f2(1) by (subst main1_loop.simps) (auto simp: t1_def t2_def)
    have len: "length (avail fs1 r) + length r1 = length (unread fs1) + length r"
      "length (avail fs2 r1) + length r2 = length (unread fs2) + length r1"
      by (auto simp: avail_def r1_def r2_def left_def)
    have "length (unread fs1') + length (unread fs2') + length r2 < length (unread fs1) + length (unread fs2) + length r"
      using len f1(2) f2(2) False by (cases c1; cases c2) auto
    from less.hyps [OF this t2(1) f1(5) f2(5) f1(6) f2(6) sync] show ?thesis
      unfolding step using t2(2) sp split by (metis append.assoc)
  qed
qed


section \<open>\<^verbatim>\<open>2.c\<close>\<close>

partial_function (option) main2_loop :: "fd \<Rightarrow> fd \<Rightarrow> os \<Rightarrow> os option" where
  "main2_loop fd1 fd2 s =
     (case sys_read fd1 1 s of
        (Some [c], s) \<Rightarrow>
          (case sys_read fd2 1 (emit [c] s) of
             (Some [c], s) \<Rightarrow> main2_loop fd1 fd2 (emit [c] s)
           | (_, s) \<Rightarrow> Some s)
      | (_, s) \<Rightarrow> Some s)"

definition main2 :: "os \<Rightarrow> os option" where
  "main2 s =
     (case sys_open False s of (fd1, s) \<Rightarrow>
      case sys_open False s of (fd2, s) \<Rightarrow> main2_loop fd1 fd2 s)"

lemma main2_loop_out:
  assumes "rest d1 s = Some r" "rest d2 s = Some r" "d1 \<noteq> d2"
  shows "\<exists>s'. main2_loop (Some d1) (Some d2) s = Some s' \<and> out s' = out s @ concat (map (\<lambda>c. [c, c]) r)"
  using assms
proof (induction r arbitrary: s)
  case Nil
  obtain s1 where "sys_read (Some d1) 1 s = (Some (take 1 []), s1)" "out s1 = out s"
    by (rule sys_read_rest [OF Nil(1)]) (rule that)
  then show ?case by (subst main2_loop.simps) simp
next
  case (Cons c r)
  obtain s1 where s1: "sys_read (Some d1) 1 s = (Some (take 1 (c # r)), s1)" "rest d1 s1 = Some (drop 1 (c # r))"
    "out s1 = out s" "content s1 = content s" "length (descs s1) = length (descs s)"
    "\<And>d'. d' \<noteq> d1 \<Longrightarrow> descs s1 ! d' = descs s ! d'"
    by (rule sys_read_rest [OF Cons.prems(1)]) (rule that)
  define t1 where "t1 = emit [c] s1"
  have r2: "rest d2 t1 = Some (c # r)"
    using s1(4-6) Cons.prems by (simp add: t1_def rest_cong [of s1 s d2])
  obtain s2 where s2: "sys_read (Some d2) 1 t1 = (Some (take 1 (c # r)), s2)" "rest d2 s2 = Some (drop 1 (c # r))"
    "out s2 = out t1" "content s2 = content t1" "length (descs s2) = length (descs t1)"
    "\<And>d'. d' \<noteq> d2 \<Longrightarrow> descs s2 ! d' = descs t1 ! d'"
    by (rule sys_read_rest [OF r2]) (rule that)
  have "rest d1 s2 = rest d1 t1" using s2(4-6) Cons.prems(3) by (intro rest_cong) auto
  then have "rest d1 (emit [c] s2) = Some r" "rest d2 (emit [c] s2) = Some r"
    using s1(2) s2(2) by (simp_all add: t1_def)
  from Cons.IH [OF this Cons.prems(3)] show ?case
    using s1(1,3) s2(1,3) by (subst main2_loop.simps) (simp add: t1_def)
qed

section \<open>\<^verbatim>\<open>2_1.c\<close>\<close>

definition main21_step :: "fd \<Rightarrow> fd \<Rightarrow> nat \<Rightarrow> char \<Rightarrow> os \<times> stat \<Rightarrow> os \<times> stat" where
  "main21_step fd1 fd2 ino c = (\<lambda>(s, sb).
     print_stat ''write    '' ino (snd (sys_write (if odd_char c then fd1 else fd2) [c] s), sb))"

definition main21 :: "nat \<Rightarrow> os \<Rightarrow> os \<times> stat" where
  "main21 ino s =
     (case sys_open True s of (fd1, s) \<Rightarrow>
      case print_stat ''open fd1 '' ino (s, (0, 0)) of (s, sb) \<Rightarrow>
      case sys_open True s of (fd2, s) \<Rightarrow>
      case print_stat ''open fd2 '' ino (s, sb) of (s, sb) \<Rightarrow>
      case fold (main21_step fd1 fd2 ino) letters (s, sb) of (s, sb) \<Rightarrow>
      case print_stat ''close fd1'' ino (sys_close fd1 s, sb) of (s, sb) \<Rightarrow>
      print_stat ''close fd2'' ino (sys_close fd2 s, sb))"

text \<open>A descriptor that is open for appending.\<close>

definition appends :: "fd \<Rightarrow> os \<Rightarrow> bool" where
  "appends fd s \<longleftrightarrow> (case lookup fd s of None \<Rightarrow> False | Some (_, e, _) \<Rightarrow> app e)"

lemma sys_write_append:
  assumes "appends fd s" "appends fd' s" "content s = Some c"
  shows "\<exists>s'. sys_write fd bs s = (Some (length bs), s') \<and> content s' = Some (c @ bs) \<and> out s' = out s \<and>
    appends fd' s'"
  using assms
  by (auto simp: appends_def sys_write_def lookup_def Let_def nth_list_update split: option.splits if_splits)

lemma main21_letters:
  assumes "appends fd1 s" "appends fd2 s" "content s = Some c"
  shows "\<exists>s' sb'. fold (main21_step fd1 fd2 ino) cs (s, sb) = (s', sb') \<and> content s' = Some (c @ cs) \<and>
    out s' = out s @ concat (map (\<lambda>i. stat_line ''write    '' (ino, length c + i)) [1..<length cs + 1])"
  using assms
proof (induction cs arbitrary: s sb c)
  case Nil
  then show ?case by simp
next
  case (Cons x cs)
  define fd where "fd = (if odd_char x then fd1 else fd2)"
  have a: "appends fd s" using Cons.prems by (simp add: fd_def)
  obtain s1 where s1: "sys_write fd [x] s = (Some (length [x]), s1)" "content s1 = Some (c @ [x])" "out s1 = out s"
    "appends fd1 s1"
    using sys_write_append [OF a Cons.prems(1,3), of "[x]"] by blast
  have a2: "appends fd2 s1" using sys_write_append [OF a Cons.prems(2,3), of "[x]"] s1(1) by auto
  define s2 where "s2 = emit (stat_line ''write    '' (ino, length c + 1)) s1"
  have "main21_step fd1 fd2 ino x (s, sb) = (s2, (ino, length c + 1))"
    using s1(1,2) by (simp add: main21_step_def print_stat_def sys_stat_def s2_def fd_def Let_def)
  moreover obtain s' sb' where "fold (main21_step fd1 fd2 ino) cs (s2, (ino, length c + 1)) = (s', sb')"
    "content s' = Some ((c @ [x]) @ cs)"
    "out s' = out s2 @ concat (map (\<lambda>i. stat_line ''write    '' (ino, length (c @ [x]) + i)) [1..<length cs + 1])"
    using Cons.IH [of s2 "c @ [x]" "(ino, length c + 1)"] s1(2,4) a2
    by (auto simp: s2_def appends_def)
  moreover have "[1..<length (x # cs) + 1] = 1 # map Suc [1..<length cs + 1]"
    by (simp add: upt_conv_Cons map_Suc_upt del: upt_Suc)
  ultimately show ?case using s1(3) by (simp add: s2_def comp_def del: upt_Suc)
qed

section \<open>\<^verbatim>\<open>3.c\<close>\<close>

definition main3_step :: "nat \<Rightarrow> char \<Rightarrow> wstream \<times> wstream \<times> os \<times> stat \<Rightarrow> wstream \<times> wstream \<times> os \<times> stat" where
  "main3_step ino c = (\<lambda>(fs1, fs2, s, sb).
     if odd_char c then (case fprintf_c c fs1 s of (fs1, s) \<Rightarrow> (fs1, fs2, print_stat ''fprintf   '' ino (s, sb)))
     else (case fprintf_c c fs2 s of (fs2, s) \<Rightarrow> (fs1, fs2, print_stat ''fprintf   '' ino (s, sb))))"

text \<open>\<open>bufsz\<close> is the size of a stream's buffer.\<close>

definition main3 :: "nat \<Rightarrow> nat \<Rightarrow> os \<Rightarrow> os \<times> stat" where
  "main3 bufsz ino s =
     (case fopen_w bufsz s of (fs1, s) \<Rightarrow>
      case print_stat ''open fs1   '' ino (s, (0, 0)) of (s, sb) \<Rightarrow>
      case fopen_w bufsz s of (fs2, s) \<Rightarrow>
      case fold (main3_step ino) letters (fs1, fs2, print_stat ''open fs2   '' ino (s, sb)) of (fs1, fs2, s, sb) \<Rightarrow>
      case print_stat ''fclose fs1'' ino (fclose fs1 s, sb) of (s, sb) \<Rightarrow>
      print_stat ''fclose fs2'' ino (fclose fs2 s, sb))"

lemma main3_letters:
  assumes "length (wbuf fs1) + length (filter odd_char cs) \<le> wcap fs1"
    "length (wbuf fs2) + length (filter (\<lambda>c. \<not> odd_char c) cs) \<le> wcap fs2" "content s = Some c"
  shows "\<exists>s' sb'. fold (main3_step ino) cs (fs1, fs2, s, sb) =
      (fs1\<lparr>wbuf := wbuf fs1 @ filter odd_char cs\<rparr>, fs2\<lparr>wbuf := wbuf fs2 @ filter (\<lambda>c. \<not> odd_char c) cs\<rparr>, s', sb') \<and>
    content s' = Some c \<and> descs s' = descs s \<and>
    out s' = out s @ concat (map (\<lambda>_. stat_line ''fprintf   '' (ino, length c)) cs)"
  using assms
proof (induction cs arbitrary: fs1 fs2 s sb)
  case Nil
  then show ?case by simp
next
  case (Cons x cs)
  define s1 where "s1 = emit (stat_line ''fprintf   '' (ino, length c)) s"
  define f1 where "f1 = (if odd_char x then fs1\<lparr>wbuf := wbuf fs1 @ [x]\<rparr> else fs1)"
  define f2 where "f2 = (if odd_char x then fs2 else fs2\<lparr>wbuf := wbuf fs2 @ [x]\<rparr>)"
  have "main3_step ino x (fs1, fs2, s, sb) = (f1, f2, s1, (ino, length c))"
    using Cons.prems by (auto simp: main3_step_def fprintf_c_def print_stat_def sys_stat_def s1_def f1_def f2_def Let_def)
  with Cons.IH [of f1 f2 s1 "(ino, length c)"] Cons.prems show ?case
    by (cases "odd_char x") (auto simp: f1_def f2_def s1_def)
qed


section \<open>Properties\<close>

text \<open>
  C25: \<^verbatim>\<open>1.c\<close> ends on every file and prints its characters in a fixed order: the two streams fill
  their 20-byte buffers in turn from one shared offset, so each pair of 20-byte blocks comes
  out spliced. In particular every character is printed exactly once. If the file cannot be
  opened, the program dereferences a null pointer.
\<close>

theorem main1_splices_blocks:
  "(case f of None \<Rightarrow> main1 (initial f) = Some (Inl NullDeref)
    | Some c \<Rightarrow> \<exists>s. main1 (initial f) = Some (Inr s) \<and> out s = spliced c \<and> mset (out s) = mset c)"
proof (cases f)
  case None
  then show ?thesis by (simp add: main1_def initial_def sys_open_def fdopen_buf_def)
next
  case (Some c)
  let ?s = "\<lparr>content = Some c, descs = [Some \<lparr>off = 0, app = False\<rparr>], out = []\<rparr>"
  let ?fs = "\<lparr>rfd = 0, cap = 20, unread = []\<rparr>"
  have "rest 0 ?s = Some c" by (simp add: rest_def lookup_def)
  then obtain s where "main1_loop ?fs ?fs ?s = Some s" "out s = spliced c"
    using main1_loop_out [of 0 ?s c ?fs ?fs] by auto
  with Some show ?thesis
    by (simp add: main1_def initial_def sys_open_def fdopen_buf_def mset_spliced)
qed

text \<open>
  \<^verbatim>\<open>2.c\<close> ends on every file and prints every character twice in a row, since its two
  descriptors have offsets of their own; without the file it prints nothing.
\<close>

theorem main2_doubles:
  "\<exists>s. main2 (initial f) = Some s \<and> out s = concat (map (\<lambda>c. [c, c]) (case f of None \<Rightarrow> [] | Some c \<Rightarrow> c))"
proof (cases f)
  case None
  then show ?thesis
    by (simp add: main2_def initial_def sys_open_def main2_loop.simps [of None] sys_read_def lookup_def)
next
  case (Some c)
  let ?s = "\<lparr>content = Some c, descs = [Some \<lparr>off = 0, app = False\<rparr>, Some \<lparr>off = 0, app = False\<rparr>], out = []\<rparr>"
  have "rest 0 ?s = Some c" "rest 1 ?s = Some c" by (simp_all add: rest_def lookup_def)
  from main2_loop_out [OF this] show ?thesis
    using Some by (simp add: main2_def initial_def sys_open_def)
qed

text \<open>
  \<^verbatim>\<open>2_1.c\<close> adds the alphabet in order to the end of the file, no letter lost although two
  descriptors write in turn, and prints the size after each step: it grows by one byte with
  each write.
\<close>

theorem main21_appends:
  "\<exists>s sb. main21 ino (initial (Some c)) = (s, sb) \<and> content s = Some (c @ letters) \<and>
     out s = stat_line ''open fd1 '' (ino, length c) @ stat_line ''open fd2 '' (ino, length c) @
       concat (map (\<lambda>i. stat_line ''write    '' (ino, length c + i)) [1..<27]) @
       stat_line ''close fd1'' (ino, length c + 26) @ stat_line ''close fd2'' (ino, length c + 26)"
proof -
  let ?s = "\<lparr>content = Some c, descs = [Some \<lparr>off = 0, app = True\<rparr>, Some \<lparr>off = 0, app = True\<rparr>],
    out = stat_line ''open fd1 '' (ino, length c) @ stat_line ''open fd2 '' (ino, length c)\<rparr>"
  have "appends (Some 0) ?s" "appends (Some 1) ?s" by (simp_all add: appends_def lookup_def)
  then obtain s sb where "fold (main21_step (Some 0) (Some 1) ino) letters (?s, (ino, length c)) = (s, sb)"
    "content s = Some (c @ letters)"
    "out s = out ?s @ concat (map (\<lambda>i. stat_line ''write    '' (ino, length c + i)) [1..<length letters + 1])"
    using main21_letters [of "Some 0" ?s "Some 1" c ino letters "(ino, length c)"] by auto
  moreover have "length letters = 26" by (simp add: letters_def)
  ultimately show ?thesis
    by (simp add: main21_def initial_def sys_open_def print_stat_def sys_stat_def emit_def sys_close_def Let_def
        del: upt_Suc)
qed

text \<open>
  \<^verbatim>\<open>3.c\<close> loses half of the alphabet: whatever the file held before, it is emptied by the two
  \<^verbatim>\<open>fopen\<close> calls and stays empty until the first \<^verbatim>\<open>fclose\<close>, which writes the 13 letters with odd
  codes; the second \<^verbatim>\<open>fclose\<close> writes the 13 others over them.
\<close>

theorem main3_loses_letters:
  assumes "13 \<le> bufsz"
  shows "\<exists>s sb. main3 bufsz ino (initial f) = (s, sb) \<and> content s = Some ''bdfhjlnprtvxz'' \<and>
     out s = stat_line ''open fs1   '' (ino, 0) @ stat_line ''open fs2   '' (ino, 0) @
       concat (map (\<lambda>_. stat_line ''fprintf   '' (ino, 0)) letters) @
       stat_line ''fclose fs1'' (ino, 13) @ stat_line ''fclose fs2'' (ino, 13)"
proof -
  let ?s = "\<lparr>content = Some [], descs = [Some \<lparr>off = 0, app = False\<rparr>, Some \<lparr>off = 0, app = False\<rparr>],
    out = stat_line ''open fs1   '' (ino, 0) @ stat_line ''open fs2   '' (ino, 0)\<rparr>"
  let ?f1 = "\<lparr>wfd = Some 0, wcap = bufsz, wbuf = []\<rparr>" and ?f2 = "\<lparr>wfd = Some 1, wcap = bufsz, wbuf = []\<rparr>"
  have odds: "filter odd_char letters = ''acegikmoqsuwy''"
    and evens: "filter (\<lambda>c. \<not> odd_char c) letters = ''bdfhjlnprtvxz''" by code_simp+
  obtain s sb where "fold (main3_step ino) letters (?f1, ?f2, ?s, (ino, 0)) =
      (?f1\<lparr>wbuf := ''acegikmoqsuwy''\<rparr>, ?f2\<lparr>wbuf := ''bdfhjlnprtvxz''\<rparr>, s, sb)"
    "content s = Some []" "descs s = descs ?s"
    "out s = out ?s @ concat (map (\<lambda>_. stat_line ''fprintf   '' (ino, 0)) letters)"
    using main3_letters [of ?f1 letters ?f2 ?s "[]" ino "(ino, 0)"] assms unfolding odds evens by auto
  then show ?thesis
    by (simp add: main3_def initial_def fopen_w_def sys_open_def print_stat_def sys_stat_def emit_def Let_def
        fclose_def sys_write_def lookup_def sys_close_def)
      (simp add: numeral_eq_Suc)
qed

theorem main3_loses_letters_witness:
  "\<exists>s sb. main3 4096 7 (initial None) = (s, sb) \<and> content s = Some ''bdfhjlnprtvxz''"
  using main3_loses_letters [of 4096 7 None] by auto

end
