(* ===== verification/Open_File_Threads.thy ===== *)
theory Open_File_Threads
  imports Open_File_Programs
begin

text \<open>
  The programs of \<^verbatim>\<open>8/open_file/src\<close> with two threads: \<^verbatim>\<open>1_thread.c\<close>, \<^verbatim>\<open>2_thread.c\<close>,
  \<^verbatim>\<open>2_1_thread.c\<close> and \<^verbatim>\<open>3_thread.c\<close>. A thread is a value of the boolean (thread 0 is \<^const>\<open>False\<close>); a
  schedule is the sequence of the threads that take a step; a step is one system call or one
  stdio call.
\<close>

section \<open>Two threads\<close>

text \<open>
  The contract the programs share: a step of a thread brings it closer to its end, is idle at
  the end, and does not set the other one back.
\<close>

locale two_threads =
  fixes step :: "bool \<Rightarrow> 's \<Rightarrow> 's" and inv :: "'s \<Rightarrow> bool" and todo :: "bool \<Rightarrow> 's \<Rightarrow> nat"
  assumes inv_step: "inv s \<Longrightarrow> inv (step i s)"
    and own_step: "inv s \<Longrightarrow> todo i s \<noteq> 0 \<Longrightarrow> todo i (step i s) < todo i s"
    and idle_step: "todo i s = 0 \<Longrightarrow> step i s = s"
    and other_step: "inv s \<Longrightarrow> i \<noteq> j \<Longrightarrow> todo j (step i s) \<le> todo j s"
begin

lemma schedule_inv: "inv s \<Longrightarrow> inv (fold step sched s)"
  by (induction sched arbitrary: s) (auto intro: inv_step)

lemma step_le: "inv s \<Longrightarrow> todo j (step i s) \<le> todo j s"
  using own_step [of s j] idle_step [of j s] other_step [of s i j]
  by (cases "i = j"; cases "todo j s = 0") (auto intro: less_imp_le)

lemma schedule_done:
  "inv s \<Longrightarrow> todo i s \<le> count_list sched i \<Longrightarrow> todo i (fold step sched s) = 0"
proof (induction sched arbitrary: s)
  case Nil
  then show ?case by simp
next
  case (Cons j sched)
  have "todo i (step j s) \<le> count_list sched i"
  proof (cases "j = i")
    case True
    with Cons.prems own_step [of s i] idle_step [of i s] show ?thesis by (cases "todo i s = 0") auto
  next
    case False
    with Cons.prems step_le [of s i j] show ?thesis by auto
  qed
  with Cons.IH [of "step j s"] Cons.prems inv_step show ?case by simp
qed

end

text \<open>Where a thread of the reading programs is.\<close>

datatype tpc = AtRead | AtWrite char | Finished

fun in_hand :: "tpc \<Rightarrow> char list" where
  "in_hand (AtWrite c) = [c]"
| "in_hand _ = []"

definition two :: "'a \<Rightarrow> 'a \<Rightarrow> bool \<Rightarrow> 'a" where
  "two x y i = (if i then y else x)"

definition tid :: "bool \<Rightarrow> string" where
  "tid i = (if i then ''1'' else ''0'')"

section \<open>\<^verbatim>\<open>1_thread.c\<close>\<close>

record t1 =
  os1 :: os
  strm :: "bool \<Rightarrow> rstream"
  pcs :: "bool \<Rightarrow> tpc"

definition t1_line :: "bool \<times> char \<Rightarrow> char list" where
  "t1_line = (\<lambda>(i, c). ''thread '' @ tid i @ '': '' @ [c, CHR 0x0A])"

definition t1_thread_start :: "bool \<Rightarrow> t1 \<Rightarrow> t1" where
  "t1_thread_start i s =
     (case pcs s i of
        AtRead \<Rightarrow>
          (case fscanf_c (strm s i) (os1 s) of
             (Some c, st, s') \<Rightarrow> s\<lparr>os1 := s', strm := (strm s)(i := st), pcs := (pcs s)(i := AtWrite c)\<rparr>
           | (None, st, s') \<Rightarrow> s\<lparr>os1 := s', strm := (strm s)(i := st), pcs := (pcs s)(i := Finished)\<rparr>)
      | AtWrite c \<Rightarrow> s\<lparr>os1 := emit (t1_line (i, c)) (os1 s), pcs := (pcs s)(i := AtRead)\<rparr>
      | Finished \<Rightarrow> s)"

text \<open>\<^verbatim>\<open>main\<close> up to the creation of the threads; the rest of it waits for them.\<close>

definition t1_main :: "os \<Rightarrow> fault + t1" where
  "t1_main s =
     (case sys_open False s of (fd, s) \<Rightarrow>
      case fdopen_buf fd 20 of
        Inl f \<Rightarrow> Inl f
      | Inr fs0 \<Rightarrow>
        (case fdopen_buf fd 20 of
           Inl f \<Rightarrow> Inl f
         | Inr fs1 \<Rightarrow> Inr \<lparr>os1 = s, strm = two fs0 fs1, pcs = (\<lambda>_. AtRead)\<rparr>))"

definition t1_inv :: "char list \<Rightarrow> t1 \<Rightarrow> bool" where
  "t1_inv c s \<longleftrightarrow> (\<exists>r ps. rest 0 (os1 s) = Some r \<and> (\<forall>i. rfd (strm s i) = 0 \<and> cap (strm s i) = 20) \<and>
     out (os1 s) = concat (map t1_line ps) \<and>
     mset (map snd ps) + mset (in_hand (pcs s False)) + mset (in_hand (pcs s True)) +
       mset (unread (strm s False)) + mset (unread (strm s True)) + mset r = mset c \<and>
     (\<forall>i. pcs s i = Finished \<longrightarrow> unread (strm s i) = [] \<and> r = []))"

lemma mset_swap:
  assumes "a + b + l = v + r" "m + h + u + v + r = c"
  shows "m + a + h + b + u + l = (c :: 'a multiset)"
proof (rule multiset_eqI)
  fix x
  from arg_cong [OF assms(1), of "\<lambda>m. count m x"] arg_cong [OF assms(2), of "\<lambda>m. count m x"]
  show "count (m + a + h + b + u + l) x = count c x" by simp
qed

definition t1_todo :: "bool \<Rightarrow> t1 \<Rightarrow> nat" where
  "t1_todo i s =
     (let n = 2 * (length (unread (strm s i)) + (case rest 0 (os1 s) of None \<Rightarrow> 0 | Some r \<Rightarrow> length r))
      in case pcs s i of AtRead \<Rightarrow> n + 1 | AtWrite _ \<Rightarrow> n + 2 | Finished \<Rightarrow> 0)"

lemma t1_step:
  assumes "t1_inv c s"
  shows "t1_inv c (t1_thread_start i s) \<and>
    (t1_todo i s \<noteq> 0 \<longrightarrow> t1_todo i (t1_thread_start i s) < t1_todo i s) \<and>
    t1_todo (\<not> i) (t1_thread_start i s) \<le> t1_todo (\<not> i) s"
proof -
  obtain r ps where inv: "rest 0 (os1 s) = Some r" "\<forall>i. rfd (strm s i) = 0 \<and> cap (strm s i) = 20"
    "out (os1 s) = concat (map t1_line ps)"
    "mset (map snd ps) + mset (in_hand (pcs s False)) + mset (in_hand (pcs s True)) +
       mset (unread (strm s False)) + mset (unread (strm s True)) + mset r = mset c"
    "\<forall>i. pcs s i = Finished \<longrightarrow> unread (strm s i) = [] \<and> r = []"
    using assms by (auto simp: t1_inv_def)
  show ?thesis
  proof (cases "pcs s i")
    case Finished
    then show ?thesis using assms by (simp add: t1_thread_start_def t1_todo_def)
  next
    case (AtWrite x)
    have "mset (map snd (ps @ [(i, x)])) + mset (in_hand (((pcs s)(i := AtRead)) False)) +
        mset (in_hand (((pcs s)(i := AtRead)) True)) = mset (map snd ps) + mset (in_hand (pcs s False)) + mset (in_hand (pcs s True))"
      using AtWrite by (cases i) auto
    with AtWrite inv show ?thesis
      by (auto simp: t1_thread_start_def t1_todo_def t1_inv_def Let_def intro!: exI [of _ "ps @ [(i, x)]"])
  next
    case AtRead
    obtain x st s' where f: "fscanf_c (strm s i) (os1 s) = (x, st, s')" "avail (strm s i) r = opt_char x @ unread st"
      "x = None \<longleftrightarrow> avail (strm s i) r = []" "rest (rfd (strm s i)) s' = Some (left (strm s i) r)"
      "rfd st = rfd (strm s i)" "cap st = cap (strm s i)" "out s' = out (os1 s)"
      by (rule fscanf_c_rest [of "strm s i" "os1 s" r]) (use inv in auto)
    have len: "length (avail (strm s i) r) + length (left (strm s i) r) = length (unread (strm s i)) + length r"
      by (auto simp: avail_def left_def)
    have ms: "mset (avail (strm s i) r) + mset (left (strm s i) r) = mset (unread (strm s i)) + mset r"
      by (auto simp: avail_def left_def simp flip: mset_append)
    define p where "p = (case x of None \<Rightarrow> Finished | Some y \<Rightarrow> AtWrite y)"
    define t where "t = s\<lparr>os1 := s', strm := (strm s)(i := st), pcs := (pcs s)(i := p)\<rparr>"
    have t: "t1_thread_start i s = t"
      using AtRead f(1) by (simp add: t1_thread_start_def t_def p_def split: option.splits)
    have hand: "in_hand p = opt_char x" by (cases x) (simp_all add: p_def)
    have "mset (opt_char x) + mset (unread st) + mset (left (strm s i) r) = mset (unread (strm s i)) + mset r"
      using ms f(2) by simp
    then have "mset (map snd ps) + mset (in_hand (pcs t False)) + mset (in_hand (pcs t True)) +
       mset (unread (strm t False)) + mset (unread (strm t True)) + mset (left (strm s i) r) = mset c"
      using inv(4) AtRead hand mset_swap [where a = "mset (opt_char x)" and b = "mset (unread st)"
          and l = "mset (left (strm s i) r)" and v = "mset (unread (strm s i))" and r = "mset r"
          and m = "mset (map snd ps)" and h = "mset (in_hand (pcs s (\<not> i)))" and u = "mset (unread (strm s (\<not> i)))"
          and c = "mset c"]
      by (cases i) (auto simp: t_def ac_simps)
    moreover have "pcs t j = Finished \<longrightarrow> unread (strm t j) = [] \<and> left (strm s i) r = []" for j
      using inv(2,5) f(2,3) by (auto simp: t_def p_def left_def avail_def split: option.splits if_splits)
    moreover have "rest 0 s' = Some (left (strm s i) r)" "\<forall>j. rfd (strm t j) = 0 \<and> cap (strm t j) = 20" "out (os1 t) = out (os1 s)"
      using f(4-7) inv(2) by (auto simp: t_def)
    ultimately have "t1_inv c t" using inv(3) unfolding t1_inv_def by (intro exI [of _ "left (strm s i) r"] exI [of _ ps]) (auto simp: t_def)
    moreover have "t1_todo i t < t1_todo i s"
      using len f(2,3) AtRead inv(1) \<open>rest 0 s' = _\<close>
      by (cases x) (auto simp: t1_todo_def t_def p_def Let_def)
    moreover have "t1_todo (\<not> i) t \<le> t1_todo (\<not> i) s"
      using inv(1) \<open>rest 0 s' = _\<close>
      by (auto simp: t1_todo_def t_def Let_def left_def split: tpc.splits)
    ultimately show ?thesis unfolding t by blast
  qed
qed

interpretation t1: two_threads t1_thread_start "t1_inv c" t1_todo for c
proof (unfold_locales, goal_cases)
  case (1 s i)
  then show ?case using t1_step by blast
next
  case (2 s i)
  then show ?case using t1_step by blast
next
  case (3 i s)
  then show ?case by (auto simp: t1_todo_def t1_thread_start_def Let_def split: tpc.splits)
next
  case (4 s i j)
  then have "j = (\<not> i)" by auto
  with 4 show ?case using t1_step by blast
qed

lemma t1_finished: "t1_todo i s = 0 \<longleftrightarrow> pcs s i = Finished"
  by (auto simp: t1_todo_def Let_def split: tpc.splits)


lemma t1_main_inv: "\<exists>s. t1_main (initial (Some c)) = Inr s \<and> t1_inv c s \<and> t1_todo i s = 2 * length c + 1"
  by (auto simp: t1_main_def initial_def sys_open_def fdopen_buf_def t1_inv_def rest_def lookup_def two_def
      t1_todo_def Let_def intro!: exI [of _ "[]"])

section \<open>\<^verbatim>\<open>2_thread.c\<close>\<close>

record t2 =
  os2 :: os
  fds :: "bool \<Rightarrow> fd"
  ch :: "bool \<Rightarrow> char"             \<comment> \<open>the variable \<^verbatim>\<open>c\<close> of each thread, which starts with any value\<close>
  pcs2 :: "bool \<Rightarrow> tpc"

text \<open>The loop runs while \<^verbatim>\<open>read\<close> does not return zero, so also when it returns \<^verbatim>\<open>-1\<close>.\<close>

definition t2_thread_start :: "bool \<Rightarrow> t2 \<Rightarrow> t2" where
  "t2_thread_start i s =
     (case pcs2 s i of
        AtRead \<Rightarrow>
          (case sys_read (fds s i) 1 (os2 s) of
             (None, s') \<Rightarrow> s\<lparr>os2 := s', pcs2 := (pcs2 s)(i := AtWrite (ch s i))\<rparr>
           | (Some [], s') \<Rightarrow> s\<lparr>os2 := s', pcs2 := (pcs2 s)(i := Finished)\<rparr>
           | (Some (c # _), s') \<Rightarrow> s\<lparr>os2 := s', ch := (ch s)(i := c), pcs2 := (pcs2 s)(i := AtWrite c)\<rparr>)
      | AtWrite c \<Rightarrow> s\<lparr>os2 := emit [c] (os2 s), pcs2 := (pcs2 s)(i := AtRead)\<rparr>
      | Finished \<Rightarrow> s)"

definition t2_main :: "(bool \<Rightarrow> char) \<Rightarrow> os \<Rightarrow> t2" where
  "t2_main garbage s =
     (case sys_open False s of (fd0, s) \<Rightarrow>
      case sys_open False s of (fd1, s) \<Rightarrow>
      \<lparr>os2 = s, fds = two fd0 fd1, ch = garbage, pcs2 = (\<lambda>_. AtRead)\<rparr>)"

lemma shuffles_last: "ys @ [x] \<in> shuffles [x] ys"
  by (induction ys) (auto simp: Cons_in_shuffles_iff)

lemma shuffles_snoc1: "zs \<in> shuffles xs ys \<Longrightarrow> zs @ [x] \<in> shuffles (xs @ [x]) ys"
  by (induction xs ys arbitrary: zs rule: shuffles.induct) (auto simp: Cons_in_shuffles_iff shuffles_last)

lemma shuffles_snoc2: "zs \<in> shuffles xs ys \<Longrightarrow> zs @ [y] \<in> shuffles xs (ys @ [y])"
  using shuffles_snoc1 [of zs ys xs y] by (simp add: shuffles_commutes)

definition didx :: "bool \<Rightarrow> nat" where "didx i = (if i then 1 else 0)"

definition t2_inv :: "char list \<Rightarrow> t2 \<Rightarrow> bool" where
  "t2_inv c s \<longleftrightarrow> (\<exists>w. out (os2 s) \<in> shuffles (w False) (w True) \<and>
     (\<forall>i. fds s i = Some (didx i) \<and> (\<exists>r. rest (didx i) (os2 s) = Some r \<and>
       w i @ in_hand (pcs2 s i) @ r = c \<and> (pcs2 s i = Finished \<longrightarrow> r = []))))"

definition t2_todo :: "bool \<Rightarrow> t2 \<Rightarrow> nat" where
  "t2_todo i s =
     (let n = 2 * (case rest (didx i) (os2 s) of None \<Rightarrow> 0 | Some r \<Rightarrow> length r)
      in case pcs2 s i of AtRead \<Rightarrow> n + 1 | AtWrite _ \<Rightarrow> n + 2 | Finished \<Rightarrow> 0)"

lemma didx_neq: "didx (\<not> i) \<noteq> didx i"
  by (simp add: didx_def)

lemma t2_step:
  assumes "t2_inv c s"
  shows "t2_inv c (t2_thread_start i s) \<and>
    (t2_todo i s \<noteq> 0 \<longrightarrow> t2_todo i (t2_thread_start i s) < t2_todo i s) \<and>
    t2_todo (\<not> i) (t2_thread_start i s) \<le> t2_todo (\<not> i) s"
proof -
  obtain w where w: "out (os2 s) \<in> shuffles (w False) (w True)"
    and each: "\<And>i. fds s i = Some (didx i) \<and> (\<exists>r. rest (didx i) (os2 s) = Some r \<and>
       w i @ in_hand (pcs2 s i) @ r = c \<and> (pcs2 s i = Finished \<longrightarrow> r = []))"
    using assms by (auto simp: t2_inv_def)
  obtain r where r: "rest (didx i) (os2 s) = Some r" "w i @ in_hand (pcs2 s i) @ r = c" using each by blast
  show ?thesis
  proof (cases "pcs2 s i")
    case Finished
    then show ?thesis using assms by (simp add: t2_thread_start_def t2_todo_def)
  next
    case (AtWrite x)
    define t where "t = s\<lparr>os2 := emit [x] (os2 s), pcs2 := (pcs2 s)(i := AtRead)\<rparr>"
    have t: "t2_thread_start i s = t" using AtWrite by (simp add: t2_thread_start_def t_def)
    have "out (os2 t) \<in> shuffles ((w(i := w i @ [x])) False) ((w(i := w i @ [x])) True)"
      using w by (cases i) (auto simp: t_def shuffles_snoc1 shuffles_snoc2)
    moreover have "fds t j = Some (didx j) \<and> (\<exists>r. rest (didx j) (os2 t) = Some r \<and>
       (w(i := w i @ [x])) j @ in_hand (pcs2 t j) @ r = c \<and> (pcs2 t j = Finished \<longrightarrow> r = []))" for j
      using each [of j] AtWrite by (auto simp: t_def)
    ultimately have "t2_inv c t" unfolding t2_inv_def by blast
    then show ?thesis using AtWrite by (simp add: t) (auto simp: t_def t2_todo_def Let_def)
  next
    case AtRead
    obtain s' where s': "sys_read (Some (didx i)) 1 (os2 s) = (Some (take 1 r), s')" "rest (didx i) s' = Some (drop 1 r)"
      "out s' = out (os2 s)" "content s' = content (os2 s)" "length (descs s') = length (descs (os2 s))"
      "\<And>d'. d' \<noteq> didx i \<Longrightarrow> descs s' ! d' = descs (os2 s) ! d'"
      by (rule sys_read_rest [OF r(1)]) (rule that)
    have other: "rest (didx (\<not> i)) s' = rest (didx (\<not> i)) (os2 s)"
      using s'(4-6) didx_neq [of i] by (intro rest_cong) auto
    define p where "p = (case r of [] \<Rightarrow> Finished | x # _ \<Rightarrow> AtWrite x)"
    obtain h where t: "t2_thread_start i s = s\<lparr>os2 := s', ch := h, pcs2 := (pcs2 s)(i := p)\<rparr>"
      using AtRead s'(1) each [of i] that
      by (cases r) (auto simp: t2_thread_start_def p_def t2.defs intro: that [of "ch s"])
    have hand: "in_hand p @ drop 1 r = r" by (cases r) (simp_all add: p_def)
    have "fds (t2_thread_start i s) j = Some (didx j) \<and> (\<exists>r. rest (didx j) (os2 (t2_thread_start i s)) = Some r \<and>
       w j @ in_hand (pcs2 (t2_thread_start i s) j) @ r = c \<and> (pcs2 (t2_thread_start i s) j = Finished \<longrightarrow> r = []))" for j
    proof (cases "j = i")
      case True
      then show ?thesis using each [of i] r AtRead s'(2) hand by (simp add: t) (simp add: p_def split: list.splits)
    next
      case False
      then have "j = (\<not> i)" by auto
      then show ?thesis using each [of j] other by (simp add: t)
    qed
    moreover have "out (os2 (t2_thread_start i s)) \<in> shuffles (w False) (w True)" using w s'(3) by (simp add: t)
    ultimately have "t2_inv c (t2_thread_start i s)" unfolding t2_inv_def by blast
    moreover have "t2_todo i (t2_thread_start i s) < t2_todo i s"
      using r AtRead s'(2) by (simp add: t t2_todo_def p_def Let_def split: list.splits)
    moreover have "t2_todo (\<not> i) (t2_thread_start i s) = t2_todo (\<not> i) s"
      using other by (simp add: t t2_todo_def)
    ultimately show ?thesis by simp
  qed
qed

interpretation t2: two_threads t2_thread_start "t2_inv c" t2_todo for c
proof (unfold_locales, goal_cases)
  case (1 s i)
  then show ?case using t2_step by blast
next
  case (2 s i)
  then show ?case using t2_step by blast
next
  case (3 i s)
  then show ?case by (auto simp: t2_todo_def t2_thread_start_def Let_def split: tpc.splits)
next
  case (4 s i j)
  then have "j = (\<not> i)" by auto
  with 4 show ?case using t2_step by blast
qed

lemma t2_main_inv:
  "t2_inv c (t2_main g (initial (Some c))) \<and> t2_todo i (t2_main g (initial (Some c))) = 2 * length c + 1"
  by (auto simp: t2_main_def initial_def sys_open_def t2_inv_def rest_def lookup_def two_def didx_def
      t2_todo_def Let_def intro!: exI [of _ "\<lambda>_. []"])


section \<open>\<^verbatim>\<open>2_1_thread.c\<close>\<close>

text \<open>The letters \<^verbatim>\<open>c\<close> with \<^verbatim>\<open>c % 2 == i\<close>, and the line that \<^verbatim>\<open>PRINT_STAT\<close> prints.\<close>

definition mine :: "bool \<Rightarrow> char list" where
  "mine i = filter (\<lambda>c. odd_char c = i) letters"

definition t21_line :: "bool \<Rightarrow> stat \<Rightarrow> char list" where
  "t21_line i sb = ''write '' @ tid i @ '': inode number = '' @ digits (fst sb) @ '', size = '' @ digits (snd sb) @
     '' bytes'' @ [CHR 0x0A]"

text \<open>A round of the loop is a write, a \<^verbatim>\<open>stat\<close> into the shared buffer, and a print from it.\<close>

datatype round_pc = AtPut | AtStat | AtPrint

record t21 =
  os21 :: os
  statbuf :: stat
  fds21 :: "bool \<Rightarrow> fd"
  todo21 :: "bool \<Rightarrow> char list"   \<comment> \<open>the letters a thread still has to handle\<close>
  pc21 :: "bool \<Rightarrow> round_pc"

definition t21_thread_start :: "nat \<Rightarrow> bool \<Rightarrow> t21 \<Rightarrow> t21" where
  "t21_thread_start ino i s =
     (case todo21 s i of
        [] \<Rightarrow> s
      | c # cs \<Rightarrow>
        (case pc21 s i of
           AtPut \<Rightarrow> s\<lparr>os21 := snd (sys_write (fds21 s i) [c] (os21 s)), pc21 := (pc21 s)(i := AtStat)\<rparr>
         | AtStat \<Rightarrow> s\<lparr>statbuf := sys_stat ino (os21 s) (statbuf s), pc21 := (pc21 s)(i := AtPrint)\<rparr>
         | AtPrint \<Rightarrow> s\<lparr>os21 := emit (t21_line i (statbuf s)) (os21 s), pc21 := (pc21 s)(i := AtPut),
             todo21 := (todo21 s)(i := cs)\<rparr>))"

definition t21_main :: "os \<Rightarrow> t21" where
  "t21_main s =
     (case sys_open True s of (fd0, s) \<Rightarrow>
      case sys_open True s of (fd1, s) \<Rightarrow>
      \<lparr>os21 = s, statbuf = (0, 0), fds21 = two fd0 fd1, todo21 = mine, pc21 = (\<lambda>_. AtPut)\<rparr>)"

fun unwritten :: "round_pc \<Rightarrow> char list \<Rightarrow> char list" where
  "unwritten AtPut cs = cs"
| "unwritten _ cs = tl cs"

fun round_left :: "round_pc \<Rightarrow> nat" where
  "round_left AtPut = 3"
| "round_left AtStat = 2"
| "round_left AtPrint = 1"

definition t21_inv :: "char list \<Rightarrow> t21 \<Rightarrow> bool" where
  "t21_inv c s \<longleftrightarrow> (\<exists>w z. content (os21 s) = Some (c @ z) \<and> z \<in> shuffles (w False) (w True) \<and>
     (\<forall>i. appends (fds21 s i) (os21 s) \<and> w i @ unwritten (pc21 s i) (todo21 s i) = mine i))"

definition t21_todo :: "bool \<Rightarrow> t21 \<Rightarrow> nat" where
  "t21_todo i s = (case todo21 s i of [] \<Rightarrow> 0 | c # cs \<Rightarrow> 3 * length cs + round_left (pc21 s i))"

lemma t21_inv_step:
  assumes "t21_inv c s"
  shows "t21_inv c (t21_thread_start ino i s)"
proof -
  obtain w z where inv: "content (os21 s) = Some (c @ z)" "z \<in> shuffles (w False) (w True)"
    and each: "\<And>i. appends (fds21 s i) (os21 s) \<and> w i @ unwritten (pc21 s i) (todo21 s i) = mine i"
    using assms by (auto simp: t21_inv_def)
  show ?thesis
  proof (cases "todo21 s i")
    case Nil
    with assms show ?thesis by (simp add: t21_thread_start_def)
  next
    case (Cons x xs)
    show ?thesis
    proof (cases "pc21 s i")
      case AtPut
      obtain s' where s': "sys_write (fds21 s i) [x] (os21 s) = (Some (length [x]), s')" "content s' = Some ((c @ z) @ [x])"
        using sys_write_append [of "fds21 s i" "os21 s" "fds21 s i" "c @ z" "[x]"] each inv(1) by blast
      have ap: "appends (fds21 s j) s'" for j
        using sys_write_append [of "fds21 s i" "os21 s" "fds21 s j" "c @ z" "[x]"] each inv(1) s'(1) by auto
      define t where "t = t21_thread_start ino i s"
      have t: "t = s\<lparr>os21 := s', pc21 := (pc21 s)(i := AtStat)\<rparr>"
        using Cons AtPut s'(1) by (simp add: t_def t21_thread_start_def)
      have "z @ [x] \<in> shuffles ((w(i := w i @ [x])) False) ((w(i := w i @ [x])) True)"
        using inv(2) by (cases i) (auto simp: shuffles_snoc1 shuffles_snoc2)
      moreover have "appends (fds21 t j) (os21 t) \<and> (w(i := w i @ [x])) j @ unwritten (pc21 t j) (todo21 t j) = mine j" for j
        using each [of j] ap Cons AtPut by (auto simp: t)
      moreover have "content (os21 t) = Some (c @ z @ [x])" using s'(2) by (simp add: t)
      ultimately show ?thesis unfolding t21_inv_def t_def [symmetric] by blast
    next
      case AtStat
      have "w j @ unwritten (((pc21 s)(i := AtPrint)) j) (todo21 s j) = mine j" for j
        using each [of j] AtStat by auto
      with inv each show ?thesis unfolding t21_inv_def
        by (intro exI [of _ w] exI [of _ z]) (simp add: t21_thread_start_def Cons AtStat)
    next
      case AtPrint
      have "w j @ unwritten (((pc21 s)(i := AtPut)) j) (((todo21 s)(i := xs)) j) = mine j" for j
        using each [of j] AtPrint Cons by auto
      with inv each show ?thesis unfolding t21_inv_def
        by (intro exI [of _ w] exI [of _ z]) (simp add: t21_thread_start_def Cons AtPrint appends_def)
    qed
  qed
qed

interpretation t21: two_threads "t21_thread_start ino" "t21_inv c" t21_todo for c ino
proof (unfold_locales, goal_cases)
  case (1 s i)
  then show ?case by (rule t21_inv_step)
next
  case (2 s i)
  then show ?case
    by (cases "pc21 s i") (auto simp: t21_todo_def t21_thread_start_def split: list.splits)
next
  case (3 i s)
  then show ?case
    by (cases "pc21 s i") (auto simp: t21_todo_def t21_thread_start_def split: list.splits)
next
  case (4 s i j)
  then show ?case
    by (auto simp: t21_todo_def t21_thread_start_def split: list.splits round_pc.splits)
qed

lemma t21_done: "t21_todo i s = 0 \<longleftrightarrow> todo21 s i = []"
  by (cases "pc21 s i") (auto simp: t21_todo_def split: list.splits)

lemma mine_letters: "mine False = ''bdfhjlnprtvxz''" "mine True = ''acegikmoqsuwy''"
  by code_simp+

lemma t21_main_inv:
  "t21_inv c (t21_main (initial (Some c))) \<and> t21_todo i (t21_main (initial (Some c))) = 39"
  by (cases i) (auto simp: t21_main_def initial_def sys_open_def t21_inv_def appends_def lookup_def two_def
      t21_todo_def mine_letters intro!: exI [of _ "\<lambda>_. []"] exI [of _ "[]"])


section \<open>\<^verbatim>\<open>3_thread.c\<close>\<close>

record t3 =
  os3 :: os
  statbuf3 :: stat
  strm3 :: "bool \<Rightarrow> wstream"
  todo3 :: "bool \<Rightarrow> char list"
  pc3 :: "bool \<Rightarrow> round_pc"

definition t3_line :: "string \<Rightarrow> bool \<Rightarrow> nat \<Rightarrow> stat \<Rightarrow> char list" where
  "t3_line action i blksize sb = action @ '' '' @ tid i @ '': inode = '' @ digits (fst sb) @ '', size = '' @
     digits (snd sb) @ '' bytes, blksize = '' @ digits blksize @ [CHR 0x0A]"

definition t3_thread_start :: "nat \<Rightarrow> nat \<Rightarrow> bool \<Rightarrow> t3 \<Rightarrow> t3" where
  "t3_thread_start ino blksize i s =
     (case todo3 s i of
        [] \<Rightarrow> s
      | c # cs \<Rightarrow>
        (case pc3 s i of
           AtPut \<Rightarrow> (case fprintf_c c (strm3 s i) (os3 s) of
             (st, s') \<Rightarrow> s\<lparr>os3 := s', strm3 := (strm3 s)(i := st), pc3 := (pc3 s)(i := AtStat)\<rparr>)
         | AtStat \<Rightarrow> s\<lparr>statbuf3 := sys_stat ino (os3 s) (statbuf3 s), pc3 := (pc3 s)(i := AtPrint)\<rparr>
         | AtPrint \<Rightarrow> s\<lparr>os3 := emit (t3_line ''write'' i blksize (statbuf3 s)) (os3 s), pc3 := (pc3 s)(i := AtPut),
             todo3 := (todo3 s)(i := cs)\<rparr>))"

definition t3_main :: "nat \<Rightarrow> os \<Rightarrow> t3" where
  "t3_main bufsz s =
     (case fopen_w bufsz s of (fs0, s) \<Rightarrow>
      case fopen_a bufsz s of (fs1, s) \<Rightarrow>
      \<lparr>os3 = s, statbuf3 = (0, 0), strm3 = two fs0 fs1, todo3 = mine, pc3 = (\<lambda>_. AtPut)\<rparr>)"

text \<open>What \<^verbatim>\<open>main\<close> does once both threads have ended.\<close>

definition t3_finish :: "nat \<Rightarrow> nat \<Rightarrow> t3 \<Rightarrow> os" where
  "t3_finish ino blksize s =
     (let o0 = fclose (strm3 s False) (os3 s); sb0 = sys_stat ino o0 (statbuf3 s);
          o1 = fclose (strm3 s True) (emit (t3_line ''fclose fs'' False blksize sb0) o0); sb1 = sys_stat ino o1 sb0
      in emit (t3_line ''fclose fs'' True blksize sb1) o1)"

definition t3_inv :: "t3 \<Rightarrow> bool" where
  "t3_inv s \<longleftrightarrow> content (os3 s) = Some [] \<and>
     descs (os3 s) = [Some \<lparr>off = 0, app = False\<rparr>, Some \<lparr>off = 0, app = True\<rparr>] \<and>
     (\<forall>i. wfd (strm3 s i) = Some (didx i) \<and> 13 \<le> wcap (strm3 s i) \<and>
       wbuf (strm3 s i) @ unwritten (pc3 s i) (todo3 s i) = mine i)"

definition t3_todo :: "bool \<Rightarrow> t3 \<Rightarrow> nat" where
  "t3_todo i s = (case todo3 s i of [] \<Rightarrow> 0 | c # cs \<Rightarrow> 3 * length cs + round_left (pc3 s i))"

lemma t3_inv_step:
  assumes "t3_inv s"
  shows "t3_inv (t3_thread_start ino blksize i s)"
proof -
  have os: "content (os3 s) = Some []"
    "descs (os3 s) = [Some \<lparr>off = 0, app = False\<rparr>, Some \<lparr>off = 0, app = True\<rparr>]"
    using assms by (auto simp: t3_inv_def)
  have each: "wfd (strm3 s j) = Some (didx j) \<and> 13 \<le> wcap (strm3 s j) \<and>
      wbuf (strm3 s j) @ unwritten (pc3 s j) (todo3 s j) = mine j" for j
    using assms by (auto simp: t3_inv_def)
  show ?thesis
  proof (cases "todo3 s i")
    case Nil
    with assms show ?thesis by (simp add: t3_thread_start_def)
  next
    case (Cons x xs)
    show ?thesis
    proof (cases "pc3 s i")
      case AtPut
      have "length (mine i) = 13" by (cases i) (simp_all add: mine_letters)
      moreover have m: "wbuf (strm3 s i) @ x # xs = mine i" using each [of i] AtPut Cons by simp
      ultimately have "length (wbuf (strm3 s i)) + length (x # xs) = 13" by (metis length_append)
      with each [of i] have "length (wbuf (strm3 s i)) < wcap (strm3 s i)" by simp
      then have "t3_thread_start ino blksize i s = s\<lparr>strm3 := (strm3 s)(i := (strm3 s i)\<lparr>wbuf := wbuf (strm3 s i) @ [x]\<rparr>),
          pc3 := (pc3 s)(i := AtStat)\<rparr>"
        by (simp add: t3_thread_start_def Cons AtPut fprintf_c_def)
      then show ?thesis using os each m Cons AtPut by (auto simp: t3_inv_def)
    next
      case AtStat
      have m: "wbuf (strm3 s i) @ xs = mine i" using each [of i] Cons AtStat by simp
      then show ?thesis using os each Cons AtStat
        by (auto simp: t3_inv_def t3_thread_start_def)
    next
      case AtPrint
      have m: "wbuf (strm3 s i) @ xs = mine i" using each [of i] Cons AtPrint by simp
      then show ?thesis using os each Cons AtPrint
        by (auto simp: t3_inv_def t3_thread_start_def)
    qed
  qed
qed

interpretation t3: two_threads "t3_thread_start ino blksize" t3_inv t3_todo for ino blksize
proof (unfold_locales, goal_cases)
  case (1 s i)
  then show ?case by (rule t3_inv_step)
next
  case (2 s i)
  then show ?case
    by (cases "pc3 s i") (auto simp: t3_todo_def t3_thread_start_def split: list.splits prod.splits)
next
  case (3 i s)
  then show ?case
    by (cases "pc3 s i") (auto simp: t3_todo_def t3_thread_start_def split: list.splits)
next
  case (4 s i j)
  then show ?case
    by (auto simp: t3_todo_def t3_thread_start_def split: list.splits round_pc.splits prod.splits)
qed

lemma t3_done: "t3_todo i s = 0 \<longleftrightarrow> todo3 s i = []"
  by (cases "pc3 s i") (auto simp: t3_todo_def split: list.splits)

lemma t3_main_inv:
  "13 \<le> bufsz \<Longrightarrow> t3_inv (t3_main bufsz (initial f)) \<and> t3_todo i (t3_main bufsz (initial f)) = 39"
  by (cases i) (auto simp: t3_main_def initial_def fopen_w_def fopen_a_def sys_open_def t3_inv_def two_def
      t3_todo_def mine_letters didx_def)

section \<open>Properties\<close>

text \<open>
  C9: \<^verbatim>\<open>1_thread.c\<close>: under every schedule that gives each thread enough steps, both threads end and
  every character of the file has been printed by exactly one of them, on a line of its own.
\<close>

theorem t1_prints_each_once:
  assumes "2 * length c + 1 \<le> count_list sched False" "2 * length c + 1 \<le> count_list sched True"
  shows "\<exists>s ps. t1_main (initial (Some c)) = Inr s \<and> (\<forall>i. pcs (fold t1_thread_start sched s) i = Finished) \<and>
    out (os1 (fold t1_thread_start sched s)) = concat (map t1_line ps) \<and> mset (map snd ps) = mset c"
proof -
  obtain s where s: "t1_main (initial (Some c)) = Inr s" "t1_inv c s" "t1_todo False s = 2 * length c + 1"
    "t1_todo True s = 2 * length c + 1"
    using t1_main_inv [of c False] t1_main_inv [of c True] by auto
  let ?t = "fold t1_thread_start sched s"
  have fin: "pcs ?t i = Finished" for i
    using t1.schedule_done [OF s(2), of i sched] assms s(3,4) by (cases i) (auto simp: t1_finished)
  have "t1_inv c ?t" by (rule t1.schedule_inv [OF s(2)])
  then obtain r ps where "out (os1 ?t) = concat (map t1_line ps)"
    "mset (map snd ps) + mset (in_hand (pcs ?t False)) + mset (in_hand (pcs ?t True)) +
       mset (unread (strm ?t False)) + mset (unread (strm ?t True)) + mset r = mset c"
    "\<forall>i. pcs ?t i = Finished \<longrightarrow> unread (strm ?t i) = [] \<and> r = []"
    unfolding t1_inv_def by blast
  with fin s(1) show ?thesis by auto
qed

theorem t1_prints_each_once_witness:
  "\<exists>s ps. t1_main (initial (Some ''abc'')) = Inr s \<and>
    out (os1 (fold t1_thread_start (replicate 7 True @ replicate 7 False) s)) = concat (map t1_line ps) \<and>
    mset (map snd ps) = {#CHR ''a'', CHR ''b'', CHR ''c''#}"
  using t1_prints_each_once [of "''abc''" "replicate 7 True @ replicate 7 False"]
  by (auto simp: numeral_eq_Suc)

text \<open>
  \<^verbatim>\<open>2_thread.c\<close>: under every schedule that gives each thread enough steps, both threads end and
  the output is an interleaving of two copies of the file.
\<close>

theorem t2_shuffles_copies:
  assumes "2 * length c + 1 \<le> count_list sched False" "2 * length c + 1 \<le> count_list sched True"
  shows "(\<forall>i. pcs2 (fold t2_thread_start sched (t2_main g (initial (Some c)))) i = Finished) \<and>
    out (os2 (fold t2_thread_start sched (t2_main g (initial (Some c))))) \<in> shuffles c c"
proof -
  let ?s = "t2_main g (initial (Some c))"
  let ?t = "fold t2_thread_start sched ?s"
  have inv: "t2_inv c ?s" and "t2_todo i ?s = 2 * length c + 1" for i using t2_main_inv by blast+
  then have fin: "pcs2 ?t i = Finished" for i
    using t2.schedule_done [OF inv, of i sched] assms
    by (cases i) (auto simp: t2_todo_def Let_def split: tpc.splits)
  have "t2_inv c ?t" by (rule t2.schedule_inv [OF inv])
  then obtain w where w: "out (os2 ?t) \<in> shuffles (w False) (w True)"
    "\<And>i. w i @ in_hand (pcs2 ?t i) @ [] = c"
    unfolding t2_inv_def using fin by (metis append_Nil2)
  with fin have "w False = c" "w True = c" by (metis append_Nil2 in_hand.simps(3))+
  with fin w(1) show ?thesis by simp
qed

theorem t2_shuffles_copies_witness:
  "out (os2 (fold t2_thread_start (replicate 5 True @ replicate 5 False) (t2_main (\<lambda>_. CHR ''?'') (initial (Some ''ab'')))))
     \<in> shuffles ''ab'' ''ab''"
  using t2_shuffles_copies [of "''ab''" "replicate 5 True @ replicate 5 False"]
  by (simp add: numeral_eq_Suc)

text \<open>
  \<^verbatim>\<open>2_thread.c\<close> without the file: \<^verbatim>\<open>read\<close> fails with \<^verbatim>\<open>-1\<close>, which the loop takes for success, so
  no schedule ends a thread, and every second step of a thread writes its uninitialised
  variable.
\<close>

theorem t2_missing_file_never_ends:
  "pcs2 (fold t2_thread_start sched (t2_main g (initial None))) i \<noteq> Finished \<and>
   length (out (os2 (fold t2_thread_start sched (t2_main g (initial None))))) =
     count_list sched False div 2 + count_list sched True div 2"
proof -
  let ?s = "\<lambda>sched. fold t2_thread_start sched (t2_main g (initial None))"
  have "(\<forall>i. pcs2 (?s sched) i = (if even (count_list sched i) then AtRead else AtWrite (g i)) \<and> ch (?s sched) i = g i \<and>
      fds (?s sched) i = None) \<and>
      length (out (os2 (?s sched))) = count_list sched False div 2 + count_list sched True div 2"
  proof (induction sched rule: rev_induct)
    case Nil
    show ?case by (simp add: t2_main_def initial_def sys_open_def two_def)
  next
    case (snoc j sched)
    then show ?case
      by (cases j) (auto simp: t2_thread_start_def sys_read_def lookup_def count_list_append)
  qed
  then show ?thesis by auto
qed

text \<open>
  \<^verbatim>\<open>2_1_thread.c\<close>: under every schedule that gives each thread enough steps, both threads end and
  the file has grown by an interleaving of the 13 letters with even and the 13 letters with odd
  codes: with \<^verbatim>\<open>O_APPEND\<close> no write is lost.
\<close>

theorem t21_appends_all:
  assumes "39 \<le> count_list sched False" "39 \<le> count_list sched True"
  shows "(\<forall>i. todo21 (fold (t21_thread_start ino) sched (t21_main (initial (Some c)))) i = []) \<and>
    (\<exists>z. content (os21 (fold (t21_thread_start ino) sched (t21_main (initial (Some c))))) = Some (c @ z) \<and>
      z \<in> shuffles ''bdfhjlnprtvxz'' ''acegikmoqsuwy'')"
proof -
  let ?s = "t21_main (initial (Some c))"
  let ?t = "fold (t21_thread_start ino) sched ?s"
  have inv: "t21_inv c ?s" and "t21_todo i ?s = 39" for i using t21_main_inv by blast+
  then have fin: "todo21 ?t i = []" for i
    using t21.schedule_done [OF inv, of i sched ino] assms by (cases i) (auto simp: t21_done)
  have "t21_inv c ?t" by (rule t21.schedule_inv [OF inv])
  then obtain w z where z: "content (os21 ?t) = Some (c @ z)" "z \<in> shuffles (w False) (w True)"
    and w: "\<And>i. w i @ unwritten (pc21 ?t i) (todo21 ?t i) = mine i"
    unfolding t21_inv_def by blast
  have "w i = mine i" for i using w [of i] fin [of i] by (cases "pc21 ?t i") auto
  then have "z \<in> shuffles (mine False) (mine True)" using z(2) by metis
  with z(1) fin show ?thesis unfolding mine_letters by blast
qed

theorem t21_appends_all_witness:
  "\<exists>z. content (os21 (fold (t21_thread_start 7) (replicate 39 True @ replicate 39 False) (t21_main (initial (Some ''x''))))) =
    Some (''x'' @ z) \<and> z \<in> shuffles ''bdfhjlnprtvxz'' ''acegikmoqsuwy''"
  by (rule conjunct2 [OF t21_appends_all]) (simp_all add: numeral_eq_Suc)

text \<open>
  \<^verbatim>\<open>3_thread.c\<close>: under every schedule that gives each thread enough steps, the file ends up with
  the 13 letters with even codes followed by the 13 with odd codes, whatever it held before:
  both streams keep their letters until they are closed, and the second one appends.
\<close>

theorem t3_keeps_all_letters:
  assumes "13 \<le> bufsz" "39 \<le> count_list sched False" "39 \<le> count_list sched True"
  shows "content (t3_finish ino blksize (fold (t3_thread_start ino blksize) sched (t3_main bufsz (initial f)))) =
    Some (''bdfhjlnprtvxz'' @ ''acegikmoqsuwy'')"
proof -
  let ?s = "t3_main bufsz (initial f)"
  let ?t = "fold (t3_thread_start ino blksize) sched ?s"
  have inv: "t3_inv ?s" and "t3_todo i ?s = 39" for i using t3_main_inv [OF assms(1)] by blast+
  then have fin: "todo3 ?t i = []" for i
    using t3.schedule_done [OF inv, of i sched ino blksize] assms(2,3) by (cases i) (auto simp: t3_done)
  have "t3_inv ?t" by (rule t3.schedule_inv [OF inv])
  then have os: "content (os3 ?t) = Some []"
    "descs (os3 ?t) = [Some \<lparr>off = 0, app = False\<rparr>, Some \<lparr>off = 0, app = True\<rparr>]"
    and each: "wfd (strm3 ?t i) = Some (didx i) \<and> wbuf (strm3 ?t i) @ unwritten (pc3 ?t i) (todo3 ?t i) = mine i" for i
    unfolding t3_inv_def by blast+
  have "wbuf (strm3 ?t i) = mine i" for i using each [of i] fin [of i] by (cases "pc3 ?t i") auto
  with os each show ?thesis
    by (simp add: t3_finish_def Let_def fclose_def sys_write_def sys_close_def lookup_def didx_def mine_letters)
qed

theorem t3_keeps_all_letters_witness:
  "content (t3_finish 7 4096 (fold (t3_thread_start 7 4096) (replicate 39 True @ replicate 39 False) (t3_main 4096 (initial None)))) =
    Some (''bdfhjlnprtvxz'' @ ''acegikmoqsuwy'')"
  by (rule t3_keeps_all_letters) (simp_all add: numeral_eq_Suc)

end
