(* ===== verification/Thread_Process.thy ===== *)
theory Thread_Process
  imports Open_File_Threads
begin

text \<open>
  The \<^verbatim>\<open>main\<close> functions of the two-thread programs of \<^verbatim>\<open>8/open_file/src\<close> as whole processes: the
  main thread creates the two threads, joins them and closes the files, any of the pthread calls
  can fail, and the process ends, with all its threads, when \<^verbatim>\<open>main\<close> returns. A turn is taken by the
  main thread (\<^const>\<open>None\<close>) or by one of the two threads.
\<close>

section \<open>Processes\<close>

text \<open>
  What is left of \<^verbatim>\<open>main\<close>: \<^verbatim>\<open>pthread_create\<close> and \<^verbatim>\<open>pthread_join\<close> with their results, of which any but 0
  makes \<^verbatim>\<open>main\<close> report the failure and return 1, and other calls. At its end \<^verbatim>\<open>main\<close> returns 0.
\<close>

datatype 's main_op = Create bool int | Join bool int | Call "'s \<Rightarrow> 's"

record 's process =
  code :: "'s main_op list"
  started :: "bool \<Rightarrow> bool"
  status :: "int option"
  mem :: 's

definition main_turn :: "(bool \<Rightarrow> 's \<Rightarrow> bool) \<Rightarrow> 's process \<Rightarrow> 's process" where
  "main_turn ended p =
     (case code p of
        [] \<Rightarrow> p\<lparr>status := Some 0\<rparr>
      | Create i rc # ops \<Rightarrow>
          if rc \<noteq> 0 then p\<lparr>status := Some 1\<rparr> else p\<lparr>started := (started p)(i := True), code := ops\<rparr>
      | Join i rc # ops \<Rightarrow>
          if rc \<noteq> 0 then p\<lparr>status := Some 1\<rparr> else if ended i (mem p) then p\<lparr>code := ops\<rparr> else p
      | Call f # ops \<Rightarrow> p\<lparr>mem := f (mem p), code := ops\<rparr>)"

definition turn :: "(bool \<Rightarrow> 's \<Rightarrow> 's) \<Rightarrow> (bool \<Rightarrow> 's \<Rightarrow> bool) \<Rightarrow> bool option \<Rightarrow> 's process \<Rightarrow> 's process" where
  "turn step ended e p =
     (if status p \<noteq> None then p
      else case e of
        None \<Rightarrow> main_turn ended p
      | Some i \<Rightarrow> if started p i then p\<lparr>mem := step i (mem p)\<rparr> else p)"

definition begin_process :: "'s main_op list \<Rightarrow> 's \<Rightarrow> 's process" where
  "begin_process ops s = \<lparr>code = ops, started = (\<lambda>_. False), status = None, mem = s\<rparr>"

abbreviation run_process ::
  "(bool \<Rightarrow> 's \<Rightarrow> 's) \<Rightarrow> (bool \<Rightarrow> 's \<Rightarrow> bool) \<Rightarrow> bool option list \<Rightarrow> 's process \<Rightarrow> 's process" where
  "run_process step ended sched p \<equiv> fold (turn step ended) sched p"

text \<open>The two loops over \<^verbatim>\<open>pthread_create\<close> and \<^verbatim>\<open>pthread_join\<close>; \<open>rc\<close> numbers the results of the calls.\<close>

definition create_both :: "(nat \<Rightarrow> int) \<Rightarrow> 's main_op list" where
  "create_both rc = [Create False (rc 0), Create True (rc 1)]"

definition join_both :: "(nat \<Rightarrow> int) \<Rightarrow> 's main_op list" where
  "join_both rc = [Join False (rc 2), Join True (rc 3)]"

lemma stopped_stays: "status p \<noteq> None \<Longrightarrow> run_process step ended sched p = p"
  by (induction sched) (auto simp: turn_def)

lemma turn_code: "set (code (turn step ended e p)) \<subseteq> set (code p)"
  by (auto simp: turn_def main_turn_def split: option.splits list.splits main_op.splits)

text \<open>Turns of one thread only.\<close>

lemma run_alone:
  "status p = None \<Longrightarrow> started p i \<Longrightarrow>
   run_process step ended (replicate n (Some i)) p = p\<lparr>mem := fold step (replicate n i) (mem p)\<rparr>"
  by (induction n arbitrary: p) (simp_all add: turn_def)

text \<open>What every step of a thread and every call of the main thread keep holds throughout.\<close>

lemma run_process_mem:
  assumes "P (mem p)" and "\<And>i s. P s \<Longrightarrow> P (step i s)" and "\<And>f s. Call f \<in> set (code p) \<Longrightarrow> P s \<Longrightarrow> P (f s)"
  shows "P (mem (run_process step ended sched p))"
  using assms(1,3)
proof (induction sched arbitrary: p)
  case (Cons e sched)
  have "P (mem (turn step ended e p))"
    using Cons.prems assms(2)
    by (auto simp: turn_def main_turn_def split: option.splits list.splits main_op.splits)
  with Cons.IH Cons.prems(2) turn_code [of step ended e p] show ?case by (metis fold_simps(2) subsetD)
qed simp

section \<open>Processes that join their threads\<close>

text \<open>
  The contract of a program whose \<^verbatim>\<open>main\<close> is the two loops followed by the calls \<open>fs\<close>: these do not
  set an ended thread in motion.
\<close>

locale joining_process = two_threads step inv todo
  for step :: "bool \<Rightarrow> 's \<Rightarrow> 's" and inv :: "'s \<Rightarrow> bool" and todo :: "bool \<Rightarrow> 's \<Rightarrow> nat" +
  fixes ended :: "bool \<Rightarrow> 's \<Rightarrow> bool" and fs :: "('s \<Rightarrow> 's) list"
  assumes ended: "ended i s \<longleftrightarrow> todo i s = 0"
    and call_idle: "f \<in> set fs \<Longrightarrow> todo i s = 0 \<Longrightarrow> todo i (f s) = 0"
begin

definition main_code :: "(nat \<Rightarrow> int) \<Rightarrow> 's main_op list" where
  "main_code rc = create_both rc @ join_both rc @ map Call fs"

text \<open>What holds after \<open>n\<close> operations of \<^verbatim>\<open>main\<close>: the threads have run some schedule, and those joined have ended.\<close>

definition process_inv :: "(nat \<Rightarrow> int) \<Rightarrow> 's \<Rightarrow> 's process \<Rightarrow> bool" where
  "process_inv rc s p \<longleftrightarrow> (\<exists>n sched. code p = drop n (main_code rc) \<and> n \<le> 4 + length fs \<and>
     mem p = fold (\<lambda>f. f) (take (n - 4) fs) (fold step sched s) \<and>
     (\<forall>i. started p i \<longleftrightarrow> (if i then 1 else 0) < n) \<and>
     (\<forall>i. (if i then 3 else 2) < n \<longrightarrow> todo i (fold step sched s) = 0) \<and>
     (\<forall>k<4. k < n \<longrightarrow> rc k = 0) \<and>
     (case status p of None \<Rightarrow> True | Some v \<Rightarrow>
        v = 0 \<and> n = 4 + length fs \<or> v = 1 \<and> n < 4 \<and> rc n \<noteq> 0))"

lemma calls_idle: "set gs \<subseteq> set fs \<Longrightarrow> todo i s = 0 \<Longrightarrow> todo i (fold (\<lambda>f. f) gs s) = 0"
  by (induction gs arbitrary: s) (auto simp: call_idle)

lemma begin_inv: "process_inv rc s (begin_process (main_code rc) s)"
  unfolding process_inv_def begin_process_def
  by (intro exI [of _ 0] exI [of _ "[]"]) simp

lemma main_code_at:
  "drop 0 (main_code rc) = Create False (rc 0) # drop 1 (main_code rc)"
  "drop 1 (main_code rc) = Create True (rc 1) # drop 2 (main_code rc)"
  "drop 2 (main_code rc) = Join False (rc 2) # drop 3 (main_code rc)"
  "drop 3 (main_code rc) = Join True (rc 3) # drop 4 (main_code rc)"
  "k < length fs \<Longrightarrow> drop (4 + k) (main_code rc) = Call (fs ! k) # drop (4 + Suc k) (main_code rc)"
  "drop (4 + length fs) (main_code rc) = []"
  by (simp_all add: main_code_def create_both_def join_both_def numeral_eq_Suc drop_map Cons_nth_drop_Suc [symmetric])

lemma turn_inv:
  assumes "process_inv rc s p" "inv s"
  shows "process_inv rc s (turn step ended e p)"
proof (cases "status p")
  case (Some v)
  with assms show ?thesis by (simp add: turn_def)
next
  case running: None
  obtain n sched where n: "code p = drop n (main_code rc)" "n \<le> 4 + length fs"
     "mem p = fold (\<lambda>f. f) (take (n - 4) fs) (fold step sched s)"
     "\<forall>i. started p i \<longleftrightarrow> (if i then 1 else 0) < n"
     "\<forall>i. (if i then 3 else 2) < n \<longrightarrow> todo i (fold step sched s) = 0" "\<forall>k<4. k < n \<longrightarrow> rc k = 0"
    using assms by (auto simp: process_inv_def)
  show ?thesis
  proof (cases e)
    case (Some i)
    show ?thesis
    proof (cases "n \<le> 4")
      case True
      have "todo j (fold step (sched @ [i]) s) = 0" if "(if j then 3 else 2) < n" for j
      proof -
        have "todo j (fold step sched s) = 0" using n(5) that by blast
        then show ?thesis
          using step_le [OF schedule_inv [OF assms(2)], of j i sched] by simp
      qed
      then have "process_inv rc s (p\<lparr>mem := step i (mem p)\<rparr>)"
        using n True running unfolding process_inv_def
        by (intro exI [of _ n] exI [of _ "sched @ [i]"]) simp
      with assms(1) show ?thesis by (simp add: turn_def Some)
    next
      case False
      then have "todo i (fold step sched s) = 0" using n(5) by (auto split: if_splits)
      then have "todo i (mem p) = 0" by (simp add: n(3) calls_idle set_take_subset)
      then have "turn step ended e p = p" by (simp add: turn_def Some idle_step)
      with assms show ?thesis by simp
    qed
  next
    case None
    have t: "turn step ended e p = main_turn ended p" by (simp add: turn_def None running)
    have stay: "process_inv rc s (p\<lparr>status := Some 1\<rparr>)" if "n < 4" "rc n \<noteq> 0"
      using n that unfolding process_inv_def by (intro exI [of _ n] exI [of _ sched]) simp
    have next_op: "process_inv rc s (p\<lparr>started := st, code := drop (Suc n) (main_code rc)\<rparr>)"
      if "n < 4" "rc n = 0" "\<forall>i. st i \<longleftrightarrow> (if i then 1 else 0) < Suc n"
        "\<forall>i. n = (if i then 3 else 2) \<longrightarrow> todo i (fold step sched s) = 0" for st
      using n that running unfolding process_inv_def
      by (intro exI [of _ "Suc n"] exI [of _ sched]) (auto simp: less_Suc_eq)
    consider (create) i where "n = (if i then 1 else 0)" | (join) i where "n = (if i then 3 else 2)"
      | (call) k where "n = 4 + k" "k < length fs" | (return) "n = 4 + length fs"
    proof (cases "n < 4")
      case True
      then have "n = 0 \<or> n = 1 \<or> n = 2 \<or> n = 3" by auto
      then show thesis using create [of False] create [of True] join [of False] join [of True] by auto
    next
      case False
      then have "n = 4 + (n - 4)" by simp
      then show thesis using n(2) call [of "n - 4"] return by (cases "n = 4 + length fs") auto
    qed
    then show ?thesis
    proof cases
      case (create i)
      have c: "code p = Create i (rc n) # drop (Suc n) (main_code rc)"
        using n(1) create main_code_at(1,2) [of rc] by (cases i) (auto simp: numeral_2_eq_2)
      have st: "\<forall>j. ((started p)(i := True)) j \<longleftrightarrow> (if j then 1 else 0) < Suc n"
        using n(4) create by (cases i) auto
      have nx: "process_inv rc s (p\<lparr>started := (started p)(i := True), code := drop (Suc n) (main_code rc)\<rparr>)"
        if "rc n = 0"
        using next_op [of "(started p)(i := True)"] st create that by (cases i) auto
      show ?thesis
        using nx stay create by (cases i; cases "rc n = 0") (simp_all add: t main_turn_def c)
    next
      case (join i)
      have c: "code p = Join i (rc n) # drop (Suc n) (main_code rc)"
        using n(1) join main_code_at(3,4) [of rc] by (cases i) (auto simp: numeral_eq_Suc)
      have "mem p = fold step sched s" using n(3) join by (cases i) auto
      moreover have "\<forall>j. started p j \<longleftrightarrow> (if j then 1 else 0) < Suc n" using n(4) join by auto
      ultimately have nx: "process_inv rc s (p\<lparr>code := drop (Suc n) (main_code rc)\<rparr>)"
        if "rc n = 0" "todo i (mem p) = 0"
        using next_op [of "started p"] join that by (cases i) auto
      show ?thesis
        using nx stay assms(1) join
        by (cases i; cases "rc n = 0"; cases "todo i (mem p) = 0") (auto simp: t main_turn_def c ended)
    next
      case (call k)
      have c: "code p = Call (fs ! k) # drop (Suc n) (main_code rc)"
        using n(1) call main_code_at(5) [of k rc] by simp
      have "process_inv rc s (p\<lparr>mem := (fs ! k) (mem p), code := drop (Suc n) (main_code rc)\<rparr>)"
        using n call running unfolding process_inv_def
        by (intro exI [of _ "Suc n"] exI [of _ sched]) (auto simp: take_Suc_conv_app_nth)
      then show ?thesis by (simp add: t main_turn_def c)
    next
      case return
      then have "code p = []" using n(1) main_code_at(6) [of rc] by simp
      moreover have "process_inv rc s (p\<lparr>status := Some 0\<rparr>)"
        using n return unfolding process_inv_def by (intro exI [of _ n] exI [of _ sched]) simp
      ultimately show ?thesis by (simp add: t main_turn_def)
    qed
  qed
qed

lemma run_inv: "inv s \<Longrightarrow> process_inv rc s p \<Longrightarrow> process_inv rc s (run_process step ended sched p)"
  by (induction sched arbitrary: p) (auto intro: turn_inv)

text \<open>Whenever the process has ended: with 0 only after everything is done, with 1 only after a failed call.\<close>

lemma exit_status:
  assumes "inv s" "p = run_process step ended sched (begin_process (main_code rc) s)" "status p = Some v"
  shows "(v = 0 \<and> (\<forall>k<4. rc k = 0) \<and> (\<exists>sched'. mem p = fold (\<lambda>f. f) fs (fold step sched' s) \<and>
      (\<forall>i. todo i (fold step sched' s) = 0))) \<or>
    (v = 1 \<and> (\<exists>k<4. rc k \<noteq> 0) \<and> (\<exists>sched'. mem p = fold step sched' s))"
proof -
  have "process_inv rc s p" unfolding assms(2) by (rule run_inv [OF assms(1) begin_inv])
  with assms(3) show ?thesis unfolding process_inv_def by fastforce
qed

lemma todo_mem:
  assumes "process_inv rc s p" "inv s"
  shows "inv (mem p) \<and> (\<forall>f. Call f \<notin> set (take 1 (code p))) \<or>
    (\<forall>i. todo i (mem p) = 0) \<and> (\<forall>f. Call f \<in> set (take 1 (code p)) \<longrightarrow> f \<in> set fs)"
proof -
  obtain n sched where n: "code p = drop n (main_code rc)" "n \<le> 4 + length fs"
     "mem p = fold (\<lambda>f. f) (take (n - 4) fs) (fold step sched s)"
     "\<forall>i. (if i then 3 else 2) < n \<longrightarrow> todo i (fold step sched s) = 0"
    using assms by (auto simp: process_inv_def)
  show ?thesis
  proof (cases "n < 4")
    case True
    then have "n = 0 \<or> n = 1 \<or> n = 2 \<or> n = 3" by auto
    then have "Call f \<notin> set (take 1 (code p))" for f
      unfolding n(1) using main_code_at(1-4) [of rc] by (elim disjE) (simp_all add: main_code_def create_both_def)
    then show ?thesis using n(3) True schedule_inv [OF assms(2), of sched] by simp
  next
    case False
    then have "todo i (mem p) = 0" for i
      using n(3,4) calls_idle [OF set_take_subset] by (cases i) auto
    moreover have "set (code p) = Call ` set (drop (n - 4) fs)"
      using False n(1) by (simp add: main_code_def create_both_def join_both_def drop_Cons' drop_map numeral_eq_Suc)
    then have "f \<in> set fs" if "Call f \<in> set (take 1 (code p))" for f
      using in_set_takeD [OF that] in_set_dropD by fastforce
    ultimately show ?thesis by blast
  qed
qed

lemma turn_todo:
  assumes "process_inv rc s p" "inv s"
  shows "todo i (mem (turn step ended e p)) \<le> todo i (mem p)"
    and "status p = None \<Longrightarrow> started p i \<Longrightarrow> todo i (mem p) \<noteq> 0 \<Longrightarrow>
      todo i (mem (turn step ended (Some i) p)) < todo i (mem p)"
    and "started p i \<Longrightarrow> started (turn step ended e p) i"
    and "length (code (turn step ended e p)) \<le> length (code p)"
  using todo_mem [OF assms] step_le own_step idle_step call_idle
  by (auto simp: turn_def main_turn_def split: option.splits list.splits main_op.splits)

lemma run_todo:
  assumes "inv s" "process_inv rc s p" "started p i"
  shows "status (run_process step ended sched p) \<noteq> None \<or>
    todo i (mem (run_process step ended sched p)) \<le> todo i (mem p) - count_list sched (Some i)"
  using assms(2,3)
proof (induction sched arbitrary: p)
  case Nil
  then show ?case by simp
next
  case (Cons e sched)
  show ?case
  proof (cases "status p = None")
    case False
    then show ?thesis using stopped_stays [OF False, of step ended "e # sched"] by simp
  next
    case True
    let ?q = "turn step ended e p"
    have "todo i (mem ?q) \<le> todo i (mem p) - (if e = Some i then 1 else 0)"
      using turn_todo(1) [OF Cons.prems(1) assms(1), of i e] turn_todo(2) [OF Cons.prems(1) assms(1) True Cons.prems(2)]
      by (cases "todo i (mem p) = 0"; cases "e = Some i") auto
    with Cons.IH [OF turn_inv [OF Cons.prems(1) assms(1)] turn_todo(3) [OF Cons.prems(1) assms(1) Cons.prems(2)], of e]
    show ?thesis by auto
  qed
qed

text \<open>A turn of the main thread brings it on, unless it waits for a thread.\<close>

definition waiting :: "'s process \<Rightarrow> bool" where
  "waiting p \<longleftrightarrow> (\<exists>i rc ops. code p = Join i rc # ops \<and> todo i (mem p) \<noteq> 0)"

definition weight :: "'s process \<Rightarrow> nat" where
  "weight p = (if status p = None then Suc (length (code p)) else 0)"

lemma weight_turn:
  assumes "process_inv rc s p" "inv s"
  shows "weight (turn step ended e p) \<le> weight p"
    and "\<not> waiting p \<Longrightarrow> weight (turn step ended None p) \<le> weight p - 1"
  using turn_todo(4) [OF assms, of e]
  by (auto simp: weight_def turn_def main_turn_def waiting_def ended split: list.splits main_op.splits option.splits)

lemma run_mono:
  assumes "inv s" "process_inv rc s p"
  shows "todo i (mem (run_process step ended sched p)) \<le> todo i (mem p)"
    and "weight (run_process step ended sched p) \<le> weight p"
  using assms(2)
proof (induction sched arbitrary: p)
  case (Cons e sched)
  {
    case 1
    with Cons.IH(1) [OF turn_inv [OF 1 assms(1), of e]] turn_todo(1) [OF 1 assms(1), of i e]
    show ?case by simp
  next
    case 2
    with Cons.IH(2) [OF turn_inv [OF 2 assms(1), of e]] weight_turn(1) [OF 2 assms(1), of e]
    show ?case by simp
  }
qed simp_all

lemma run_main:
  assumes "inv s" and free: "\<And>q. process_inv rc s q \<Longrightarrow> P q \<Longrightarrow> L < weight q \<Longrightarrow> \<not> waiting q"
    and keep: "\<And>q e. process_inv rc s q \<Longrightarrow> P q \<Longrightarrow> P (turn step ended e q)"
    and "process_inv rc s p" "P p"
  shows "weight (run_process step ended sched p) \<le> max L (weight p - count_list sched None)"
  using assms(4,5)
proof (induction sched arbitrary: p)
  case Nil
  then show ?case by simp
next
  case (Cons e sched)
  let ?q = "turn step ended e p"
  have "weight ?q \<le> max L (weight p - (if e = None then 1 else 0))"
    using weight_turn(1) [OF Cons.prems(1) assms(1), of e] weight_turn(2) [OF Cons.prems(1) assms(1)] free [OF Cons.prems]
    by (cases "L < weight p"; cases e) auto
  with Cons.IH [OF turn_inv [OF Cons.prems(1) assms(1), of e] keep [OF Cons.prems]] show ?case
    by (auto split: if_splits)
qed

lemma started_from:
  assumes "process_inv rc s p" "weight p \<le> 3 + length fs" "status p = None"
  shows "started p i"
proof -
  obtain n where "code p = drop n (main_code rc)" "\<forall>i. started p i \<longleftrightarrow> (if i then 1 else 0) < n"
    using assms(1) by (auto simp: process_inv_def)
  moreover have "length (main_code rc) = 4 + length fs" by (simp add: main_code_def create_both_def join_both_def)
  ultimately show ?thesis using assms(2,3) by (cases i) (auto simp: weight_def)
qed

lemma creating_not_waiting:
  assumes "process_inv rc s p" "3 + length fs < weight p"
  shows "\<not> waiting p"
proof -
  obtain n where n: "code p = drop n (main_code rc)" using assms(1) by (auto simp: process_inv_def)
  moreover have "length (main_code rc) = 4 + length fs" by (simp add: main_code_def create_both_def join_both_def)
  ultimately have "n < 2" using assms(2) by (auto simp: weight_def split: if_splits)
  then have "n = 0 \<or> n = 1" by auto
  then show ?thesis unfolding waiting_def n using main_code_at(1,2) [of rc] by auto
qed

text \<open>
  The process ends: after enough turns of the main thread both threads have been created, after
  enough turns of theirs they have ended, and then the main thread never waits.
\<close>

lemma process_ends:
  assumes "inv s" "2 \<le> count_list sched1 None" "\<And>i. todo i s \<le> count_list sched2 (Some i)"
    "3 + length fs \<le> count_list sched3 None"
  shows "status (run_process step ended (sched1 @ sched2 @ sched3) (begin_process (main_code rc) s)) \<noteq> None"
proof -
  let ?run = "run_process step ended"
  define p0 where "p0 = begin_process (main_code rc) s"
  define p1 where "p1 = ?run sched1 p0"
  define p2 where "p2 = ?run sched2 p1"
  have inv: "process_inv rc s p0" "process_inv rc s p1" "process_inv rc s p2"
    using begin_inv run_inv [OF assms(1)] by (auto simp: p0_def p1_def p2_def)
  have "weight p0 = 5 + length fs" by (simp add: p0_def begin_process_def weight_def main_code_def create_both_def join_both_def)
  then have w1: "weight p1 \<le> 3 + length fs"
    using run_main [OF assms(1), of rc "\<lambda>_. True" "3 + length fs" p0 sched1] creating_not_waiting inv(1) assms(2)
    by (auto simp: p1_def)
  have fin: "status p2 \<noteq> None \<or> (\<forall>i. todo i (mem p2) = 0)"
  proof (cases "status p1 = None")
    case True
    have "todo i (mem p1) \<le> count_list sched2 (Some i)" for i
      using run_mono(1) [OF assms(1) inv(1), of i sched1] assms(3) [of i] by (simp add: p1_def p0_def begin_process_def)
    then show ?thesis
      using run_todo [OF assms(1) inv(2) started_from [OF inv(2) w1 True], of sched2] by (auto simp: p2_def)
  next
    case False
    then show ?thesis by (simp add: p2_def stopped_stays)
  qed
  have "weight (?run sched3 p2) = 0"
  proof (cases "status p2 = None")
    case True
    have keep: "\<forall>i. todo i (mem (turn step ended e q)) = 0" if "process_inv rc s q" "\<forall>i. todo i (mem q) = 0" for q e
      using turn_todo(1) [OF that(1) assms(1)] that(2) by (metis le_zero_eq)
    have "weight p2 \<le> weight p1"
      using run_mono(2) [OF assms(1) inv(2), of sched2] by (simp add: p2_def)
    then show ?thesis
      using run_main [OF assms(1), of rc "\<lambda>q. \<forall>i. todo i (mem q) = 0" 0 p2 sched3] keep fin True inv(3) w1 assms(4)
      by (auto simp: waiting_def)
  next
    case False
    then show ?thesis by (simp add: stopped_stays) (simp add: weight_def)
  qed
  then show ?thesis by (simp add: p2_def p1_def p0_def weight_def split: if_splits)
qed

end

end
