(* ===== verification/Thread_Programs.thy ===== *)
theory Thread_Programs
  imports Thread_Process "HOL-Library.Sublist"
begin

text \<open>
  The programs with two threads of \<^verbatim>\<open>8/open_file/src\<close> as processes: \<^verbatim>\<open>main\<close> of \<^verbatim>\<open>1_thread.c\<close>,
  \<^verbatim>\<open>2_thread.c\<close>, \<^verbatim>\<open>2_1_thread.c\<close> and \<^verbatim>\<open>3_thread.c\<close> after the files have been opened, with every
  result the pthread calls can have. A process that ends with status 0 has done all its work,
  one that ends with 1 has lost what its threads had not done yet; for \<^verbatim>\<open>3_thread.c\<close>, what \<^verbatim>\<open>exit\<close> then flushes.
\<close>

section \<open>\<^verbatim>\<open>1_thread.c\<close>\<close>

definition t1_ended :: "bool \<Rightarrow> t1 \<Rightarrow> bool" where
  "t1_ended i s \<longleftrightarrow> pcs s i = Finished"

definition t1_code :: "(nat \<Rightarrow> int) \<Rightarrow> t1 main_op list" where
  "t1_code rc = create_both rc @ join_both rc"

interpretation t1p: joining_process t1_thread_start "t1_inv c" t1_todo t1_ended "[]" for c
  by unfold_locales (simp_all add: t1_ended_def t1_finished)

section \<open>\<^verbatim>\<open>2_thread.c\<close>\<close>

definition t2_ended :: "bool \<Rightarrow> t2 \<Rightarrow> bool" where
  "t2_ended i s \<longleftrightarrow> pcs2 s i = Finished"

definition t2_close :: "bool \<Rightarrow> t2 \<Rightarrow> t2" where
  "t2_close i s = s\<lparr>os2 := sys_close (fds s i) (os2 s)\<rparr>"

definition t2_code :: "(nat \<Rightarrow> int) \<Rightarrow> t2 main_op list" where
  "t2_code rc = create_both rc @ join_both rc @ [Call (t2_close False), Call (t2_close True)]"

lemma t2_finished: "t2_todo i s = 0 \<longleftrightarrow> pcs2 s i = Finished"
  by (auto simp: t2_todo_def Let_def split: tpc.splits)

interpretation t2p: joining_process t2_thread_start "t2_inv c" t2_todo t2_ended "[t2_close False, t2_close True]" for c
  by unfold_locales (auto simp: t2_ended_def t2_finished t2_close_def)

section \<open>\<^verbatim>\<open>2_1_thread.c\<close>\<close>

definition t21_ended :: "bool \<Rightarrow> t21 \<Rightarrow> bool" where
  "t21_ended i s \<longleftrightarrow> todo21 s i = []"

definition t21_close :: "bool \<Rightarrow> t21 \<Rightarrow> t21" where
  "t21_close i s = s\<lparr>os21 := sys_close (fds21 s i) (os21 s)\<rparr>"

definition t21_code :: "(nat \<Rightarrow> int) \<Rightarrow> t21 main_op list" where
  "t21_code rc = create_both rc @ join_both rc @ [Call (t21_close False), Call (t21_close True)]"

interpretation t21p: joining_process "t21_thread_start ino" "t21_inv c" t21_todo t21_ended "[t21_close False, t21_close True]" for ino c
  by unfold_locales (auto simp: t21_ended_def t21_done t21_close_def)

section \<open>\<^verbatim>\<open>3_thread.c\<close>\<close>

definition t3_ended :: "bool \<Rightarrow> t3 \<Rightarrow> bool" where
  "t3_ended i s \<longleftrightarrow> todo3 s i = []"

definition t3_fclose :: "bool \<Rightarrow> t3 \<Rightarrow> t3" where
  "t3_fclose i s = s\<lparr>os3 := fclose (strm3 s i) (os3 s)\<rparr>"

definition t3_stat :: "nat \<Rightarrow> t3 \<Rightarrow> t3" where
  "t3_stat ino s = s\<lparr>statbuf3 := sys_stat ino (os3 s) (statbuf3 s)\<rparr>"

definition t3_print :: "nat \<Rightarrow> bool \<Rightarrow> t3 \<Rightarrow> t3" where
  "t3_print blksize i s = s\<lparr>os3 := emit (t3_line ''fclose fs'' i blksize (statbuf3 s)) (os3 s)\<rparr>"

definition t3_calls :: "nat \<Rightarrow> nat \<Rightarrow> (t3 \<Rightarrow> t3) list" where
  "t3_calls ino blksize =
     [t3_fclose False, t3_stat ino, t3_print blksize False, t3_fclose True, t3_stat ino, t3_print blksize True]"

definition t3_code :: "nat \<Rightarrow> nat \<Rightarrow> (nat \<Rightarrow> int) \<Rightarrow> t3 main_op list" where
  "t3_code ino blksize rc = create_both rc @ join_both rc @ map Call (t3_calls ino blksize)"

lemma t3_calls_finish: "os3 (fold (\<lambda>f. f) (t3_calls ino blksize) s) = t3_finish ino blksize s"
  by (simp add: t3_calls_def t3_fclose_def t3_stat_def t3_print_def t3_finish_def Let_def)

interpretation t3p: joining_process "t3_thread_start ino blksize" t3_inv t3_todo t3_ended "t3_calls ino blksize" for ino blksize
  by unfold_locales (auto simp: t3_ended_def t3_done t3_calls_def t3_fclose_def t3_stat_def t3_print_def)

lemmas code_simps = t1_code_def t2_code_def t21_code_def t3_code_def
  t1p.main_code_def t2p.main_code_def t21p.main_code_def t3p.main_code_def

lemma codes:
  "t1_code rc = t1p.main_code rc" "t2_code rc = t2p.main_code rc" "t21_code rc = t21p.main_code rc"
  "t3_code ino blksize rc = t3p.main_code ino blksize rc"
  by (simp_all add: code_simps)


section \<open>Properties\<close>

text \<open>What a thread has written is a beginning of its letters, all of them once it has ended.\<close>

lemma t21_written:
  assumes "t21_inv c s"
  shows "\<exists>xs ys z. content (os21 s) = Some (c @ z) \<and> z \<in> shuffles xs ys \<and> prefix xs (mine False) \<and> prefix ys (mine True) \<and>
    ((\<forall>i. todo21 s i = []) \<longrightarrow> xs = mine False \<and> ys = mine True)"
proof -
  obtain w z where "content (os21 s) = Some (c @ z)" "z \<in> shuffles (w False) (w True)"
    and w: "\<And>i. w i @ unwritten (pc21 s i) (todo21 s i) = mine i"
    using assms unfolding t21_inv_def by blast
  moreover have "prefix (w i) (mine i)" for i using w [of i] by (metis prefixI)
  moreover have "w i = mine i" if "todo21 s i = []" for i using w [of i] that by (cases "pc21 s i") auto
  ultimately show ?thesis by blast
qed

lemma content_close [simp]: "content (sys_close fd s) = content s"
  by (simp add: sys_close_def split: option.splits)

text \<open>
  C22: \<^verbatim>\<open>2_1_thread.c\<close> as a process. However the main thread and the two threads take turns and
  whatever the pthread calls return: if the process ends with status 0, no call has failed and the
  file has grown by an interleaving of all 13 letters with even and all 13 with odd codes; if it
  ends with 1, a call has failed and what the threads had not written yet is lost; no other status
  is possible. Once main has had two turns, then each thread 39, then main five, it has ended.
\<close>

theorem t21_process:
  fixes c ino rc sched
  defines "p \<equiv> run_process (t21_thread_start ino) t21_ended sched (begin_process (t21_code rc) (t21_main (initial (Some c))))"
  shows "(\<forall>v. status p = Some v \<longrightarrow>
      (v = 0 \<longleftrightarrow> (\<forall>k<4. rc k = 0)) \<and> (v = 0 \<or> v = 1) \<and>
      (\<exists>xs ys z. content (os21 (mem p)) = Some (c @ z) \<and> z \<in> shuffles xs ys \<and>
        prefix xs ''bdfhjlnprtvxz'' \<and> prefix ys ''acegikmoqsuwy'' \<and>
        (v = 0 \<longrightarrow> xs = ''bdfhjlnprtvxz'' \<and> ys = ''acegikmoqsuwy''))) \<and>
    ((\<exists>a b d. sched = a @ b @ d \<and> 2 \<le> count_list a None \<and> (\<forall>i. 39 \<le> count_list b (Some i)) \<and> 5 \<le> count_list d None) \<longrightarrow>
      status p \<noteq> None)"
proof (intro conjI allI impI)
  let ?s = "t21_main (initial (Some c))"
  have inv: "t21_inv c ?s" and todo: "t21_todo i ?s = 39" for i using t21_main_inv by blast+
  {
    fix v
    assume v: "status p = Some v"
    have "p = run_process (t21_thread_start ino) t21_ended sched (begin_process (t21p.main_code rc) ?s)"
      by (simp add: p_def codes)
    from t21p.exit_status [OF inv this v] obtain sched' where
      e: "v = 0 \<and> (\<forall>k<4. rc k = 0) \<and>
          mem p = fold (\<lambda>f. f) [t21_close False, t21_close True] (fold (t21_thread_start ino) sched' ?s) \<and>
          (\<forall>i. t21_todo i (fold (t21_thread_start ino) sched' ?s) = 0) \<or>
        v = 1 \<and> (\<exists>k<4. rc k \<noteq> 0) \<and> mem p = fold (t21_thread_start ino) sched' ?s"
      by blast
    let ?t = "fold (t21_thread_start ino) sched' ?s"
    obtain xs ys z where w: "content (os21 ?t) = Some (c @ z)" "z \<in> shuffles xs ys" "prefix xs (mine False)"
      "prefix ys (mine True)" "(\<forall>i. todo21 ?t i = []) \<longrightarrow> xs = mine False \<and> ys = mine True"
      using t21_written [OF t21.schedule_inv [OF inv, of ino sched']] by blast
    show "v = 0 \<longleftrightarrow> (\<forall>k<4. rc k = 0)" "v = 0 \<or> v = 1" using e by auto
    have "content (os21 (mem p)) = content (os21 ?t)"
      using e by (auto simp: t21_close_def)
    moreover have "v = 0 \<longrightarrow> xs = mine False \<and> ys = mine True" using e w(5) by (auto simp: t21_done)
    ultimately show "\<exists>xs ys z. content (os21 (mem p)) = Some (c @ z) \<and> z \<in> shuffles xs ys \<and>
        prefix xs ''bdfhjlnprtvxz'' \<and> prefix ys ''acegikmoqsuwy'' \<and>
        (v = 0 \<longrightarrow> xs = ''bdfhjlnprtvxz'' \<and> ys = ''acegikmoqsuwy'')"
      using w(1-4) unfolding mine_letters by metis
  }
  assume "\<exists>a b d. sched = a @ b @ d \<and> 2 \<le> count_list a None \<and> (\<forall>i. 39 \<le> count_list b (Some i)) \<and> 5 \<le> count_list d None"
  then show "status p \<noteq> None"
    using t21p.process_ends [OF inv] todo unfolding p_def codes by fastforce
qed


definition t21_schedule :: "bool option list" where
  "t21_schedule = [None, None] @ (replicate 39 (Some True) @ replicate 39 (Some False)) @ replicate 5 None"

theorem t21_process_witness:
  "status (run_process (t21_thread_start 7) t21_ended t21_schedule (begin_process (t21_code (\<lambda>_. 0)) (t21_main (initial (Some ''x''))))) = Some 0 \<and>
   (\<exists>z. content (os21 (mem (run_process (t21_thread_start 7) t21_ended t21_schedule
       (begin_process (t21_code (\<lambda>_. 0)) (t21_main (initial (Some ''x''))))))) = Some (''x'' @ z) \<and>
     z \<in> shuffles ''bdfhjlnprtvxz'' ''acegikmoqsuwy'')"
proof -
  let ?p = "run_process (t21_thread_start 7) t21_ended t21_schedule (begin_process (t21_code (\<lambda>_. 0)) (t21_main (initial (Some ''x''))))"
  have c: "2 \<le> count_list [None, None :: bool option] None" "5 \<le> count_list (replicate 5 (None :: bool option)) None"
    "\<forall>i. 39 \<le> count_list (replicate 39 (Some True) @ replicate 39 (Some False)) (Some i)"
    by (simp_all add: numeral_eq_Suc)
  note t = t21_process [where c = "''x''" and ino = 7 and rc = "\<lambda>_. 0" and sched = t21_schedule]
  have "status ?p \<noteq> None"
    by (rule conjunct2 [OF t, THEN mp]) (use c in \<open>unfold t21_schedule_def, blast\<close>)
  then obtain v where v: "status ?p = Some v" by blast
  with t have "v = 0" by auto
  with v conjunct1 [OF t] show ?thesis by blast
qed

text \<open>\<^verbatim>\<open>1_thread.c\<close>: a process that ends with status 0 has printed every character exactly once.\<close>

theorem t1_process:
  assumes "t1_main (initial (Some c)) = Inr s"
    and "p = run_process t1_thread_start t1_ended sched (begin_process (t1_code rc) s)" "status p = Some 0"
  shows "\<exists>ps. out (os1 (mem p)) = concat (map t1_line ps) \<and> mset (map snd ps) = mset c"
proof -
  have inv: "t1_inv c s" using t1_main_inv [of c] assms(1) by auto
  obtain sched' where t: "mem p = fold t1_thread_start sched' s" "\<forall>i. t1_todo i (mem p) = 0"
    using t1p.exit_status [OF inv assms(2) [unfolded codes] assms(3)] by auto
  then have "t1_inv c (mem p)" "\<forall>i. pcs (mem p) i = Finished"
    using t1.schedule_inv [OF inv, of sched'] by (simp_all add: t1_finished)
  then show ?thesis unfolding t1_inv_def by fastforce
qed

theorem t1_process_witness:
  "out (os1 (mem (run_process t1_thread_start t1_ended
      ([None, None] @ replicate 3 (Some False) @ replicate 3 (Some True) @ replicate 3 None)
      (begin_process (t1_code (\<lambda>_. 0)) (projr (t1_main (initial (Some ''q'')))))))) = t1_line (False, CHR ''q'')"
  by code_simp

text \<open>\<^verbatim>\<open>2_thread.c\<close>: a process that ends with status 0 has printed two interleaved copies of the file.\<close>

theorem t2_process:
  assumes "p = run_process t2_thread_start t2_ended sched (begin_process (t2_code rc) (t2_main g (initial (Some c))))"
    and "status p = Some 0"
  shows "out (os2 (mem p)) \<in> shuffles c c"
proof -
  let ?s = "t2_main g (initial (Some c))"
  have inv: "t2_inv c ?s" using t2_main_inv by blast
  obtain sched' where t: "mem p = fold (\<lambda>f. f) [t2_close False, t2_close True] (fold t2_thread_start sched' ?s)"
    "\<forall>i. t2_todo i (fold t2_thread_start sched' ?s) = 0"
    using t2p.exit_status [OF inv assms(1) [unfolded codes] assms(2)] by auto
  let ?t = "fold t2_thread_start sched' ?s"
  obtain w where w: "out (os2 ?t) \<in> shuffles (w False) (w True)"
    "\<And>i. \<exists>r. rest (didx i) (os2 ?t) = Some r \<and> w i @ in_hand (pcs2 ?t i) @ r = c \<and> (pcs2 ?t i = Finished \<longrightarrow> r = [])"
    using t2.schedule_inv [OF inv, of sched'] unfolding t2_inv_def by blast
  have "w i = c" for i using w(2) [of i] t(2) by (auto simp: t2_finished)
  moreover have "out (os2 (mem p)) = out (os2 ?t)"
    unfolding t(1) by (auto simp: t2_close_def sys_close_def split: option.splits)
  ultimately show ?thesis using w(1) by simp
qed

text \<open>
  \<^verbatim>\<open>3_thread.c\<close>: a process that ends with status 0 leaves all 26 letters in the file.
\<close>

theorem t3_process:
  assumes "13 \<le> bufsz"
    and "p = run_process (t3_thread_start ino blksize) t3_ended sched (begin_process (t3_code ino blksize rc) (t3_main bufsz (initial f)))"
    and "status p = Some 0"
  shows "content (os3 (mem p)) = Some (''bdfhjlnprtvxz'' @ ''acegikmoqsuwy'')"
proof -
  let ?s = "t3_main bufsz (initial f)"
  have inv: "t3_inv ?s" using t3_main_inv [OF assms(1)] by blast
  note e = t3p.exit_status [OF inv assms(2) [unfolded codes]]
  from e [OF assms(3)] obtain sched' where t: "mem p = fold (\<lambda>f. f) (t3_calls ino blksize) (fold (t3_thread_start ino blksize) sched' ?s)"
    "\<forall>i. t3_todo i (fold (t3_thread_start ino blksize) sched' ?s) = 0" by auto
  let ?t = "fold (t3_thread_start ino blksize) sched' ?s"
  have "t3_inv ?t" by (rule t3.schedule_inv [OF inv])
  then have os: "content (os3 ?t) = Some []"
    "descs (os3 ?t) = [Some \<lparr>off = 0, app = False\<rparr>, Some \<lparr>off = 0, app = True\<rparr>]"
    and each: "wfd (strm3 ?t i) = Some (didx i) \<and> wbuf (strm3 ?t i) @ unwritten (pc3 ?t i) (todo3 ?t i) = mine i" for i
    unfolding t3_inv_def by blast+
  have "wbuf (strm3 ?t i) = mine i" for i using each [of i] t(2) by (cases "pc3 ?t i") (auto simp: t3_done)
  with os each show ?thesis
    unfolding t(1) t3_calls_finish
    by (simp add: t3_finish_def Let_def fclose_def sys_write_def sys_close_def lookup_def didx_def mine_letters)
qed

text \<open>
  When \<^verbatim>\<open>main\<close> of \<^verbatim>\<open>3_thread.c\<close> returns, \<^verbatim>\<open>exit\<close> writes out the buffers of the streams that are still open;
  C leaves the order open.
\<close>

definition t3_exit :: "bool list \<Rightarrow> t3 \<Rightarrow> os" where
  "t3_exit order s = fold (\<lambda>i o'. snd (sys_write (wfd (strm3 s i)) (wbuf (strm3 s i)) o')) order (os3 s)"

text \<open>
  C39: \<^verbatim>\<open>3_thread.c\<close> with a failing pthread call, under every schedule: the process ends with status 1 and
  only what the threads had put into the buffers reaches the file, when it exits. If
  \<^verbatim>\<open>exit\<close> flushes the stream opened with \<^verbatim>\<open>w\<close> first, the file has the letters of the first thread and then those of
  the second; in the other order the first stream overwrites as many letters of the second as it has itself.
\<close>

theorem t3_failed_process:
  assumes "13 \<le> bufsz"
    and "p = run_process (t3_thread_start ino blksize) t3_ended sched (begin_process (t3_code ino blksize rc) (t3_main bufsz (initial f)))"
    and "status p = Some 1"
  shows "(\<exists>k<4. rc k \<noteq> 0) \<and>
    (\<exists>xs ys. prefix xs ''bdfhjlnprtvxz'' \<and> prefix ys ''acegikmoqsuwy'' \<and>
      content (t3_exit [False, True] (mem p)) = Some (xs @ ys) \<and>
      content (t3_exit [True, False] (mem p)) = Some (xs @ drop (length xs) ys))"
proof -
  let ?s = "t3_main bufsz (initial f)"
  have inv: "t3_inv ?s" using t3_main_inv [OF assms(1)] by blast
  from t3p.exit_status [OF inv assms(2) [unfolded codes] assms(3)] obtain sched' where
    t: "mem p = fold (t3_thread_start ino blksize) sched' ?s" and rc: "\<exists>k<4. rc k \<noteq> 0" by auto
  have "t3_inv (mem p)" unfolding t by (rule t3.schedule_inv [OF inv])
  then have os: "content (os3 (mem p)) = Some []"
    "descs (os3 (mem p)) = [Some \<lparr>off = 0, app = False\<rparr>, Some \<lparr>off = 0, app = True\<rparr>]"
    and each: "wfd (strm3 (mem p) i) = Some (didx i) \<and>
      wbuf (strm3 (mem p) i) @ unwritten (pc3 (mem p) i) (todo3 (mem p) i) = mine i" for i
    unfolding t3_inv_def by blast+
  have "prefix (wbuf (strm3 (mem p) i)) (mine i)" for i using each [of i] by (metis prefixI)
  from this [of False] this [of True] each [of False] each [of True] os rc show ?thesis
    by (intro conjI exI [of _ "wbuf (strm3 (mem p) False)"] exI [of _ "wbuf (strm3 (mem p) True)"])
      (auto simp: mine_letters t3_exit_def sys_write_def lookup_def didx_def)
qed

text \<open>Each thread puts one letter into its buffer, and the first join fails.\<close>

definition t3_failed_run :: "t3 process" where
  "t3_failed_run = run_process (t3_thread_start 7 4096) t3_ended
     [None, None, Some False, Some True, None]
     (begin_process (t3_code 7 4096 (\<lambda>k. if k = 2 then 22 else 0)) (t3_main 4096 (initial None)))"

theorem t3_failed_process_witness:
  "status t3_failed_run = Some 1 \<and>
   (\<exists>xs ys. prefix xs ''bdfhjlnprtvxz'' \<and> prefix ys ''acegikmoqsuwy'' \<and>
     content (t3_exit [False, True] (mem t3_failed_run)) = Some (xs @ ys) \<and>
     content (t3_exit [True, False] (mem t3_failed_run)) = Some (xs @ drop (length xs) ys)) \<and>
   content (t3_exit [False, True] (mem t3_failed_run)) = Some ''ba'' \<and>
   content (t3_exit [True, False] (mem t3_failed_run)) = Some ''b''"
proof -
  have s: "status t3_failed_run = Some 1" 
    by (simp add: t3_failed_run_def turn_def main_turn_def begin_process_def t3_code_def create_both_def join_both_def)
  have c: "content (t3_exit [False, True] (mem t3_failed_run)) = Some ''ba''"
    "content (t3_exit [True, False] (mem t3_failed_run)) = Some ''b''"
    by (simp_all add: t3_failed_run_def turn_def main_turn_def begin_process_def t3_code_def create_both_def join_both_def
        t3_thread_start_def t3_main_def initial_def fopen_w_def fopen_a_def sys_open_def two_def mine_letters
        fprintf_c_def t3_exit_def sys_write_def lookup_def)
  show ?thesis using t3_failed_process [OF _ t3_failed_run_def s] s c by simp
qed

end
