(* ===== verification/Listing_Programs.thy ===== *)
theory Listing_Programs
  imports Thread_Programs
begin

text \<open>
  The programs the report prints under \<^verbatim>\<open>8/open_file/report/inc/lst\<close> that differ from the sources:
  \<^verbatim>\<open>2_1.c\<close> and \<^verbatim>\<open>2_1_thread.c\<close> open the file without \<^verbatim>\<open>O_APPEND\<close>, and \<^verbatim>\<open>2_1_thread.c\<close> and
  \<^verbatim>\<open>2_thread.c\<close> close the files and return without joining the threads. The thread functions are
  those of the sources.
\<close>

section \<open>\<^verbatim>\<open>2_1.c\<close>\<close>

definition lst_main21 :: "nat \<Rightarrow> os \<Rightarrow> os \<times> stat" where
  "lst_main21 ino s =
     (case sys_open False s of (fd1, s) \<Rightarrow>
      case print_stat ''open fd1 '' ino (s, (0, 0)) of (s, sb) \<Rightarrow>
      case sys_open False s of (fd2, s) \<Rightarrow>
      case print_stat ''open fd2 '' ino (s, sb) of (s, sb) \<Rightarrow>
      case fold (main21_step fd1 fd2 ino) letters (s, sb) of (s, sb) \<Rightarrow>
      case print_stat ''close fd1'' ino (sys_close fd1 s, sb) of (s, sb) \<Rightarrow>
      print_stat ''close fd2'' ino (sys_close fd2 s, sb))"

text \<open>The letters in pairs, the one written through \<^verbatim>\<open>fd1\<close> first.\<close>

definition pairs :: "(char \<times> char) list" where
  "pairs = zip ''acegikmoqsuwy'' ''bdfhjlnprtvxz''"

definition unpair :: "(char \<times> char) list \<Rightarrow> char list" where
  "unpair ps = concat (map (\<lambda>(x, y). [x, y]) ps)"

lemma letters_pairs: "letters = unpair pairs"
  by code_simp

lemma pairs_parity: "\<forall>(x, y)\<in>set pairs. odd_char x \<and> \<not> odd_char y"
  by code_simp

definition at_offsets :: "char list \<Rightarrow> nat \<Rightarrow> nat \<Rightarrow> char list \<Rightarrow> os" where
  "at_offsets c k1 k2 bs = \<lparr>content = Some c, descs = [Some \<lparr>off = k1, app = False\<rparr>, Some \<lparr>off = k2, app = False\<rparr>], out = bs\<rparr>"

lemma overwrite_step:
  "odd_char x \<Longrightarrow> main21_step (Some 0) (Some (Suc 0)) ino x (at_offsets (w @ d) (length w) k bs, sb) =
     (at_offsets (w @ x # drop (Suc 0) d) (Suc (length w)) k (bs @ stat_line ''write    '' (ino, length (w @ x # drop (Suc 0) d))),
      (ino, length (w @ x # drop (Suc 0) d)))"
  "\<not> odd_char x \<Longrightarrow> main21_step (Some 0) (Some (Suc 0)) ino x (at_offsets (w @ d) k (length w) bs, sb) =
     (at_offsets (w @ x # drop (Suc 0) d) k (Suc (length w)) (bs @ stat_line ''write    '' (ino, length (w @ x # drop (Suc 0) d))),
      (ino, length (w @ x # drop (Suc 0) d)))"
  by (simp_all add: main21_step_def at_offsets_def sys_write_def lookup_def print_stat_def sys_stat_def emit_def Let_def)

text \<open>The two lines printed for the \<open>k\<close>-th pair.\<close>

definition twice :: "nat \<Rightarrow> char list \<Rightarrow> nat \<Rightarrow> char list" where
  "twice ino c k = stat_line ''write    '' (ino, max (length c) k) @ stat_line ''write    '' (ino, max (length c) k)"

lemma lst_main21_letters:
  assumes "\<forall>(x, y)\<in>set ps. odd_char x \<and> \<not> odd_char y"
  shows "fold (main21_step (Some 0) (Some 1) ino) (unpair ps) (at_offsets (w @ drop (length w) c) (length w) (length w) bs, sb) =
    (at_offsets ((w @ map snd ps) @ drop (length w + length ps) c) (length w + length ps) (length w + length ps)
       (bs @ concat (map (twice ino c) [length w + 1..<length w + length ps + 1])),
     if ps = [] then sb else (ino, max (length c) (length w + length ps)))"
  using assms
proof (induction ps arbitrary: w bs sb)
  case Nil
  then show ?case by (simp add: unpair_def)
next
  case (Cons p ps)
  obtain x y where p: "p = (x, y)" "odd_char x" "\<not> odd_char y" using Cons.prems by (cases p) auto
  let ?l = "stat_line ''write    '' (ino, max (length c) (length w + 1))"
  have sz: "length c \<le> Suc (length w) \<or> Suc (length c - Suc 0) = length c" by auto
  have "fold (main21_step (Some 0) (Some 1) ino) [x, y] (at_offsets (w @ drop (length w) c) (length w) (length w) bs, sb) =
      (at_offsets ((w @ [y]) @ drop (length (w @ [y])) c) (length (w @ [y])) (length (w @ [y])) (bs @ ?l @ ?l),
       (ino, max (length c) (length w + 1)))"
    using overwrite_step(1) [OF p(2), of ino w "drop (length w) c"] overwrite_step(2) [OF p(3), of ino w "x # drop 1 (drop (length w) c)"]
      sz
    by (cases "length c \<le> Suc (length w)") (simp_all add: max_def)
  then show ?case
    using Cons.IH [of "w @ [y]" "bs @ ?l @ ?l"] Cons.prems
    by (simp add: unpair_def p(1) twice_def upt_conv_Cons del: upt_Suc)
qed


section \<open>\<^verbatim>\<open>2_1_thread.c\<close>\<close>

definition lst_t21_main :: "os \<Rightarrow> t21" where
  "lst_t21_main s =
     (case sys_open False s of (fd0, s) \<Rightarrow>
      case sys_open False s of (fd1, s) \<Rightarrow>
      \<lparr>os21 = s, statbuf = (0, 0), fds21 = two fd0 fd1, todo21 = mine, pc21 = (\<lambda>_. AtPut)\<rparr>)"

definition lst_t21_code :: "(nat \<Rightarrow> int) \<Rightarrow> t21 main_op list" where
  "lst_t21_code rc = create_both rc @ [Call (t21_close False), Call (t21_close True)]"

text \<open>
  What every order of turns leaves of the file: the bytes from position 13 on as they were, each
  byte before them as it was or one of the two letters that are written there.
\<close>

definition written_over :: "char list \<Rightarrow> char list \<Rightarrow> bool" where
  "written_over c c' \<longleftrightarrow> drop 13 c' = drop 13 c \<and> length c \<le> length c' \<and> length c' \<le> max 13 (length c) \<and>
     (\<forall>q<13. q < length c' \<longrightarrow> c' ! q = mine False ! q \<or> c' ! q = mine True ! q \<or> q < length c \<and> c' ! q = c ! q)"

definition lst_t21_inv :: "char list \<Rightarrow> t21 \<Rightarrow> bool" where
  "lst_t21_inv c s \<longleftrightarrow> (\<exists>c'. content (os21 s) = Some c' \<and> written_over c c' \<and> length (descs (os21 s)) = 2 \<and>
     (\<forall>i. fds21 s i = Some (didx i) \<and> (\<forall>e. descs (os21 s) ! didx i = Some e \<longrightarrow>
        \<not> app e \<and> off e \<le> length c' \<and> unwritten (pc21 s i) (todo21 s i) = drop (off e) (mine i))))"

lemma length_mine: "length (mine i) = 13"
  by (cases i) (simp_all add: mine_letters)

lemma written_over_put:
  assumes "written_over c c'" "k < 13" "k \<le> length c'"
  shows "written_over c (take k c' @ mine i ! k # drop (Suc k) c')"
proof -
  let ?d = "take k c' @ mine i ! k # drop (Suc k) c'"
  have "length ?d = max (length c') (Suc k)" using assms(3) by auto
  moreover have "drop 13 ?d = drop 13 c'"
    using assms(2,3) by (simp add: min_def drop_Cons' Suc_diff_Suc numeral_eq_Suc) 
  moreover have "?d ! q = (if q = k then mine i ! k else c' ! q)" if "q < length ?d" for q
    using that assms(3) by (auto simp: nth_append nth_Cons' min_def)
  ultimately show ?thesis
    using assms unfolding written_over_def by (cases i) (auto simp: max_def split: if_splits)
qed


lemma lst_t21_put:
  assumes inv: "lst_t21_inv c s" and todo: "todo21 s i = x # xs" "pc21 s i = AtPut"
  shows "lst_t21_inv c (t21_thread_start ino i s)"
proof -
  obtain c' where c': "content (os21 s) = Some c'" "written_over c c'" "length (descs (os21 s)) = 2"
    and each: "\<And>j. fds21 s j = Some (didx j)" "\<And>j e. descs (os21 s) ! didx j = Some e \<Longrightarrow>
        \<not> app e \<and> off e \<le> length c' \<and> unwritten (pc21 s j) (todo21 s j) = drop (off e) (mine j)"
    using inv unfolding lst_t21_inv_def by blast
  define t where "t = t21_thread_start ino i s"
  have lt: "didx j < length (descs (os21 s))" for j using c'(3) by (simp add: didx_def)
  show ?thesis
  proof (cases "descs (os21 s) ! didx i")
    case None
    then have "t = s\<lparr>pc21 := (pc21 s)(i := AtStat)\<rparr>"
      using todo lt each(1) by (simp add: t_def t21_thread_start_def sys_write_def lookup_def)
    then show ?thesis
      using c' each None unfolding lst_t21_inv_def t_def [symmetric] by (intro exI [of _ c']) auto
  next
    case (Some e)
    let ?k = "off e"
    have e: "\<not> app e" "?k \<le> length c'" "x # xs = drop ?k (mine i)" using each(2) [OF Some] todo by auto
    then have k: "?k < 13" using length_mine [of i] by (metis drop_eq_Nil list.distinct(1) not_less)
    then have x: "x = mine i ! ?k" "xs = drop (Suc ?k) (mine i)"
      using e(3) by (simp_all add: Cons_nth_drop_Suc [symmetric] length_mine)
    define d where "d = take ?k c' @ mine i ! ?k # drop (Suc ?k) c'"
    have "t = s\<lparr>os21 := (os21 s)\<lparr>content := Some d, descs := (descs (os21 s))[didx i := Some (e\<lparr>off := Suc ?k\<rparr>)]\<rparr>,
        pc21 := (pc21 s)(i := AtStat)\<rparr>"
      using todo lt each(1) Some c'(1) e(1,2)
      by (simp add: t_def t21_thread_start_def sys_write_def lookup_def Let_def x(1) d_def)
    moreover have wo: "written_over c d" unfolding d_def by (rule written_over_put [OF c'(2) k e(2)])
    moreover have "length c' \<le> length d" "Suc ?k \<le> length d" using e(2) by (auto simp: d_def min_def)
    moreover have "didx j \<noteq> didx i" if "j \<noteq> i" for j using that by (simp add: didx_def)
    ultimately show ?thesis
      using c'(3) each wo todo x(2) e(1) lt [of i]
      unfolding lst_t21_inv_def t_def [symmetric]
      by (intro exI [of _ d]) (auto simp: nth_list_update intro: order_trans)
  qed
qed

lemma lst_t21_step: "lst_t21_inv c s \<Longrightarrow> lst_t21_inv c (t21_thread_start ino i s)"
proof -
  assume inv: "lst_t21_inv c s"
  show ?thesis
  proof (cases "todo21 s i")
    case Nil
    with inv show ?thesis by (simp add: t21_thread_start_def)
  next
    case (Cons x xs)
    show ?thesis
    proof (cases "pc21 s i")
      case AtPut
      with inv Cons show ?thesis by (rule lst_t21_put)
    next
      case AtStat
      then have "unwritten (pc21 (t21_thread_start ino i s) j) (todo21 (t21_thread_start ino i s) j) = unwritten (pc21 s j) (todo21 s j)" for j
        using Cons by (simp add: t21_thread_start_def)
      moreover have "os21 (t21_thread_start ino i s) = os21 s" "fds21 (t21_thread_start ino i s) = fds21 s"
        using AtStat Cons by (simp_all add: t21_thread_start_def)
      ultimately show ?thesis using inv unfolding lst_t21_inv_def by simp
    next
      case AtPrint
      then have "unwritten (pc21 (t21_thread_start ino i s) j) (todo21 (t21_thread_start ino i s) j) = unwritten (pc21 s j) (todo21 s j)" for j
        using Cons by (simp add: t21_thread_start_def)
      moreover have "content (os21 (t21_thread_start ino i s)) = content (os21 s)" "descs (os21 (t21_thread_start ino i s)) = descs (os21 s)"
        "fds21 (t21_thread_start ino i s) = fds21 s"
        using AtPrint Cons by (simp_all add: t21_thread_start_def)
      ultimately show ?thesis using inv unfolding lst_t21_inv_def by simp
    qed
  qed
qed

lemma lst_t21_close: "lst_t21_inv c s \<Longrightarrow> lst_t21_inv c (t21_close i s)"
proof -
  assume inv: "lst_t21_inv c s"
  have "didx j \<noteq> didx i" if "j \<noteq> i" for j using that by (simp add: didx_def)
  with inv show ?thesis
    unfolding lst_t21_inv_def t21_close_def sys_close_def
    by (auto simp: nth_list_update didx_def split: if_splits)
qed

text \<open>A thread that runs alone writes its letters from its offset on.\<close>

lemma t21_solo:
  assumes "todo21 s i = xs" "pc21 s i = AtPut" "fds21 s i = Some d" "d < length (descs (os21 s))"
    "descs (os21 s) ! d = Some \<lparr>off = length w, app = False\<rparr>" "content (os21 s) = Some (w @ r)"
  shows "content (os21 (fold (t21_thread_start ino) (replicate (3 * length xs) i) s)) = Some (w @ xs @ drop (length xs) r) \<and>
    descs (os21 (fold (t21_thread_start ino) (replicate (3 * length xs) i) s)) =
      (descs (os21 s))[d := Some \<lparr>off = length w + length xs, app = False\<rparr>] \<and>
    todo21 (fold (t21_thread_start ino) (replicate (3 * length xs) i) s) = (todo21 s)(i := []) \<and>
    pc21 (fold (t21_thread_start ino) (replicate (3 * length xs) i) s) = pc21 s \<and>
    fds21 (fold (t21_thread_start ino) (replicate (3 * length xs) i) s) = fds21 s"
  using assms
proof (induction xs arbitrary: s w r)
  case Nil
  then show ?case by (auto simp: fun_eq_iff) (metis list_update_id)
next
  case (Cons x xs)
  let ?step = "t21_thread_start ino i"
  let ?s = "?step (?step (?step s))"
  have "replicate (3 * length (x # xs)) i = i # i # i # replicate (3 * length xs) i" by (simp add: numeral_eq_Suc)
  then have f: "fold (t21_thread_start ino) (replicate (3 * length (x # xs)) i) s = fold (t21_thread_start ino) (replicate (3 * length xs) i) ?s"
    by simp
  have "todo21 ?s = (todo21 s)(i := xs)" "pc21 ?s = pc21 s" "fds21 ?s = fds21 s"
    "content (os21 ?s) = Some ((w @ [x]) @ drop 1 r)"
    "descs (os21 ?s) = (descs (os21 s))[d := Some \<lparr>off = length (w @ [x]), app = False\<rparr>]"
    using Cons.prems by (auto simp: t21_thread_start_def sys_write_def lookup_def Let_def fun_eq_iff)
  with Cons.IH [of ?s "w @ [x]" "drop 1 r"] Cons.prems show ?case
    unfolding f by (simp add: drop_Suc fun_eq_iff)
qed

lemma lst_t21_begin: "lst_t21_inv c (lst_t21_main (initial (Some c)))"
  by (auto simp: lst_t21_inv_def lst_t21_main_def initial_def sys_open_def two_def didx_def written_over_def)

section \<open>\<^verbatim>\<open>2_thread.c\<close>\<close>

definition lst_t2_code :: "(nat \<Rightarrow> int) \<Rightarrow> t2 main_op list" where
  "lst_t2_code rc = create_both rc @ [Call (t2_close False), Call (t2_close True)]"

text \<open>
  What a thread prints: \<open>k\<close> characters of the file, and then, when its descriptor is closed under
  it, the last of them (or the uninitialised variable) any number of times.
\<close>

definition stale :: "char \<Rightarrow> char list \<Rightarrow> nat \<Rightarrow> char" where
  "stale g c k = (if k = 0 then g else c ! (k - 1))"

definition lst_t2_inv :: "(bool \<Rightarrow> char) \<Rightarrow> char list \<Rightarrow> t2 \<Rightarrow> bool" where
  "lst_t2_inv g c s \<longleftrightarrow> (\<exists>w k m. out (os2 s) \<in> shuffles (w False) (w True) \<and> content (os2 s) = Some c \<and>
     length (descs (os2 s)) = 2 \<and>
     (\<forall>i. fds s i = Some (didx i) \<and> k i \<le> length c \<and> ch s i = stale (g i) c (k i) \<and>
        w i @ in_hand (pcs2 s i) = take (k i) c @ replicate (m i) (ch s i) \<and>
        (\<forall>e. descs (os2 s) ! didx i = Some e \<longrightarrow> off e = k i \<and> m i = 0)))"

lemma lst_t2_read:
  assumes inv: "lst_t2_inv g c s" and pc: "pcs2 s i = AtRead"
  shows "lst_t2_inv g c (t2_thread_start i s)"
proof -
  obtain w k m where w: "out (os2 s) \<in> shuffles (w False) (w True)" "content (os2 s) = Some c" "length (descs (os2 s)) = 2"
    and each: "\<And>j. fds s j = Some (didx j)" "\<And>j. k j \<le> length c" "\<And>j. ch s j = stale (g j) c (k j)"
      "\<And>j. w j @ in_hand (pcs2 s j) = take (k j) c @ replicate (m j) (ch s j)"
      "\<And>j e. descs (os2 s) ! didx j = Some e \<Longrightarrow> off e = k j \<and> m j = 0"
    using inv unfolding lst_t2_inv_def by blast
  define t where "t = t2_thread_start i s"
  have lt: "didx j < length (descs (os2 s))" for j using w(3) by (simp add: didx_def)
  have ne: "didx j \<noteq> didx i" if "j \<noteq> i" for j using that by (simp add: didx_def)
  show ?thesis
  proof (cases "descs (os2 s) ! didx i")
    case None
    then have t: "t = s\<lparr>pcs2 := (pcs2 s)(i := AtWrite (ch s i))\<rparr>"
      using pc lt each(1) by (simp add: t_def t2_thread_start_def sys_read_def lookup_def)
    have "w i @ [ch s i] = take (k i) c @ replicate (Suc (m i)) (ch s i)"
      using each(4) [of i] pc by (simp add: replicate_append_same)
    with w each None show ?thesis unfolding lst_t2_inv_def t_def [symmetric] t
      by - (rule exI [of _ w], rule exI [of _ k], rule exI [of _ "m(i := Suc (m i))"], auto)
  next
    case (Some e)
    note e = each(5) [OF Some]
    show ?thesis
    proof (cases "k i < length c")
      case True
      let ?c = "c ! k i"
      have tk: "take 1 (drop (k i) c) = [?c]" using True by (simp add: take_Suc_conv_app_nth take_drop drop_take Cons_nth_drop_Suc [symmetric])
      have mn: "min (length c - k i) (Suc 0) = Suc 0" using True by simp
      have t: "t = s\<lparr>os2 := (os2 s)\<lparr>descs := (descs (os2 s))[didx i := Some (e\<lparr>off := Suc (k i)\<rparr>)]\<rparr>, ch := (ch s)(i := ?c),
          pcs2 := (pcs2 s)(i := AtWrite ?c)\<rparr>"
        using pc lt each(1) Some w(2) e tk mn
        by (simp add: t_def t2_thread_start_def sys_read_def lookup_def Let_def)
      have "w i @ [?c] = take (Suc (k i)) c" using each(4) [of i] pc e True by (simp add: take_Suc_conv_app_nth)
      with w each e ne lt [of i] True show ?thesis unfolding lst_t2_inv_def t_def [symmetric] t
        by - (rule exI [of _ w], rule exI [of _ "k(i := Suc (k i))"], rule exI [of _ m], auto simp: stale_def)
    next
      case False
      then have t: "t = s\<lparr>os2 := (os2 s)\<lparr>descs := (descs (os2 s))[didx i := Some e]\<rparr>, pcs2 := (pcs2 s)(i := Finished)\<rparr>"
        using pc lt each(1) Some w(2) e [THEN conjunct1, symmetric]
        by (simp add: t_def t2_thread_start_def sys_read_def lookup_def Let_def)
      have "(descs (os2 s))[didx i := Some e] = descs (os2 s)" using Some lt [of i] by (metis list_update_id)
      moreover have "w i = take (k i) c @ replicate (m i) (ch s i)" using each(4) [of i] pc by simp
      ultimately show ?thesis using w each unfolding lst_t2_inv_def t_def [symmetric] t
        by - (rule exI [of _ w], rule exI [of _ k], rule exI [of _ m], auto)
    qed
  qed
qed


lemma lst_t2_step: "lst_t2_inv g c s \<Longrightarrow> lst_t2_inv g c (t2_thread_start i s)"
proof (cases "pcs2 s i")
  case AtRead
  then show "lst_t2_inv g c s \<Longrightarrow> ?thesis" by (rule lst_t2_read [rotated])
next
  case (AtWrite x)
  assume "lst_t2_inv g c s"
  then obtain w k m where w: "out (os2 s) \<in> shuffles (w False) (w True)" "content (os2 s) = Some c" "length (descs (os2 s)) = 2"
    and each: "\<forall>j. fds s j = Some (didx j) \<and> k j \<le> length c \<and> ch s j = stale (g j) c (k j) \<and>
        w j @ in_hand (pcs2 s j) = take (k j) c @ replicate (m j) (ch s j) \<and>
        (\<forall>e. descs (os2 s) ! didx j = Some e \<longrightarrow> off e = k j \<and> m j = 0)"
    unfolding lst_t2_inv_def by blast
  have t: "t2_thread_start i s = s\<lparr>os2 := emit [x] (os2 s), pcs2 := (pcs2 s)(i := AtRead)\<rparr>"
    using AtWrite by (simp add: t2_thread_start_def)
  have "(w(i := w i @ [x])) j @ in_hand (((pcs2 s)(i := AtRead)) j) = w j @ in_hand (pcs2 s j)" for j
    using AtWrite by simp
  moreover have "out (os2 s) @ [x] \<in> shuffles ((w(i := w i @ [x])) False) ((w(i := w i @ [x])) True)"
    using w(1) by (cases i) (auto simp: shuffles_snoc1 shuffles_snoc2)
  ultimately show ?thesis using w(2,3) each unfolding lst_t2_inv_def t
    by - (rule exI [of _ "w(i := w i @ [x])"], rule exI [of _ k], rule exI [of _ m], simp)
next
  case Finished
  then show "lst_t2_inv g c s \<Longrightarrow> ?thesis" by (simp add: t2_thread_start_def)
qed

lemma lst_t2_close: "lst_t2_inv g c s \<Longrightarrow> lst_t2_inv g c (t2_close i s)"
proof -
  assume "lst_t2_inv g c s"
  then obtain w k m where w: "out (os2 s) \<in> shuffles (w False) (w True)" "content (os2 s) = Some c" "length (descs (os2 s)) = 2"
    and each: "\<forall>j. fds s j = Some (didx j) \<and> k j \<le> length c \<and> ch s j = stale (g j) c (k j) \<and>
        w j @ in_hand (pcs2 s j) = take (k j) c @ replicate (m j) (ch s j) \<and>
        (\<forall>e. descs (os2 s) ! didx j = Some e \<longrightarrow> off e = k j \<and> m j = 0)"
    unfolding lst_t2_inv_def by blast
  have t: "t2_close i s = s\<lparr>os2 := (os2 s)\<lparr>descs := (descs (os2 s))[didx i := None]\<rparr>\<rparr>"
    using each by (simp add: t2_close_def sys_close_def)
  have "didx j \<noteq> didx i" if "j \<noteq> i" for j using that by (simp add: didx_def)
  then have "descs (os2 s) ! didx j = Some e" if "(descs (os2 s))[didx i := None] ! didx j = Some e" for j e
    using that w(3) by (cases "j = i") (auto simp: didx_def split: if_splits)
  with w each show ?thesis unfolding lst_t2_inv_def t
    by - (rule exI [of _ w], rule exI [of _ k], rule exI [of _ m], simp)
qed

lemma lst_t2_begin: "lst_t2_inv g c (t2_main g (initial (Some c)))"
  unfolding lst_t2_inv_def
  by (rule exI [of _ "\<lambda>_. []"], rule exI [of _ "\<lambda>_. 0"], rule exI [of _ "\<lambda>_. 0"]) (auto simp: t2_main_def initial_def sys_open_def two_def didx_def stale_def)

section \<open>Runs\<close>

definition lst_t21_run :: "nat \<Rightarrow> (nat \<Rightarrow> int) \<Rightarrow> char list \<Rightarrow> bool option list \<Rightarrow> t21 process" where
  "lst_t21_run ino rc c sched =
     run_process (t21_thread_start ino) t21_ended sched (begin_process (lst_t21_code rc) (lst_t21_main (initial (Some c))))"

definition lst_t2_run :: "(nat \<Rightarrow> int) \<Rightarrow> (bool \<Rightarrow> char) \<Rightarrow> char list \<Rightarrow> bool option list \<Rightarrow> t2 process" where
  "lst_t2_run rc g c sched =
     run_process t2_thread_start t2_ended sched (begin_process (lst_t2_code rc) (t2_main g (initial (Some c))))"

lemma stale_loop:
  assumes "fds s i = Some d" "descs (os2 s) ! d = None" "pcs2 s i = AtRead"
  shows "fold t2_thread_start (replicate (2 * n) i) s = s\<lparr>os2 := emit (replicate n (ch s i)) (os2 s)\<rparr>"
  using assms
proof (induction n arbitrary: s)
  case 0
  then show ?case by (simp add: emit_def)
next
  case (Suc n)
  let ?s = "s\<lparr>os2 := emit [ch s i] (os2 s)\<rparr>"
  have "t2_thread_start i (t2_thread_start i s) = ?s"
    using Suc.prems by (simp add: t2_thread_start_def sys_read_def lookup_def) (simp add: fun_eq_iff t2.equality)
  moreover have "emit (replicate n (ch s i)) (emit [ch s i] (os2 s)) = emit (replicate (Suc n) (ch s i)) (os2 s)"
    by (simp add: emit_def)
  ultimately show ?case using Suc.IH [of ?s] Suc.prems by simp
qed

section \<open>Properties\<close>

text \<open>
  The listing \<^verbatim>\<open>2_1.c\<close> loses every letter written through the first descriptor: the file starts with
  the 13 letters with even codes, and what it held from position 13 on stays; the size grows only
  with every second write.
\<close>

theorem lst_main21_loses:
  "\<exists>s sb. lst_main21 ino (initial (Some c)) = (s, sb) \<and> content s = Some (''bdfhjlnprtvxz'' @ drop 13 c) \<and>
     out s = stat_line ''open fd1 '' (ino, length c) @ stat_line ''open fd2 '' (ino, length c) @
       concat (map (twice ino c) [1..<14]) @
       stat_line ''close fd1'' (ino, max (length c) 13) @ stat_line ''close fd2'' (ino, max (length c) 13)"
proof -
  let ?o = "stat_line ''open fd1 '' (ino, length c) @ stat_line ''open fd2 '' (ino, length c)"
  have p: "length pairs = 13" "pairs \<noteq> []" "map snd pairs = ''bdfhjlnprtvxz''" by (simp_all add: pairs_def)
  have "fold (main21_step (Some 0) (Some 1) ino) letters (at_offsets c 0 0 ?o, (ino, length c)) =
      (at_offsets (map snd pairs @ drop 13 c) 13 13 (?o @ concat (map (twice ino c) [1..<14])), (ino, max (length c) 13))"
    using lst_main21_letters [OF pairs_parity, of ino "[]" c ?o "(ino, length c)"] p(1,2)
    by (simp add: letters_pairs del: upt_Suc)
  moreover have "13 + (length c - 13) = max (length c) 13" by simp
  ultimately have "\<exists>s sb. lst_main21 ino (initial (Some c)) = (s, sb) \<and> content s = Some (map snd pairs @ drop 13 c) \<and>
     out s = ?o @ concat (map (twice ino c) [1..<14]) @
       stat_line ''close fd1'' (ino, max (length c) 13) @ stat_line ''close fd2'' (ino, max (length c) 13)"
    using p(1)
    by (simp add: lst_main21_def initial_def sys_open_def print_stat_def sys_stat_def emit_def sys_close_def Let_def
        at_offsets_def del: upt_Suc)
  then show ?thesis unfolding p(3) by simp
qed

text \<open>
  C24: The listing \<^verbatim>\<open>2_1_thread.c\<close> keeps at most 13 of the 26 letters: whatever order the turns are taken
  in and whatever the pthread calls return, all writes fall on the first 13 bytes of the file, and
  each of these is what it was or one of two letters. Which letters survive is open: from an empty
  file there are orders that leave the letters of either thread alone, and, as nothing waits for
  the threads, one that leaves nothing; the process ends as soon as its main thread has had five
  turns.
\<close>

theorem lst_t21_overwrites:
  "(\<exists>c'. content (os21 (mem (lst_t21_run ino rc c sched))) = Some c' \<and> written_over c c') \<and>
   (\<exists>a b d. content (os21 (mem (lst_t21_run ino (\<lambda>_. 0) [] a))) = Some ''bdfhjlnprtvxz'' \<and>
      content (os21 (mem (lst_t21_run ino (\<lambda>_. 0) [] b))) = Some ''acegikmoqsuwy'' \<and>
      content (os21 (mem (lst_t21_run ino (\<lambda>_. 0) [] d))) = Some [] \<and>
      status (lst_t21_run ino (\<lambda>_. 0) [] a) = Some 0 \<and> status (lst_t21_run ino (\<lambda>_. 0) [] b) = Some 0 \<and>
      status (lst_t21_run ino (\<lambda>_. 0) [] d) = Some 0)"
proof (rule conjI)
  have "lst_t21_inv c (mem (lst_t21_run ino rc c sched))"
    unfolding lst_t21_run_def
    by (rule run_process_mem)
       (auto simp: begin_process_def lst_t21_begin lst_t21_code_def create_both_def intro: lst_t21_step lst_t21_close)
  then show "\<exists>c'. content (os21 (mem (lst_t21_run ino rc c sched))) = Some c' \<and> written_over c c'"
    unfolding lst_t21_inv_def by blast
next
  let ?t = "\<lambda>i. replicate 39 (Some i)" and ?t' = "\<lambda>i :: bool. replicate 39 i"
  have run: "content (os21 (mem (lst_t21_run ino (\<lambda>_. 0) [] (None # None # (?t i @ ?t (\<not> i)) @ replicate 3 None)))) = Some (mine (\<not> i)) \<and>
      status (lst_t21_run ino (\<lambda>_. 0) [] (None # None # (?t i @ ?t (\<not> i)) @ replicate 3 None)) = Some 0" for i
  proof -
    define s where "s = lst_t21_main (initial (Some []))"
    have s: "todo21 s j = mine j" "pc21 s j = AtPut" "fds21 s j = Some (didx j)" "length (descs (os21 s)) = 2"
      "descs (os21 s) ! didx j = Some \<lparr>off = 0, app = False\<rparr>" "content (os21 s) = Some []" for j
      by (simp_all add: s_def lst_t21_main_def initial_def sys_open_def two_def didx_def)
    define s1 where "s1 = fold (t21_thread_start ino) (?t' i) s"
    have s1: "content (os21 s1) = Some (mine i)" "descs (os21 s1) = (descs (os21 s))[didx i := Some \<lparr>off = 13, app = False\<rparr>]"
      "todo21 s1 = (todo21 s)(i := [])" "pc21 s1 = pc21 s" "fds21 s1 = fds21 s"
      using t21_solo [of s i "mine i" "didx i" "[]" "[]" ino] s by (simp_all add: s1_def length_mine didx_def)
    define s2 where "s2 = fold (t21_thread_start ino) (?t' (\<not> i)) s1"
    have "didx (\<not> i) \<noteq> didx i" by (simp add: didx_def)
    then have s2: "content (os21 s2) = Some (mine (\<not> i))"
      using t21_solo [of s1 "\<not> i" "mine (\<not> i)" "didx (\<not> i)" "[]" "mine i" ino] s s1 by (simp add: s2_def length_mine didx_def)
    show ?thesis
      using s2 by (simp add: lst_t21_run_def lst_t21_code_def create_both_def begin_process_def turn_def main_turn_def run_alone
        numeral_3_eq_3 t21_close_def s1_def s2_def s_def del: fold_replicate)
  qed
  have "content (os21 (mem (lst_t21_run ino (\<lambda>_. 0) [] (replicate 5 None)))) = Some [] \<and>
      status (lst_t21_run ino (\<lambda>_. 0) [] (replicate 5 None)) = Some 0"
    by (simp add: numeral_eq_Suc lst_t21_run_def lst_t21_code_def create_both_def begin_process_def turn_def main_turn_def
         lst_t21_main_def initial_def sys_open_def t21_close_def sys_close_def two_def)
  with run [of False, unfolded not_False_eq_True mine_letters] run [of True, unfolded not_True_eq_False mine_letters] show "\<exists>a b d. content (os21 (mem (lst_t21_run ino (\<lambda>_. 0) [] a))) = Some ''bdfhjlnprtvxz'' \<and>
      content (os21 (mem (lst_t21_run ino (\<lambda>_. 0) [] b))) = Some ''acegikmoqsuwy'' \<and>
      content (os21 (mem (lst_t21_run ino (\<lambda>_. 0) [] d))) = Some [] \<and>
      status (lst_t21_run ino (\<lambda>_. 0) [] a) = Some 0 \<and> status (lst_t21_run ino (\<lambda>_. 0) [] b) = Some 0 \<and>
      status (lst_t21_run ino (\<lambda>_. 0) [] d) = Some 0"
    by blast
qed

text \<open>
  The listing \<^verbatim>\<open>2_thread.c\<close>: in every order of turns each thread has printed a beginning of the file,
  followed, if its descriptor was closed before it was done, by the last character it had read
  any number of times: the failing \<^verbatim>\<open>read\<close> leaves the variable alone and does not end the loop. The
  process can end with status 0 without having printed anything, or having printed nothing but
  copies of an uninitialised variable.
\<close>

theorem lst_t2_output:
  "(\<exists>w k m. out (os2 (mem (lst_t2_run rc g c sched))) \<in> shuffles (w False) (w True) \<and>
      (\<forall>i. prefix (w i) (take (k i) c @ replicate (m i) (stale (g i) c (k i))))) \<and>
   (\<exists>sched. status (lst_t2_run (\<lambda>_. 0) g c sched) = Some 0 \<and> out (os2 (mem (lst_t2_run (\<lambda>_. 0) g c sched))) = []) \<and>
   (\<forall>n. \<exists>sched. status (lst_t2_run (\<lambda>_. 0) g c sched) = Some 0 \<and>
      out (os2 (mem (lst_t2_run (\<lambda>_. 0) g c sched))) = replicate n (g False))"
proof (intro conjI allI)
  have "lst_t2_inv g c (mem (lst_t2_run rc g c sched))"
    unfolding lst_t2_run_def
    by (rule run_process_mem)
       (auto simp: begin_process_def lst_t2_begin lst_t2_code_def create_both_def intro: lst_t2_step lst_t2_close)
  then show "\<exists>w k m. out (os2 (mem (lst_t2_run rc g c sched))) \<in> shuffles (w False) (w True) \<and>
      (\<forall>i. prefix (w i) (take (k i) c @ replicate (m i) (stale (g i) c (k i))))"
    unfolding lst_t2_inv_def by (metis prefixI)
next
  show "\<exists>sched. status (lst_t2_run (\<lambda>_. 0) g c sched) = Some 0 \<and> out (os2 (mem (lst_t2_run (\<lambda>_. 0) g c sched))) = []"
    by (rule exI [of _ "replicate 5 None"])
       (simp add: numeral_eq_Suc lst_t2_run_def lst_t2_code_def create_both_def begin_process_def turn_def main_turn_def
         t2_main_def initial_def sys_open_def t2_close_def sys_close_def two_def)
  fix n
  let ?s = "t2_close False (t2_main g (initial (Some c)))"
  have "fds ?s False = Some 0" "descs (os2 ?s) ! 0 = None" "pcs2 ?s False = AtRead" "ch ?s False = g False" "out (os2 ?s) = []"
    by (simp_all add: t2_main_def initial_def sys_open_def two_def t2_close_def sys_close_def)
  note loop = stale_loop [OF this(1-3), of n, unfolded this(4)] this(5)
  have "out (os2 (t2_close i s)) = out (os2 s)" for i s by (simp add: t2_close_def sys_close_def split: option.splits)
  then show "\<exists>sched. status (lst_t2_run (\<lambda>_. 0) g c sched) = Some 0 \<and>
      out (os2 (mem (lst_t2_run (\<lambda>_. 0) g c sched))) = replicate n (g False)"
    using loop
    by (intro exI [of _ "[None, None, None] @ replicate (2 * n) (Some False) @ [None, None]"])
      (simp add: lst_t2_run_def lst_t2_code_def create_both_def begin_process_def turn_def main_turn_def run_alone del: fold_replicate)
qed

end
