(* ===== verification/Catalog.thy ===== *)
theory Catalog
  imports Prelude "HOL-Library.Word"
begin

text \<open>
  The directory walkers of \<^verbatim>\<open>1/catalog/main.c\<close>: \<^verbatim>\<open>myftw\<close>, which builds the full path of every file
  in a buffer, and \<^verbatim>\<open>my_myftw\<close>, which changes the working directory instead. The file tree does
  not change while it is walked, and memory can always be had (Catalog_Memory has the walk that runs out of it).
\<close>

section \<open>Files\<close>

text \<open>
  A file: its mode, whether the caller may read it and search it, and the entries of a directory
  in the order \<^verbatim>\<open>readdir\<close> returns them.
\<close>

datatype node = Node (mode: "32 word") (readable: bool) (searchable: bool) (entries: "(string \<times> node) list")

definition S_IFMT :: "32 word" where "S_IFMT = 0xF000"
definition S_IFSOCK :: "32 word" where "S_IFSOCK = 0xC000"
definition S_IFLNK :: "32 word" where "S_IFLNK = 0xA000"
definition S_IFREG :: "32 word" where "S_IFREG = 0x8000"
definition S_IFBLK :: "32 word" where "S_IFBLK = 0x6000"
definition S_IFDIR :: "32 word" where "S_IFDIR = 0x4000"
definition S_IFCHR :: "32 word" where "S_IFCHR = 0x2000"
definition S_IFIFO :: "32 word" where "S_IFIFO = 0x1000"

definition S_ISDIR :: "32 word \<Rightarrow> bool" where
  "S_ISDIR m \<longleftrightarrow> and m S_IFMT = S_IFDIR"

definition FTW_F :: int where "FTW_F = 1"
definition FTW_D :: int where "FTW_D = 2"
definition FTW_DNR :: int where "FTW_DNR = 3"
definition FTW_NS :: int where "FTW_NS = 4"

lemmas ftw_defs = FTW_F_def FTW_D_def FTW_DNR_def FTW_NS_def
lemmas mode_defs = S_IFMT_def S_IFSOCK_def S_IFLNK_def S_IFREG_def S_IFBLK_def S_IFDIR_def S_IFCHR_def S_IFIFO_def

definition is_dot :: "string \<Rightarrow> bool" where
  "is_dot name \<longleftrightarrow> name = ''.'' \<or> name = ''..''"

section \<open>Counters\<close>

record counters =
  nreg :: nat
  ndir :: nat
  nblk :: nat
  nchr :: nat
  nfifo :: nat
  nslink :: nat
  nsock :: nat
  printed :: string

definition no_counts :: counters where
  "no_counts = \<lparr>nreg = 0, ndir = 0, nblk = 0, nchr = 0, nfifo = 0, nslink = 0, nsock = 0, printed = []\<rparr>"

type_synonym handler = "string \<Rightarrow> 32 word \<Rightarrow> int \<Rightarrow> counters \<Rightarrow> int \<times> counters"

definition count_file :: "32 word \<Rightarrow> counters \<Rightarrow> int \<times> counters" where
  "count_file m s =
     (let f = and m S_IFMT in
      if f = S_IFREG then (0, s\<lparr>nreg := nreg s + 1\<rparr>)
      else if f = S_IFBLK then (0, s\<lparr>nblk := nblk s + 1\<rparr>)
      else if f = S_IFCHR then (0, s\<lparr>nchr := nchr s + 1\<rparr>)
      else if f = S_IFIFO then (0, s\<lparr>nfifo := nfifo s + 1\<rparr>)
      else if f = S_IFLNK then (0, s\<lparr>nslink := nslink s + 1\<rparr>)
      else if f = S_IFSOCK then (0, s\<lparr>nsock := nsock s + 1\<rparr>)
      else if f = S_IFDIR then (- 1, s)
      else (0, s))"

definition myfunc :: handler where
  "myfunc pathname m type s =
     (if type = FTW_F then count_file m s
      else if type = FTW_D then (0, s\<lparr>ndir := ndir s + 1\<rparr>)
      else (- 1, s))"

definition print_str :: "string \<Rightarrow> counters \<Rightarrow> counters" where
  "print_str l s = s\<lparr>printed := printed s @ l\<rparr>"

definition counter :: handler where
  "counter pathname m type s =
     (if type = FTW_F then count_file m (print_str (''-- '' @ pathname @ [CHR 0x0A]) s)
      else if type = FTW_D then
        (let s = print_str (''--'' @ pathname @ ''/'' @ [CHR 0x0A]) s in (0, s\<lparr>ndir := ndir s + 1\<rparr>))
      else (- 1, s))"

section \<open>The walker with full paths\<close>

text \<open>\<open>fullpath\<close> is the string in the buffer, \<open>pathlen\<close> the size of the buffer.\<close>

record walker =
  fullpath :: string
  pathlen :: nat
  cnt :: counters

definition NAME_MAX :: nat where "NAME_MAX = 255"

definition call :: "handler \<Rightarrow> 32 word \<Rightarrow> int \<Rightarrow> walker \<Rightarrow> int \<times> walker" where
  "call func m type w = (case func (fullpath w) m type (cnt w) of (ret, c) \<Rightarrow> (ret, w\<lparr>cnt := c\<rparr>))"

text \<open>Room for a slash, a name and the terminator; then the slash and the terminator are stored.\<close>

definition add_slash :: "walker \<Rightarrow> fault + walker" where
  "add_slash w =
     (let n = length (fullpath w);
          w = (if n + NAME_MAX + 2 > pathlen w then w\<lparr>pathlen := pathlen w * 2\<rparr> else w)
      in if n + 1 < pathlen w then Inr (w\<lparr>fullpath := fullpath w @ ''/''\<rparr>) else Inl OutOfBounds)"

text \<open>
  The system refuses a path of \<^verbatim>\<open>PATH_MAX\<close> bytes or more, and a program may have only so many
  directories open: \<open>fds\<close> is how many more. Each level of both walks keeps its directory open.
\<close>

definition PATH_MAX :: nat where "PATH_MAX = 4096"

definition lstat_ok :: "bool \<Rightarrow> string \<Rightarrow> bool" where
  "lstat_ok ok path \<longleftrightarrow> ok \<and> length path < PATH_MAX"

definition opendir_ok :: "nat \<Rightarrow> bool \<Rightarrow> string \<Rightarrow> bool" where
  "opendir_ok fds r path \<longleftrightarrow> r \<and> 0 < fds \<and> length path < PATH_MAX"

text \<open>
  \<^verbatim>\<open>dopath\<close> on the file that \<open>fullpath\<close> names; \<open>ok\<close> tells whether its directory may be searched.
  The loop over the entries is the second function; \<open>n\<close>
  is the index after the slash. A store outside the buffer is a fault.
\<close>

fun dopath :: "nat \<Rightarrow> handler \<Rightarrow> bool \<Rightarrow> node \<Rightarrow> walker \<Rightarrow> fault + int \<times> walker"
  and dopath_entries :: "nat \<Rightarrow> handler \<Rightarrow> bool \<Rightarrow> nat \<Rightarrow> (string \<times> node) list \<Rightarrow> walker \<Rightarrow> fault + int \<times> walker" where
  "dopath fds func ok (Node m r x es) w =
     (if \<not> lstat_ok ok (fullpath w) then Inr (call func 0 FTW_NS w)
      else if \<not> S_ISDIR m then Inr (call func m FTW_F w)
      else case call func m FTW_D w of (ret, w) \<Rightarrow>
        if ret \<noteq> 0 then Inr (ret, w)
        else case add_slash w of
          Inl f \<Rightarrow> Inl f
        | Inr w' \<Rightarrow>
          if \<not> opendir_ok fds r (fullpath w') then Inr (call func m FTW_DNR w')
          else (case dopath_entries (fds - 1) func x (length (fullpath w) + 1) es w' of
             Inl f \<Rightarrow> Inl f
           | Inr (ret, w') \<Rightarrow> Inr (ret, w'\<lparr>fullpath := take (length (fullpath w)) (fullpath w')\<rparr>)))"
| "dopath_entries fds func x n [] w = Inr (0, w)"
| "dopath_entries fds func x n ((name, c) # es) w =
     (if is_dot name then dopath_entries fds func x n es w
      else if \<not> n + length name < pathlen w then Inl OutOfBounds
      else case dopath fds func x c (w\<lparr>fullpath := take n (fullpath w) @ name\<rparr>) of
        Inl f \<Rightarrow> Inl f
      | Inr (ret, w) \<Rightarrow> if ret \<noteq> 0 then Inr (ret, w) else dopath_entries fds func x n es w)"

text \<open>
  \<^verbatim>\<open>pathmax\<close> is the constant \<^verbatim>\<open>PATH_MAX\<close>, which is not zero, so \<^verbatim>\<open>pathconf\<close> is not called; a system that
  follows only older standards (\<open>old\<close>) needs room for one byte more.
\<close>

definition path_alloc :: "bool \<Rightarrow> nat" where
  "path_alloc old = (if old then PATH_MAX + 1 else PATH_MAX)"

definition myftw :: "nat \<Rightarrow> string \<Rightarrow> handler \<Rightarrow> bool \<Rightarrow> node \<Rightarrow> counters \<Rightarrow> fault + int \<times> walker" where
  "myftw fds pathname func ok t c =
     (let size = path_alloc False; len = (if size \<le> length pathname then length pathname * 2 else size)
      in dopath fds func ok t \<lparr>fullpath = pathname, pathlen = len, cnt = c\<rparr>)"

section \<open>The calls a walk makes\<close>

fun visits :: "nat \<Rightarrow> bool \<Rightarrow> string \<Rightarrow> node \<Rightarrow> (string \<times> 32 word \<times> int) list"
  and entry_visits :: "nat \<Rightarrow> bool \<Rightarrow> string \<Rightarrow> (string \<times> node) list \<Rightarrow> (string \<times> 32 word \<times> int) list" where
  "visits fds ok path (Node m r x es) =
     (if \<not> lstat_ok ok path then [(path, 0, FTW_NS)]
      else if \<not> S_ISDIR m then [(path, m, FTW_F)]
      else (path, m, FTW_D) #
        (if opendir_ok fds r (path @ ''/'') then entry_visits (fds - 1) x (path @ ''/'') es else [(path @ ''/'', m, FTW_DNR)]))"
| "entry_visits fds x dir [] = []"
| "entry_visits fds x dir ((name, c) # es) = (if is_dot name then [] else visits fds x (dir @ name) c) @ entry_visits fds x dir es"

text \<open>The handler called on each in turn, until it returns something other than zero.\<close>

fun handle_all :: "handler \<Rightarrow> (string \<times> 32 word \<times> int) list \<Rightarrow> counters \<Rightarrow> int \<times> counters" where
  "handle_all func [] c = (0, c)"
| "handle_all func ((p, m, type) # vs) c =
     (case func p m type c of (ret, c) \<Rightarrow> if ret \<noteq> 0 then (ret, c) else handle_all func vs c)"

fun short_names :: "node \<Rightarrow> bool" and short_entries :: "(string \<times> node) list \<Rightarrow> bool" where
  "short_names (Node m r x es) = short_entries es"
| "short_entries [] = True"
| "short_entries ((name, c) # es) = (length name \<le> NAME_MAX \<and> short_names c \<and> short_entries es)"

lemma handle_all_append:
  "handle_all func (us @ vs) c =
     (case handle_all func us c of (ret, c) \<Rightarrow> if ret \<noteq> 0 then (ret, c) else handle_all func vs c)"
  by (induction func us c rule: handle_all.induct) (auto split: prod.splits)

lemma add_slash_ok:
  assumes "length (fullpath w) < pathlen w" "NAME_MAX + 2 \<le> pathlen w"
  obtains w' where "add_slash w = Inr w'" "fullpath w' = fullpath w @ ''/''" "cnt w' = cnt w"
    "pathlen w \<le> pathlen w'" "length (fullpath w) + 1 + NAME_MAX < pathlen w'"
proof -
  let ?w = "if length (fullpath w) + NAME_MAX + 2 > pathlen w then w\<lparr>pathlen := pathlen w * 2\<rparr> else w"
  show thesis
    by (rule that [of "?w\<lparr>fullpath := fullpath ?w @ ''/''\<rparr>"]) (use assms in \<open>auto simp: add_slash_def Let_def\<close>)
qed

lemma dopath_visits:
  "short_names t \<Longrightarrow> length (fullpath w) < pathlen w \<Longrightarrow> NAME_MAX + 2 \<le> pathlen w \<Longrightarrow>
    \<exists>ret w'. dopath fds func ok t w = Inr (ret, w') \<and> (ret, cnt w') = handle_all func (visits fds ok (fullpath w) t) (cnt w) \<and>
      take (length (fullpath w)) (fullpath w') = fullpath w \<and> pathlen w \<le> pathlen w'"
  "short_entries es \<Longrightarrow> n + NAME_MAX < pathlen w \<Longrightarrow> NAME_MAX + 2 \<le> pathlen w \<Longrightarrow> n \<le> length (fullpath w) \<Longrightarrow>
    \<exists>ret w'. dopath_entries fds func x n es w = Inr (ret, w') \<and>
      (ret, cnt w') = handle_all func (entry_visits fds x (take n (fullpath w)) es) (cnt w) \<and>
      take n (fullpath w') = take n (fullpath w) \<and> pathlen w \<le> pathlen w' \<and> n \<le> length (fullpath w')"
proof (induction fds func ok t w and fds func x n es w rule: dopath_dopath_entries.induct)
  case (1 fds func ok m r x es w)
  let ?ok = "lstat_ok ok (fullpath w)"
  obtain ret c where f: "func (fullpath w) m FTW_D (cnt w) = (ret, c)" by fastforce
  consider "\<not> ?ok" | "?ok" "\<not> S_ISDIR m" | "?ok" "S_ISDIR m" "ret \<noteq> 0" | "?ok" "S_ISDIR m" "ret = 0" by blast
  then show ?case
  proof cases
    case 1
    then show ?thesis by (auto simp: call_def split: prod.splits)
  next
    case 2
    then show ?thesis by (auto simp: call_def split: prod.splits)
  next
    case 3
    with f show ?thesis by (simp add: call_def)
  next
    case 4
    let ?w1 = "w\<lparr>cnt := c\<rparr>"
    obtain w2 where w2: "add_slash ?w1 = Inr w2" "fullpath w2 = fullpath w @ ''/''" "cnt w2 = c"
      "pathlen w \<le> pathlen w2" "length (fullpath w) + 1 + NAME_MAX < pathlen w2"
      by (rule add_slash_ok [of ?w1]) (use "1.prems" in auto)
    have d: "call func m FTW_D w = (ret, ?w1)" using f by (simp add: call_def)
    show ?thesis
    proof (cases "opendir_ok fds r (fullpath w @ ''/'')")
      case False
      then show ?thesis using 4 d f w2 by (auto simp: call_def split: prod.splits)
    next
      case True
      have "\<exists>ret w'. dopath_entries (fds - 1) func x (length (fullpath ?w1) + 1) es w2 = Inr (ret, w') \<and>
        (ret, cnt w') = handle_all func (entry_visits (fds - 1) x (take (length (fullpath ?w1) + 1) (fullpath w2)) es) (cnt w2) \<and>
        take (length (fullpath ?w1) + 1) (fullpath w') = take (length (fullpath ?w1) + 1) (fullpath w2) \<and>
        pathlen w2 \<le> pathlen w' \<and> length (fullpath ?w1) + 1 \<le> length (fullpath w')"
        by (rule "1.IH") (use 4 d w2 True "1.prems" in auto)
      then obtain ret' w' where w': "dopath_entries (fds - 1) func x (length (fullpath w) + 1) es w2 = Inr (ret', w')"
        "(ret', cnt w') = handle_all func (entry_visits (fds - 1) x (fullpath w @ ''/'') es) c"
        "take (length (fullpath w) + 1) (fullpath w') = fullpath w @ ''/''" "pathlen w2 \<le> pathlen w'"
        using w2(2,3) by auto
      have "take (length (fullpath w)) (fullpath w') = fullpath w"
        using arg_cong [OF w'(3), of "take (length (fullpath w))"] by (simp add: min_def)
      then show ?thesis using 4 True d f w2 w' by simp
    qed
  qed
next
  case (2 fds func x n w)
  then show ?case by simp
next
  case (3 fds func x n name c es w)
  show ?case
  proof (cases "is_dot name")
    case True
    then show ?thesis using "3.IH"(1) "3.prems" by simp
  next
    case False
    let ?w = "w\<lparr>fullpath := take n (fullpath w) @ name\<rparr>"
    have len: "n + length name < pathlen w" using "3.prems" by simp
    have "\<exists>ret w'. dopath fds func x c ?w = Inr (ret, w') \<and>
        (ret, cnt w') = handle_all func (visits fds x (fullpath ?w) c) (cnt ?w) \<and>
        take (length (fullpath ?w)) (fullpath w') = fullpath ?w \<and> pathlen ?w \<le> pathlen w'"
      by (rule "3.IH"(2)) (use False len "3.prems" in auto)
    then obtain ret w1 where w1: "dopath fds func x c ?w = Inr (ret, w1)"
      "(ret, cnt w1) = handle_all func (visits fds x (take n (fullpath w) @ name) c) (cnt w)"
      "take (n + length name) (fullpath w1) = take n (fullpath w) @ name" "pathlen w \<le> pathlen w1"
      using "3.prems"(4) by (auto simp: min_absorb2)
    have n1: "take n (fullpath w1) = take n (fullpath w)" "n \<le> length (fullpath w1)"
      using arg_cong [OF w1(3), of "take n"] arg_cong [OF w1(3), of length] "3.prems"(4)
      by (auto simp: min_absorb2 min_def split: if_splits)
    show ?thesis
    proof (cases "ret = 0")
      case False
      then show ?thesis using w1 n1 len \<open>\<not> is_dot name\<close> by (auto simp: handle_all_append split: prod.splits)
    next
      case True
      have "\<exists>ret w'. dopath_entries fds func x n es w1 = Inr (ret, w') \<and>
        (ret, cnt w') = handle_all func (entry_visits fds x (take n (fullpath w1)) es) (cnt w1) \<and>
        take n (fullpath w') = take n (fullpath w1) \<and> pathlen w1 \<le> pathlen w' \<and> n \<le> length (fullpath w')"
        by (rule "3.IH"(3)) (use True \<open>\<not> is_dot name\<close> w1 n1 len "3.prems" in auto)
      then show ?thesis using True w1 n1 len \<open>\<not> is_dot name\<close>
        by (auto simp: handle_all_append split: prod.splits)
    qed
  qed
qed


lemma myftw_handles:
  assumes "short_names t"
  obtains ret w where "myftw fds pathname func ok t c = Inr (ret, w)" "handle_all func (visits fds ok pathname t) c = (ret, cnt w)"
proof -
  let ?w = "\<lparr>fullpath = pathname, pathlen = (if path_alloc False \<le> length pathname then length pathname * 2 else path_alloc False), cnt = c\<rparr>"
  have "length (fullpath ?w) < pathlen ?w" "NAME_MAX + 2 \<le> pathlen ?w"
    by (auto simp: path_alloc_def PATH_MAX_def NAME_MAX_def)
  from dopath_visits(1) [OF assms this, of fds func ok]
  obtain ret w where "dopath fds func ok t ?w = Inr (ret, w)" "(ret, cnt w) = handle_all func (visits fds ok (fullpath ?w) t) (cnt ?w)"
    by blast
  with that [of ret w] show thesis by (simp add: myftw_def Let_def)
qed


section \<open>The walker that changes directories\<close>

text \<open>The file that a list of names leads to, and \<^verbatim>\<open>lstat\<close> of a name in the working directory.\<close>

fun node_at :: "node \<Rightarrow> string list \<Rightarrow> node option" where
  "node_at t [] = Some t"
| "node_at t (name # names) = (case map_of (entries t) name of None \<Rightarrow> None | Some c \<Rightarrow> node_at c names)"

definition lstat_at :: "node \<Rightarrow> string list \<Rightarrow> string \<Rightarrow> node option" where
  "lstat_at root cwd name =
     (case node_at root cwd of None \<Rightarrow> None
      | Some d \<Rightarrow> if searchable d \<and> length name \<le> NAME_MAX then map_of (entries d) name else None)"

text \<open>
  \<^verbatim>\<open>chdir\<close> to an entry of the working directory, and to \<^verbatim>\<open>..\<close>: the working directory it leaves. It fails if a
  directory on the way may not be searched.
\<close>

definition passable :: "node \<Rightarrow> string list \<Rightarrow> bool" where
  "passable root cwd = (case node_at root cwd of None \<Rightarrow> False | Some d \<Rightarrow> searchable d)"

definition chdir :: "node \<Rightarrow> string list \<Rightarrow> string \<Rightarrow> string list" where
  "chdir root cwd name =
     (case lstat_at root cwd name of None \<Rightarrow> cwd
      | Some t \<Rightarrow> if S_ISDIR (mode t) \<and> searchable t then cwd @ [name] else cwd)"

definition chdir_up :: "node \<Rightarrow> string list \<Rightarrow> string list" where
  "chdir_up root cwd = (if passable root cwd \<and> passable root (butlast cwd) then butlast cwd else cwd)"

text \<open>
  \<^verbatim>\<open>mydopath\<close>: \<open>cwd\<close> is the working directory, by its names from \<open>root\<close>; the results of \<^verbatim>\<open>chdir\<close>
  are ignored. \<open>fds\<close> is the number of directories that can still be opened.
\<close>

fun mydopath ::
  "nat \<Rightarrow> handler \<Rightarrow> node \<Rightarrow> string list \<Rightarrow> string \<Rightarrow> nat \<Rightarrow> counters \<Rightarrow> int \<times> string list \<times> counters"
and mydopath_entries ::
  "nat \<Rightarrow> handler \<Rightarrow> node \<Rightarrow> string list \<Rightarrow> string list \<Rightarrow> nat \<Rightarrow> counters \<Rightarrow> int \<times> string list \<times> counters" where
  "mydopath fds func root cwd filename depth c =
     (case lstat_at root cwd filename of
        None \<Rightarrow> (case func filename 0 FTW_NS c of (ret, c) \<Rightarrow> (ret, cwd, c))
      | Some t \<Rightarrow>
        let c = print_str (concat (replicate depth [CHR ''|'', CHR 0x09])) c in
        if \<not> S_ISDIR (mode t) then (case func filename (mode t) FTW_F c of (ret, c) \<Rightarrow> (ret, cwd, c))
        else case func filename (mode t) FTW_D c of (ret, c) \<Rightarrow>
          if ret \<noteq> 0 then (ret, cwd, c)
          else if readable t \<and> 0 < fds then
            (case mydopath_entries (fds - 1) func root (chdir root cwd filename) (map fst (entries t)) (depth + 1) c of
              (ret, cwd, c) \<Rightarrow> (ret, chdir_up root cwd, c))
          else (case func filename (mode t) FTW_DNR c of (ret, c) \<Rightarrow> (ret, cwd, c)))"
| "mydopath_entries fds func root cwd [] depth c = (0, cwd, c)"
| "mydopath_entries fds func root cwd (name # names) depth c =
     (if is_dot name then mydopath_entries fds func root cwd names depth c
      else case mydopath fds func root cwd name depth c of
        (ret, cwd, c) \<Rightarrow> if ret \<noteq> 0 then (ret, cwd, c) else mydopath_entries fds func root cwd names depth c)"

declare mydopath.simps [simp del]

definition my_myftw :: "nat \<Rightarrow> handler \<Rightarrow> node \<Rightarrow> string list \<Rightarrow> string \<Rightarrow> counters \<Rightarrow> int \<times> string list \<times> counters" where
  "my_myftw fds func root cwd filename c = mydopath fds func root cwd filename 0 c"

section \<open>\<^verbatim>\<open>main\<close>\<close>

text \<open>
  What \<^verbatim>\<open>print_info\<close> prints: each count with its percentage, and the total. The counts are passed as
  \<^verbatim>\<open>int\<close>; how \<^verbatim>\<open>printf\<close> writes \<^verbatim>\<open>n * 100.0 / ntot\<close> is an argument.
\<close>

type_synonym report = "(int \<times> string) list \<times> int"

definition to_int :: "int \<Rightarrow> int" where
  "to_int n = sint (word_of_int n :: 32 word)"

definition print_info :: "(int \<Rightarrow> int \<Rightarrow> string) \<Rightarrow> counters \<Rightarrow> report" where
  "print_info percent c =
     (let ns = map (to_int \<circ> int) [nreg c, ndir c, nblk c, nchr c, nfifo c, nslink c, nsock c];
          ntot = to_int (sum_list ns);
          ntot = (if ntot = 0 then 1 else ntot)
      in (map (\<lambda>n. (n, percent n ntot)) ns, ntot))"

text \<open>
  Both walks of the directory, which is called \<open>name\<close> in \<open>cwd\<close>, with \<open>fds\<close> directories that can be opened. The times
  that are measured are left out.
\<close>

definition catalog_main :: "(int \<Rightarrow> int \<Rightarrow> string) \<Rightarrow> nat \<Rightarrow> node \<Rightarrow> string list \<Rightarrow> string list \<Rightarrow> fault + report \<times> report" where
  "catalog_main percent fds root cwd args =
     (case args of
        [name] \<Rightarrow>
        (let found = lstat_at root cwd name;
             t = (case found of None \<Rightarrow> Node 0 False False [] | Some t \<Rightarrow> t) in
         case myftw fds name myfunc (found \<noteq> None) t no_counts of
           Inl f \<Rightarrow> Inl f
         | Inr (_, w) \<Rightarrow>
           (case my_myftw fds counter root cwd name no_counts of
              (_, _, c) \<Rightarrow> Inr (print_info percent (cnt w), print_info percent c)))
      | _ \<Rightarrow> Inl (Exit (- 1)))"

section \<open>What both count\<close>

fun open_tree :: "node \<Rightarrow> bool" and open_entries :: "(string \<times> node) list \<Rightarrow> bool" where
  "open_tree (Node m r x es) = (if S_ISDIR m then r \<and> x \<and> distinct (map fst es) \<and> open_entries es else es = [])"
| "open_entries [] = True"
| "open_entries ((name, c) # es) = (open_tree c \<and> open_entries es)"

fun tally :: "node \<Rightarrow> counters \<Rightarrow> counters" and tally_entries :: "(string \<times> node) list \<Rightarrow> counters \<Rightarrow> counters" where
  "tally (Node m r x es) c =
     (if S_ISDIR m then tally_entries es (c\<lparr>ndir := ndir c + 1\<rparr>) else snd (count_file m c))"
| "tally_entries [] c = c"
| "tally_entries ((name, t) # es) c = tally_entries es (if is_dot name then c else tally t c)"

text \<open>How many directories are open at a time in the tree, and whether the path of every file in it is short enough.\<close>

fun dir_depth :: "node \<Rightarrow> nat" and dir_depth_entries :: "(string \<times> node) list \<Rightarrow> nat" where
  "dir_depth (Node m r x es) = (if S_ISDIR m then Suc (dir_depth_entries es) else 0)"
| "dir_depth_entries [] = 0"
| "dir_depth_entries ((name, t) # es) = max (dir_depth t) (dir_depth_entries es)"

fun short_paths :: "nat \<Rightarrow> node \<Rightarrow> bool" and short_entry_paths :: "nat \<Rightarrow> (string \<times> node) list \<Rightarrow> bool" where
  "short_paths n (Node m r x es) =
     (if S_ISDIR m then n + 1 < PATH_MAX \<and> short_entry_paths (n + 1) es else n < PATH_MAX)"
| "short_entry_paths n [] = True"
| "short_entry_paths n ((name, t) # es) = (short_paths (n + length name) t \<and> short_entry_paths n es)"

definition counts :: "counters \<Rightarrow> nat list" where
  "counts c = [nreg c, ndir c, nblk c, nchr c, nfifo c, nslink c, nsock c]"

lemma count_file_0: "\<not> S_ISDIR m \<Longrightarrow> fst (count_file m c) = 0"
  by (auto simp: count_file_def S_ISDIR_def Let_def)

lemma counts_cong:
  assumes "counts c = counts d"
  shows "counts (snd (count_file m c)) = counts (snd (count_file m d))"
    "counts (c\<lparr>ndir := ndir c + 1\<rparr>) = counts (d\<lparr>ndir := ndir d + 1\<rparr>)" "counts (print_str l c) = counts d"
  using assms by (auto simp: counts_def count_file_def print_str_def Let_def)

lemma myfunc_visits:
  "open_tree t \<Longrightarrow> dir_depth t \<le> fds \<Longrightarrow> short_paths (length path) t \<Longrightarrow>
    handle_all myfunc (visits fds True path t) c = (0, tally t c)"
  "open_entries es \<Longrightarrow> dir_depth_entries es \<le> fds \<Longrightarrow> short_entry_paths (length path) es \<Longrightarrow>
    handle_all myfunc (entry_visits fds True path es) c = (0, tally_entries es c)"
proof (induction t and es arbitrary: fds path c and fds path c rule: open_tree_open_entries.induct)
  case (1 m r x es)
  show ?case
  proof (cases "S_ISDIR m")
    case True
    with 1 show ?thesis by (simp add: myfunc_def ftw_defs lstat_ok_def opendir_ok_def)
  next
    case False
    with 1 count_file_0 [of m c] show ?thesis by (auto simp: myfunc_def ftw_defs lstat_ok_def split: prod.splits)
  qed
next
  case 2
  then show ?case by simp
next
  case (3 name t es)
  then show ?case by (simp add: handle_all_append)
qed

lemma node_at_append:
  "node_at t (ps @ qs) = (case node_at t ps of None \<Rightarrow> None | Some u \<Rightarrow> node_at u qs)"
  by (induction t ps rule: node_at.induct) (auto split: option.splits)

lemma chdir_and_back:
  assumes "lstat_at root cwd name = Some t" "S_ISDIR (mode t)" "searchable t"
  shows "chdir root cwd name = cwd @ [name]" "chdir_up root (cwd @ [name]) = cwd" "node_at root (cwd @ [name]) = Some t"
proof -
  show at: "node_at root (cwd @ [name]) = Some t"
    using assms(1) by (auto simp: lstat_at_def node_at_append split: option.splits if_splits)
  show "chdir root cwd name = cwd @ [name]" using assms by (simp add: chdir_def)
  have "passable root cwd" using assms(1) by (auto simp: lstat_at_def passable_def split: option.splits if_splits)
  with at assms(3) show "chdir_up root (cwd @ [name]) = cwd" by (simp add: chdir_up_def passable_def)
qed

lemma mydopath_counts:
  "open_tree t \<Longrightarrow> short_names t \<Longrightarrow> lstat_at root cwd filename = Some t \<Longrightarrow> dir_depth t \<le> fds \<Longrightarrow> counts c = counts d \<Longrightarrow>
    \<exists>c'. mydopath fds counter root cwd filename depth c = (0, cwd, c') \<and> counts c' = counts (tally t d)"
  "open_entries es \<Longrightarrow> short_entries es \<Longrightarrow> (\<And>name t. (name, t) \<in> set es \<Longrightarrow> lstat_at root cwd name = Some t) \<Longrightarrow>
    dir_depth_entries es \<le> fds \<Longrightarrow> counts c = counts d \<Longrightarrow>
    \<exists>c'. mydopath_entries fds counter root cwd (map fst es) depth c = (0, cwd, c') \<and>
      counts c' = counts (tally_entries es d)"
proof (induction t and es arbitrary: cwd filename depth fds c d and cwd depth fds c d rule: open_tree_open_entries.induct)
  case (1 m r x es)
  let ?c = "print_str (concat (replicate depth [CHR ''|'', CHR 0x09])) c"
  have c: "counts ?c = counts d" using "1.prems"(5) by (rule counts_cong(3))
  show ?case
  proof (cases "S_ISDIR m")
    case False
    let ?e = "print_str (''-- '' @ filename @ [CHR 0x0A]) ?c"
    have "counts (snd (count_file m ?e)) = counts (snd (count_file m d))"
      by (rule counts_cong(1) [OF counts_cong(3) [OF c]])
    with False count_file_0 [of m ?e] 1 show ?thesis
      by (auto simp: mydopath.simps counter_def ftw_defs Let_def split: prod.splits)
  next
    case True
    let ?e = "print_str (''--'' @ filename @ ''/'' @ [CHR 0x0A]) ?c"
    let ?e' = "?e\<lparr>ndir := ndir ?e + 1\<rparr>"
    have e: "counts ?e' = counts (d\<lparr>ndir := ndir d + 1\<rparr>)"
      by (rule counts_cong(2) [OF counts_cong(3) [OF c]])
    obtain k where k: "fds = Suc k" "dir_depth_entries es \<le> k" using "1.prems"(4) True by (cases fds) auto
    note at = chdir_and_back [OF "1.prems"(3)]
    have len: "length name \<le> NAME_MAX" if "(name, t) \<in> set es" for name t
      using that "1.prems"(2) by (induction es) auto
    have sub: "lstat_at root (cwd @ [filename]) name = Some t" if "(name, t) \<in> set es" for name t
      using that True "1.prems"(1) at(3) len [OF that] by (simp add: lstat_at_def)
    obtain c' where "mydopath_entries k counter root (cwd @ [filename]) (map fst es) (depth + 1) ?e' =
        (0, cwd @ [filename], c')" "counts c' = counts (tally_entries es (d\<lparr>ndir := ndir d + 1\<rparr>))"
      using "1.IH" [OF True _ _ sub k(2) e] "1.prems"(1,2) True by auto
    moreover have "counter filename m FTW_D ?c = (0, ?e')" by (simp add: counter_def ftw_defs Let_def)
    ultimately show ?thesis
      using True "1.prems"(1,3) k at(1,2) by (simp add: mydopath.simps Let_def)
  qed
next
  case 2
  then show ?case by simp
next
  case (3 name t es)
  show ?case
  proof (cases "is_dot name")
    case True
    then show ?thesis using "3.IH"(2) [of cwd fds c d depth] "3.prems" by auto
  next
    case False
    obtain c1 where c1: "mydopath fds counter root cwd name depth c = (0, cwd, c1)" "counts c1 = counts (tally t d)"
      using "3.IH"(1) [of cwd name fds c d depth] "3.prems" by auto
    then show ?thesis using "3.IH"(2) [of cwd fds c1 "tally t d" depth] "3.prems" False by auto
  qed
qed

section \<open>Properties\<close>

text \<open>
  C13: The walk with full paths never stores outside its path buffer, however deep the tree, if no
  name is longer than \<^verbatim>\<open>NAME_MAX\<close>: the one doubling per directory suffices. It calls the handler
  once for every file, a directory before its entries, with the file's full path, until the
  handler returns something other than zero, and returns that.
\<close>

theorem myftw_visits:
  assumes "short_names t"
  shows "\<exists>w. myftw fds pathname func ok t c =
    Inr (fst (handle_all func (visits fds ok pathname t) c), w) \<and> cnt w = snd (handle_all func (visits fds ok pathname t) c)"
  using myftw_handles [OF assms, of fds pathname func ok c] by (metis fst_conv snd_conv)

abbreviation small_tree :: node where
  "small_tree \<equiv> Node 0x41ED True True [(''a'', Node 0x81A4 True False []), (''.'', Node 0x41ED True True [])]"

theorem myftw_visits_witness:
  "\<exists>w. myftw 1000 ''top'' myfunc True small_tree no_counts = Inr (0, w) \<and> nreg (cnt w) = 1 \<and> ndir (cnt w) = 1"
proof -
  have h: "handle_all myfunc (visits 1000 True ''top'' small_tree) no_counts = (0, no_counts\<lparr>nreg := 1, ndir := 1\<rparr>)"
    by code_simp
  have "short_names small_tree" by (simp add: NAME_MAX_def)
  from myftw_visits [OF this, of 1000 "''top''" myfunc True no_counts] show ?thesis unfolding h by auto
qed

text \<open>
  On a tree whose directories may all be read and searched, whose paths are all shorter than \<^verbatim>\<open>PATH_MAX\<close> and
  which is no deeper than directories can be open, both walks return zero and count
  the same: the numbers of the tree's files by type. The walk that changes directories is back in the working
  directory it started in.
\<close>

theorem walks_agree:
  assumes "open_tree t" "short_names t" "short_paths (length pathname) t" "lstat_at root cwd name = Some t" "dir_depth t \<le> fds"
  shows "\<exists>w c. myftw fds pathname myfunc True t no_counts = Inr (0, w) \<and>
    my_myftw fds counter root cwd name no_counts = (0, cwd, c) \<and>
    counts (cnt w) = counts (tally t no_counts) \<and> counts c = counts (tally t no_counts)"
proof -
  obtain w where "myftw fds pathname myfunc True t no_counts = Inr (0, w)" "cnt w = tally t no_counts"
    using myftw_handles [OF assms(2), of fds pathname myfunc True no_counts] myfunc_visits(1) [OF assms(1,5,3)]
    by (metis prod.inject)
  moreover obtain c where "mydopath fds counter root cwd name 0 no_counts = (0, cwd, c)" "counts c = counts (tally t no_counts)"
    using mydopath_counts(1) [OF assms(1,2,4,5) refl] by blast
  ultimately show ?thesis by (auto simp: my_myftw_def)
qed

lemma to_int_small: "0 \<le> n \<Longrightarrow> n < 2 ^ 31 \<Longrightarrow> to_int n = n"
  by (simp add: to_int_def sint_sbintrunc' signed_take_bit_int_eq_self)

lemma print_info_counts: "counts c = counts d \<Longrightarrow> print_info percent c = print_info percent d"
  by (simp add: counts_def print_info_def)

lemma print_info_total:
  assumes "sum_list (counts c) < 2 ^ 31"
  shows "print_info percent c =
    (map (\<lambda>n. (int n, percent (int n) (max 1 (int (sum_list (counts c)))))) (counts c), max 1 (int (sum_list (counts c))))"
proof -
  have "to_int (int n) = int n" if "n \<in> set (counts c)" for n
    using assms member_le_sum_list [OF that] by (intro to_int_small) simp_all
  then have ns: "map (to_int \<circ> int) (counts c) = map int (counts c)" by simp
  have "sum_list (map int (counts c)) = int (sum_list (counts c))" by (induction "counts c") (simp_all add: sum_list_of_nat)
  moreover have "to_int (int (sum_list (counts c))) = int (sum_list (counts c))"
    using assms by (intro to_int_small) simp_all
  moreover have "(if int (sum_list (counts c)) = 0 then 1 else int (sum_list (counts c))) = max 1 (int (sum_list (counts c)))"
    by (cases "sum_list (counts c)") (simp_all only: max_def of_nat_0 of_nat_Suc, simp_all)
  ultimately show ?thesis
    unfolding print_info_def counts_def [symmetric] ns Let_def by (simp only: map_map comp_def)
qed

lemma small_tree_facts:
  "open_tree small_tree" "short_names small_tree" "short_paths (length ''top'') small_tree" "dir_depth small_tree \<le> 2"
  "lstat_at (Node 0x41ED True True [(''top'', small_tree)]) [] ''top'' = Some small_tree"
  "counts (tally small_tree no_counts) = [1, 1, 0, 0, 0, 0, 0]"
  by code_simp+

theorem walks_agree_witness:
  "\<exists>w c. myftw 2 ''top'' myfunc True small_tree no_counts = Inr (0, w) \<and>
    my_myftw 2 counter (Node 0x41ED True True [(''top'', small_tree)]) [] ''top'' no_counts = (0, [], c) \<and>
    counts (cnt w) = [1, 1, 0, 0, 0, 0, 0] \<and> counts c = [1, 1, 0, 0, 0, 0, 0]"
  using walks_agree [OF small_tree_facts(1-3,5,4)] unfolding small_tree_facts(6) .

text \<open>
  C4: On a tree whose directories may all be read and searched, which has fewer than \<open>2^31\<close> files, no path of
  \<^verbatim>\<open>PATH_MAX\<close> bytes or more and no more directories below each other than can be open at a time, the program,
  called with the name of the tree in the working directory, prints the same report twice: the
  numbers of the tree's files by type and, as the total, their sum.
\<close>

theorem catalog_reports:
  assumes "open_tree t" "short_names t" "short_paths (length name) t" "lstat_at root cwd name = Some t" "dir_depth t \<le> fds"
    and "sum_list (counts (tally t no_counts)) < 2 ^ 31"
  shows "let ns = counts (tally t no_counts); ntot = max 1 (int (sum_list ns)); r = (map (\<lambda>n. (int n, percent (int n) ntot)) ns, ntot)
    in catalog_main percent fds root cwd [name] = Inr (r, r)"
proof -
  obtain w where w: "myftw fds name myfunc True t no_counts = Inr (0, w)" "cnt w = tally t no_counts"
    using myftw_handles [OF assms(2), of fds name myfunc True no_counts] myfunc_visits(1) [OF assms(1,5,3)]
    by (metis prod.inject)
  obtain c where c: "my_myftw fds counter root cwd name no_counts = (0, cwd, c)" "counts c = counts (tally t no_counts)"
    using mydopath_counts(1) [OF assms(1,2,4,5) refl] by (auto simp: my_myftw_def)
  show ?thesis
    using w c assms(4) print_info_total [OF assms(6), of percent] print_info_counts [OF c(2), of percent]
    by (simp add: catalog_main_def Let_def)
qed

theorem catalog_reports_witness:
  "catalog_main (\<lambda>n ntot. fmt_d (n * 100 div ntot)) 2 (Node 0x41ED True True [(''top'', small_tree)]) [] [''top''] =
    (let r = ([(1, ''50''), (1, ''50''), (0, ''0''), (0, ''0''), (0, ''0''), (0, ''0''), (0, ''0'')], 2) in Inr (r, r))"
proof -
  have "fmt_d 50 = ''50''" "fmt_d 0 = ''0''" by (simp_all add: fmt_d_def digits.simps)
  then show ?thesis
    using catalog_reports [OF small_tree_facts(1-3,5,4), of "\<lambda>n ntot. fmt_d (n * 100 div ntot)"]
    unfolding small_tree_facts(6) by (simp add: Let_def)
qed



end
