(* ===== verification/Catalog_Memory.thy ===== *)
theory Catalog_Memory
  imports Catalog "HOL-Library.Sublist"
begin

text \<open>
  The walk with full paths of \<^verbatim>\<open>1/catalog/main.c\<close> when memory can run out: \<^verbatim>\<open>path_alloc\<close> with the limits
  it asks the system for, \<^verbatim>\<open>malloc\<close> and \<^verbatim>\<open>realloc\<close> that may fail, and what the program does then: it
  reports the failure and goes on with a null pointer.
\<close>

section \<open>The size of the first buffer\<close>

text \<open>The results of \<^verbatim>\<open>sysconf\<close> and of \<^verbatim>\<open>pathconf\<close>, with the \<^verbatim>\<open>errno\<close> it leaves.\<close>

record conf =
  sc_version :: int
  sc_xopen_version :: int
  pc_path_max :: int
  pc_errno :: int

text \<open>The static variables of \<^verbatim>\<open>main.h\<close>; \<^verbatim>\<open>PATH_MAX\<close> is defined.\<close>

record limits =
  pathmax :: int
  posix_version :: int
  xsi_version :: int

definition limits_init :: limits where
  "limits_init = \<lparr>pathmax = int PATH_MAX, posix_version = 0, xsi_version = 0\<rparr>"

definition PATH_MAX_GUESS :: int where "PATH_MAX_GUESS = 1024"

definition path_limits :: "conf \<Rightarrow> limits \<Rightarrow> limits" where
  "path_limits e l =
     (let l = (if posix_version l = 0 then l\<lparr>posix_version := sc_version e\<rparr> else l);
          l = (if xsi_version l = 0 then l\<lparr>xsi_version := sc_xopen_version e\<rparr> else l)
      in if pathmax l = 0 then
           (if pc_path_max e < 0 then
              (if pc_errno e = 0 then l\<lparr>pathmax := PATH_MAX_GUESS\<rparr> else l\<lparr>pathmax := pc_path_max e\<rparr>)
            else l\<lparr>pathmax := pc_path_max e + 1\<rparr>)
         else l)"

definition path_size :: "limits \<Rightarrow> 64 word" where
  "path_size l =
     (if posix_version l < 200112 \<and> xsi_version l < 4 then word_of_int (pathmax l + 1) else word_of_int (pathmax l))"

section \<open>The walk\<close>

text \<open>
  \<open>al k n\<close> tells whether the \<open>k\<close>-th call of \<^verbatim>\<open>malloc\<close> or \<^verbatim>\<open>realloc\<close>, for \<open>n\<close> bytes, succeeds; \<open>allocs\<close> counts
  the calls. A fault comes with the state it happens in.
\<close>

record mwalker = walker +
  allocs :: nat

type_synonym allocator = "nat \<Rightarrow> nat \<Rightarrow> bool"

definition path_alloc_mem :: "allocator \<Rightarrow> conf \<Rightarrow> limits \<Rightarrow> bool \<times> nat \<times> limits" where
  "path_alloc_mem al e l = (let l = path_limits e l; sz = unat (path_size l) in (al 0 sz, sz, l))"

definition store_slash :: "mwalker \<Rightarrow> (fault \<times> mwalker) + mwalker" where
  "store_slash w =
     (if length (fullpath w) + 1 < pathlen w then Inr (w\<lparr>fullpath := fullpath w @ ''/''\<rparr>) else Inl (OutOfBounds, w))"

definition add_slash_mem :: "allocator \<Rightarrow> mwalker \<Rightarrow> (fault \<times> mwalker) + mwalker" where
  "add_slash_mem al w =
     (if length (fullpath w) + NAME_MAX + 2 > pathlen w then
        (let k = allocs w; w = w\<lparr>pathlen := pathlen w * 2, allocs := k + 1\<rparr>
         in if al k (pathlen w) then store_slash w else Inl (NullDeref, w))
      else store_slash w)"

definition call_mem :: "handler \<Rightarrow> 32 word \<Rightarrow> int \<Rightarrow> mwalker \<Rightarrow> int \<times> mwalker" where
  "call_mem func m type w = (case func (fullpath w) m type (cnt w) of (ret, c) \<Rightarrow> (ret, w\<lparr>cnt := c\<rparr>))"

fun dopath_mem :: "nat \<Rightarrow> allocator \<Rightarrow> handler \<Rightarrow> bool \<Rightarrow> node \<Rightarrow> mwalker \<Rightarrow> (fault \<times> mwalker) + int \<times> mwalker"
  and dopath_mem_entries ::
    "nat \<Rightarrow> allocator \<Rightarrow> handler \<Rightarrow> bool \<Rightarrow> nat \<Rightarrow> (string \<times> node) list \<Rightarrow> mwalker \<Rightarrow> (fault \<times> mwalker) + int \<times> mwalker" where
  "dopath_mem fds al func ok (Node m r x es) w =
     (if \<not> lstat_ok ok (fullpath w) then Inr (call_mem func 0 FTW_NS w)
      else if \<not> S_ISDIR m then Inr (call_mem func m FTW_F w)
      else case call_mem func m FTW_D w of (ret, w) \<Rightarrow>
        if ret \<noteq> 0 then Inr (ret, w)
        else case add_slash_mem al w of
          Inl f \<Rightarrow> Inl f
        | Inr w' \<Rightarrow>
          if \<not> opendir_ok fds r (fullpath w') then Inr (call_mem func m FTW_DNR w')
          else (case dopath_mem_entries (fds - 1) al func x (length (fullpath w) + 1) es w' of
             Inl f \<Rightarrow> Inl f
           | Inr (ret, w') \<Rightarrow> Inr (ret, w'\<lparr>fullpath := take (length (fullpath w)) (fullpath w')\<rparr>)))"
| "dopath_mem_entries fds al func x n [] w = Inr (0, w)"
| "dopath_mem_entries fds al func x n ((name, c) # es) w =
     (if is_dot name then dopath_mem_entries fds al func x n es w
      else if \<not> n + length name < pathlen w then Inl (OutOfBounds, w)
      else case dopath_mem fds al func x c (w\<lparr>fullpath := take n (fullpath w) @ name\<rparr>) of
        Inl f \<Rightarrow> Inl f
      | Inr (ret, w) \<Rightarrow> if ret \<noteq> 0 then Inr (ret, w) else dopath_mem_entries fds al func x n es w)"

text \<open>
  \<^verbatim>\<open>strcpy\<close> dereferences the pointer both allocations left; \<^verbatim>\<open>realloc\<close> of a null pointer allocates anew.
\<close>

definition myftw_mem ::
  "nat \<Rightarrow> allocator \<Rightarrow> conf \<Rightarrow> limits \<Rightarrow> string \<Rightarrow> handler \<Rightarrow> bool \<Rightarrow> node \<Rightarrow> counters \<Rightarrow> (fault \<times> mwalker) + int \<times> mwalker" where
  "myftw_mem fds al e l pathname func ok t c =
     (case path_alloc_mem al e l of (got, sz, l) \<Rightarrow>
      let n = length pathname;
          w = \<lparr>fullpath = [], pathlen = sz, cnt = c, allocs = 1\<rparr>;
          (got, w) = (if sz \<le> n then (al 1 (n * 2), w\<lparr>pathlen := n * 2, allocs := 2\<rparr>) else (got, w))
      in if \<not> got then Inl (NullDeref, w)
         else if \<not> n < pathlen w then Inl (OutOfBounds, w)
         else dopath_mem fds al func ok t (w\<lparr>fullpath := pathname\<rparr>))"

section \<open>How far the walk gets\<close>

text \<open>
  The state after a walk that was to make the calls \<open>vs\<close>: it has made them all, or it ran out of
  memory after some of them, all of which returned zero.
\<close>

definition ran_out :: "allocator \<Rightarrow> handler \<Rightarrow> (string \<times> 32 word \<times> int) list \<Rightarrow> counters \<Rightarrow> nat \<Rightarrow> fault \<times> mwalker \<Rightarrow> bool" where
  "ran_out al func vs c k = (\<lambda>(f, w). f = NullDeref \<and> k < allocs w \<and> \<not> al (allocs w - 1) (pathlen w) \<and>
     (\<exists>us. prefix us vs \<and> handle_all func us c = (0, cnt w)))"

lemma add_slash_mem_cases:
  assumes "length (fullpath w) < pathlen w" "NAME_MAX + 2 \<le> pathlen w"
  shows "(\<exists>w'. add_slash_mem al w = Inr w' \<and> fullpath w' = fullpath w @ ''/'' \<and> cnt w' = cnt w \<and>
      pathlen w \<le> pathlen w' \<and> length (fullpath w) + 1 + NAME_MAX < pathlen w' \<and> allocs w \<le> allocs w') \<or>
    (\<exists>w'. add_slash_mem al w = Inl (NullDeref, w') \<and> cnt w' = cnt w \<and> allocs w' = Suc (allocs w) \<and> \<not> al (allocs w) (pathlen w'))"
  using assms by (auto simp: add_slash_mem_def store_slash_def Let_def)

lemma ran_out_mono:
  assumes "ran_out al func vs c k fw" "k' \<le> k" "prefix vs vs'"
  shows "ran_out al func vs' c k' fw"
  using assms unfolding ran_out_def by (auto intro: prefix_order.trans)

lemma ran_out_after:
  assumes "ran_out al func vs c' k fw" "handle_all func us c = (0, c')"
  shows "ran_out al func (us @ vs) c k fw"
proof -
  obtain f w where fw: "fw = (f, w)" by (cases fw)
  with assms obtain us' where "prefix us' vs" "handle_all func us' c' = (0, cnt w)" by (auto simp: ran_out_def)
  then have "prefix (us @ us') (us @ vs)" "handle_all func (us @ us') c = (0, cnt w)"
    using assms(2) by (simp_all add: handle_all_append)
  with assms(1) fw show ?thesis unfolding ran_out_def by blast
qed


lemma dopath_mem_visits:
  "short_names t \<Longrightarrow> length (fullpath w) < pathlen w \<Longrightarrow> NAME_MAX + 2 \<le> pathlen w \<Longrightarrow>
    (\<exists>ret w'. dopath_mem fds al func ok t w = Inr (ret, w') \<and> (ret, cnt w') = handle_all func (visits fds ok (fullpath w) t) (cnt w) \<and>
      take (length (fullpath w)) (fullpath w') = fullpath w \<and> pathlen w \<le> pathlen w' \<and> allocs w \<le> allocs w') \<or>
    (\<exists>fw. dopath_mem fds al func ok t w = Inl fw \<and> ran_out al func (visits fds ok (fullpath w) t) (cnt w) (allocs w) fw)"
  "short_entries es \<Longrightarrow> n + NAME_MAX < pathlen w \<Longrightarrow> NAME_MAX + 2 \<le> pathlen w \<Longrightarrow> n \<le> length (fullpath w) \<Longrightarrow>
    (\<exists>ret w'. dopath_mem_entries fds al func x n es w = Inr (ret, w') \<and>
      (ret, cnt w') = handle_all func (entry_visits fds x (take n (fullpath w)) es) (cnt w) \<and>
      take n (fullpath w') = take n (fullpath w) \<and> pathlen w \<le> pathlen w' \<and> n \<le> length (fullpath w') \<and> allocs w \<le> allocs w') \<or>
    (\<exists>fw. dopath_mem_entries fds al func x n es w = Inl fw \<and>
      ran_out al func (entry_visits fds x (take n (fullpath w)) es) (cnt w) (allocs w) fw)"
proof (induction fds al func ok t w and fds al func x n es w rule: dopath_mem_dopath_mem_entries.induct)
  case (1 fds al func ok m r x es w)
  let ?ok = "lstat_ok ok (fullpath w)"
  obtain ret c where f: "func (fullpath w) m FTW_D (cnt w) = (ret, c)" by fastforce
  consider "\<not> ?ok" | "?ok" "\<not> S_ISDIR m" | "?ok" "S_ISDIR m" "ret \<noteq> 0" | "?ok" "S_ISDIR m" "ret = 0" by blast
  then show ?case
  proof cases
    case 1
    then show ?thesis by (auto simp: call_mem_def split: prod.splits)
  next
    case 2
    then show ?thesis by (auto simp: call_mem_def split: prod.splits)
  next
    case 3
    with f show ?thesis by (simp add: call_mem_def)
  next
    case 4
    let ?w1 = "w\<lparr>cnt := c\<rparr>"
    let ?od = "opendir_ok fds r (fullpath w @ ''/'')"
    let ?rest = "if ?od then entry_visits (fds - 1) x (fullpath w @ ''/'') es else [(fullpath w @ ''/'', m, FTW_DNR)]"
    have d: "call_mem func m FTW_D w = (ret, ?w1)" using f by (simp add: call_mem_def)
    have v: "visits fds ok (fullpath w) (Node m r x es) = [(fullpath w, m, FTW_D)] @ ?rest" using 4 by simp
    have one: "handle_all func [(fullpath w, m, FTW_D)] (cnt w) = (0, c)" using f 4 by simp
    consider (room) w2 where "add_slash_mem al ?w1 = Inr w2" "fullpath w2 = fullpath w @ ''/''" "cnt w2 = c"
      "pathlen w \<le> pathlen w2" "length (fullpath w) + 1 + NAME_MAX < pathlen w2" "allocs w \<le> allocs w2"
    | (none) w2 where "add_slash_mem al ?w1 = Inl (NullDeref, w2)" "cnt w2 = c" "allocs w2 = Suc (allocs w)" "\<not> al (allocs w) (pathlen w2)"
      using add_slash_mem_cases [of ?w1 al] "1.prems" by auto
    then show ?thesis
    proof cases
      case none
      then have "ran_out al func (visits fds ok (fullpath w) (Node m r x es)) (cnt w) (allocs w) (NullDeref, w2)"
        unfolding v ran_out_def using one by (auto intro!: exI [of _ "[(fullpath w, m, FTW_D)]"])
      then show ?thesis using 4 d none by simp
    next
      case room
      show ?thesis
      proof (cases ?od)
        case False
        then show ?thesis using 4 d f room by (auto simp: call_mem_def split: prod.splits)
      next
        case True
        have t: "take (length (fullpath ?w1) + 1) (fullpath w2) = fullpath w @ ''/''" using room(2) by simp
        consider (all) ret' w' where "dopath_mem_entries (fds - 1) al func x (length (fullpath w) + 1) es w2 = Inr (ret', w')"
            "(ret', cnt w') = handle_all func (entry_visits (fds - 1) x (fullpath w @ ''/'') es) c"
            "take (length (fullpath w) + 1) (fullpath w') = fullpath w @ ''/''" "pathlen w2 \<le> pathlen w'" "allocs w2 \<le> allocs w'"
          | (out) fw where "dopath_mem_entries (fds - 1) al func x (length (fullpath w) + 1) es w2 = Inl fw"
            "ran_out al func (entry_visits (fds - 1) x (fullpath w @ ''/'') es) c (allocs w2) fw"
          using "1.IH" [OF _ _ d [symmetric] _ room(1)] 4 room "1.prems" True by (auto simp: t)
        then show ?thesis
        proof cases
          case all
          have "take (length (fullpath w)) (fullpath w') = fullpath w"
            using arg_cong [OF all(3), of "take (length (fullpath w))"] by (simp add: min_def)
          then show ?thesis using 4 True d f room all by simp
        next
          case out
          have "ran_out al func (visits fds ok (fullpath w) (Node m r x es)) (cnt w) (allocs w) fw"
            unfolding v using ran_out_after [OF out(2) one] ran_out_mono room(6) True by auto
          then show ?thesis using 4 True d room out(1) by simp
        qed
      qed
    qed
  qed
next
  case (2 fds al func x n w)
  then show ?case by simp
next
  case (3 fds al func x n name c es w)
  show ?case
  proof (cases "is_dot name")
    case True
    then show ?thesis using "3.IH"(1) "3.prems" by simp
  next
    case False
    let ?w = "w\<lparr>fullpath := take n (fullpath w) @ name\<rparr>"
    have len: "n + length name < pathlen w" using "3.prems" by simp
    have "(\<exists>ret w'. dopath_mem fds al func x c ?w = Inr (ret, w') \<and>
        (ret, cnt w') = handle_all func (visits fds x (fullpath ?w) c) (cnt ?w) \<and>
        take (length (fullpath ?w)) (fullpath w') = fullpath ?w \<and> pathlen ?w \<le> pathlen w' \<and> allocs ?w \<le> allocs w') \<or>
       (\<exists>fw. dopath_mem fds al func x c ?w = Inl fw \<and> ran_out al func (visits fds x (fullpath ?w) c) (cnt ?w) (allocs ?w) fw)"
      by (rule "3.IH"(2)) (use False len "3.prems" in auto)
    then consider (all) ret w1 where "dopath_mem fds al func x c ?w = Inr (ret, w1)"
        "(ret, cnt w1) = handle_all func (visits fds x (take n (fullpath w) @ name) c) (cnt w)"
        "take (n + length name) (fullpath w1) = take n (fullpath w) @ name" "pathlen w \<le> pathlen w1" "allocs w \<le> allocs w1"
      | (out) fw where "dopath_mem fds al func x c ?w = Inl fw"
        "ran_out al func (visits fds x (take n (fullpath w) @ name) c) (cnt w) (allocs w) fw"
      using "3.prems"(4) by (auto simp: min_absorb2)
    then show ?thesis
    proof cases
      case out
      then have "ran_out al func (entry_visits fds x (take n (fullpath w)) ((name, c) # es)) (cnt w) (allocs w) fw"
        using False by (auto intro: ran_out_mono)
      then show ?thesis using out(1) len False by simp
    next
      case w1: all
      have n1: "take n (fullpath w1) = take n (fullpath w)" "n \<le> length (fullpath w1)"
        using arg_cong [OF w1(3), of "take n"] arg_cong [OF w1(3), of length] "3.prems"(4)
        by (auto simp: min_absorb2 min_def split: if_splits)
      show ?thesis
      proof (cases "ret = 0")
        case False
        then show ?thesis using w1 n1 len \<open>\<not> is_dot name\<close> by (auto simp: handle_all_append split: prod.splits)
      next
        case True
        have rest: "(\<exists>ret w'. dopath_mem_entries fds al func x n es w1 = Inr (ret, w') \<and>
            (ret, cnt w') = handle_all func (entry_visits fds x (take n (fullpath w1)) es) (cnt w1) \<and>
            take n (fullpath w') = take n (fullpath w1) \<and> pathlen w1 \<le> pathlen w' \<and> n \<le> length (fullpath w') \<and> allocs w1 \<le> allocs w') \<or>
          (\<exists>fw. dopath_mem_entries fds al func x n es w1 = Inl fw \<and>
            ran_out al func (entry_visits fds x (take n (fullpath w1)) es) (cnt w1) (allocs w1) fw)"
          by (rule "3.IH"(3)) (use True \<open>\<not> is_dot name\<close> w1 n1 len "3.prems" in auto)
        have "ran_out al func (entry_visits fds x (take n (fullpath w)) ((name, c) # es)) (cnt w) (allocs w) fw"
          if "ran_out al func (entry_visits fds x (take n (fullpath w)) es) (cnt w1) (allocs w1) fw" for fw
          using ran_out_after [OF ran_out_mono [OF that w1(5) prefix_order.refl]] w1(2) True \<open>\<not> is_dot name\<close> by simp
        with rest show ?thesis using True w1 n1 len \<open>\<not> is_dot name\<close>
          by (auto simp: handle_all_append split: prod.splits)
      qed
    qed
  qed
qed

section \<open>Properties\<close>

text \<open>What \<^verbatim>\<open>path_alloc\<close> asks for: the limit of the header, one byte more on a system of old standards.\<close>

lemma path_size_init:
  "path_size (path_limits e limits_init) =
     (if sc_version e < 200112 \<and> sc_xopen_version e < 4 then 4097 else 4096)"
  by (auto simp: path_size_def path_limits_def limits_init_def PATH_MAX_def Let_def)

text \<open>
  Without the limit of the header \<^verbatim>\<open>pathconf\<close> is asked; if it fails with an error, its \<^verbatim>\<open>-1\<close> is taken for
  the limit, and the program asks for almost all of the address space (or, on an old system, for
  nothing).
\<close>

lemma path_size_failed:
  assumes "pc_path_max e = - 1" "pc_errno e \<noteq> 0"
  shows "unat (path_size (path_limits e \<lparr>pathmax = 0, posix_version = 0, xsi_version = 0\<rparr>)) =
     (if sc_version e < 200112 \<and> sc_xopen_version e < 4 then 0 else 2 ^ 64 - 1)"
proof -
  have "unat (- 1 :: 64 word) = 2 ^ 64 - 1" by (simp add: unsigned_minus_1_eq_mask mask_eq_exp_minus_1)
  then show ?thesis using assms by (simp add: path_size_def path_limits_def Let_def)
qed

definition after_walk :: "allocator \<Rightarrow> handler \<Rightarrow> (string \<times> 32 word \<times> int) list \<Rightarrow> counters \<Rightarrow>
  (fault \<times> mwalker) + int \<times> mwalker \<Rightarrow> bool" where
  "after_walk al func vs c res =
     (case res of Inr (ret, w) \<Rightarrow> (ret, cnt w) = handle_all func vs c
      | Inl fw \<Rightarrow> ran_out al func vs c 0 fw)"

text \<open>
  C28: The walk with full paths when memory can run out. Whatever allocations succeed, the program
  either makes all the calls the tree asks for, or it dereferences a null pointer right after an
  allocation that failed, having made the first of these calls, each with its full path and each
  returning zero; it never stores outside a buffer. If every allocation succeeds it does not crash.
\<close>

theorem walk_out_of_memory:
  assumes "short_names t"
  shows "after_walk al func (visits fds ok pathname t) c (myftw_mem fds al e limits_init pathname func ok t c) \<and>
    ((\<forall>k n. al k n) \<longrightarrow> \<not> isl (myftw_mem fds al e limits_init pathname func ok t c))"
proof -
  let ?sz = "unat (path_size (path_limits e limits_init))" and ?n = "length pathname"
  have sz: "NAME_MAX + 2 \<le> ?sz" "0 < ?sz" by (simp_all add: path_size_init NAME_MAX_def)
  let ?len = "if ?sz \<le> ?n then ?n * 2 else ?sz"
  let ?got = "if ?sz \<le> ?n then al 1 (?n * 2) else al 0 ?sz"
  let ?w = "\<lparr>fullpath = pathname, pathlen = ?len, cnt = c, allocs = (if ?sz \<le> ?n then 2 else 1)\<rparr>"
  have "after_walk al func (visits fds ok pathname t) c (myftw_mem fds al e limits_init pathname func ok t c)"
  proof (cases ?got)
    case False
    then show ?thesis using sz(2)
      by (auto simp: myftw_mem_def path_alloc_mem_def Let_def after_walk_def ran_out_def intro!: exI [of _ "[]"])
  next
    case True
    have room: "?n < ?len" "NAME_MAX + 2 \<le> ?len" using sz by auto
    with True have "myftw_mem fds al e limits_init pathname func ok t c = dopath_mem fds al func ok t ?w"
      by (cases "?sz \<le> ?n") (simp_all add: myftw_mem_def path_alloc_mem_def Let_def)
    then show ?thesis
      using dopath_mem_visits(1) [OF assms, of ?w fds al func ok] room
      by (auto simp: after_walk_def intro: ran_out_mono)
  qed
  then show ?thesis by (auto simp: after_walk_def ran_out_def split: sum.splits)
qed

text \<open>A path of 3900 characters, and memory for no more than 5000 bytes at a time.\<close>

theorem walk_out_of_memory_witness:
  "\<exists>w us. myftw_mem 1000 (\<lambda>k n. n \<le> 5000) \<lparr>sc_version = 200809, sc_xopen_version = 700, pc_path_max = 4096, pc_errno = 0\<rparr> limits_init
      (replicate 3900 CHR ''a'') myfunc True small_tree no_counts = Inl (NullDeref, w) \<and> ndir (cnt w) = 1 \<and>
    prefix us (visits 1000 True (replicate 3900 CHR ''a'') small_tree) \<and> handle_all myfunc us no_counts = (0, cnt w)"
proof -
  let ?e = "\<lparr>sc_version = 200809, sc_xopen_version = 700, pc_path_max = 4096, pc_errno = 0\<rparr>"
  let ?al = "\<lambda>k n :: nat. n \<le> 5000" and ?p = "replicate 3900 CHR ''a''"
  have d: "S_ISDIR 0x41ED" by (simp add: S_ISDIR_def mode_defs)
  have "short_names small_tree" by (simp add: NAME_MAX_def)
  note t = walk_out_of_memory [OF this, of ?al myfunc 1000 True ?p no_counts ?e]
  have "\<exists>w. myftw_mem 1000 ?al ?e limits_init ?p myfunc True small_tree no_counts = Inl (NullDeref, w) \<and> allocs w = 2 \<and> ndir (cnt w) = 1"
    using d by (simp add: myftw_mem_def path_alloc_mem_def path_size_init Let_def call_mem_def myfunc_def ftw_defs
      add_slash_mem_def NAME_MAX_def no_counts_def lstat_ok_def PATH_MAX_def)
  then obtain w where w: "myftw_mem 1000 ?al ?e limits_init ?p myfunc True small_tree no_counts = Inl (NullDeref, w)" "ndir (cnt w) = 1"
    by blast
  with t have "ran_out ?al myfunc (visits 1000 True ?p small_tree) no_counts 0 (NullDeref, w)"
    by (simp add: after_walk_def)
  then obtain us where us: "prefix us (visits 1000 True ?p small_tree)" "handle_all myfunc us no_counts = (0, cnt w)"
    by (auto simp: ran_out_def)
  show ?thesis using w us by blast
qed

end
