(* ===== verification/Proc_Reader.thy ===== *)
theory Proc_Reader
  imports Tasks
begin

text \<open>
  The program \<^verbatim>\<open>3/proc/main.c\<close>, which prints what /proc tells about a process. The files of /proc
  are an argument of the model. Every function returns what it prints; a file that cannot be
  opened makes it use a null stream, which is a fault.
\<close>

section \<open>Files and buffers\<close>

record procfs =
  pfile :: "string \<Rightarrow> char list option"  \<comment> \<open>what reading the file returns, if it can be opened\<close>
  plink :: "string \<Rightarrow> char list option"  \<comment> \<open>\<^verbatim>\<open>readlink\<close>\<close>
  pdir :: "string \<Rightarrow> string list option"  \<comment> \<open>\<^verbatim>\<open>readdir\<close>\<close>

definition BUF_SIZE :: nat where "BUF_SIZE = 4096"
definition PATH_MAX_LEN :: nat where "PATH_MAX_LEN = 128"

text \<open>\<^verbatim>\<open>snprintf(path, PATH_MAX_LEN, "/proc/%s/name", proc)\<close>\<close>

definition proc_path :: "string \<Rightarrow> string \<Rightarrow> string" where
  "proc_path proc name = take (PATH_MAX_LEN - 1) (''/proc/'' @ proc @ ''/'' @ name)"

definition stats :: "string list" where
  "stats = [
     ''pid'', ''comm'', ''state'', ''ppid'', ''pgrp'', ''session'', ''tty_nr'', ''tpgid'', ''flags'', ''minflt'',
     ''cminflt'', ''majflt'', ''cmajflt'', ''utime'', ''stime'', ''cutime'', ''cstime'', ''priority'', ''nice'', ''num_threads'',
     ''itrealvalue'', ''starttime'', ''vsize'', ''rss'', ''rsslim'', ''startcode'', ''endcode'', ''startstack'', ''kstkesp'', ''kstkeip'',
     ''signal'', ''blocked'', ''sigignore'', ''sigcatch'', ''wchan'', ''nswap'', ''cnswap'', ''exit_signal'', ''processor'', ''rt_priority'',
     ''policy'', ''delayacct_blkio_ticks'', ''guest_time'', ''cguest_time'', ''start_data'', ''end_data'', ''start_brk'', ''arg_start'', ''arg_end'',
     ''env_start'', ''env_end'', ''env_code'']"

lemma length_stats [simp]: "length stats = 52"
  by (simp add: stats_def)

section \<open>Files with NUL bytes: \<^verbatim>\<open>environ\<close> and \<^verbatim>\<open>io\<close>\<close>

definition nul_to_newline :: "char \<Rightarrow> char" where
  "nul_to_newline b = (if b = NUL then CHR 0x0A else b)"

text \<open>
  The loop over blocks: read up to \<^verbatim>\<open>BUF_SIZE\<close> bytes, replace, terminate at \<^verbatim>\<open>buf[len]\<close>, print.
\<close>

function block_loop :: "char list \<Rightarrow> string" where
  "block_loop left =
     (let buf = take BUF_SIZE left in
      if buf = [] then []
      else cstr (map nul_to_newline buf @ [NUL]) @ block_loop (drop BUF_SIZE left))"
  by pat_completeness auto

termination
  by (relation "measure length") (auto simp: BUF_SIZE_def)

declare block_loop.simps [simp del]

definition fprintf_environ :: "procfs \<Rightarrow> string \<Rightarrow> fault + string" where
  "fprintf_environ pf proc =
     (case pfile pf (proc_path proc ''environ'') of
        None \<Rightarrow> Inl NullDeref
      | Some bs \<Rightarrow> Inr (''ENVIRON'' @ newline @ block_loop bs))"

definition fprintf_io :: "procfs \<Rightarrow> string \<Rightarrow> fault + string" where
  "fprintf_io pf proc =
     (case pfile pf (proc_path proc ''io'') of
        None \<Rightarrow> Inl NullDeref
      | Some bs \<Rightarrow> Inr (''IO'' @ newline @ block_loop bs))"

section \<open>One block: \<^verbatim>\<open>cmdline\<close> and \<^verbatim>\<open>comm\<close>\<close>

definition first_block :: "char list \<Rightarrow> string" where
  "first_block bs = cstr (take BUF_SIZE bs @ [NUL])"

definition fprintf_cmdline :: "procfs \<Rightarrow> string \<Rightarrow> fault + string" where
  "fprintf_cmdline pf proc =
     (case pfile pf (proc_path proc ''cmdline'') of
        None \<Rightarrow> Inl NullDeref
      | Some bs \<Rightarrow> Inr (''CMDLINE'' @ newline @ first_block bs @ newline))"

definition fprintf_comm :: "procfs \<Rightarrow> string \<Rightarrow> fault + string" where
  "fprintf_comm pf proc =
     (case pfile pf (proc_path proc ''comm'') of
        None \<Rightarrow> Inl NullDeref
      | Some bs \<Rightarrow> Inr (''COMM'' @ newline @ first_block bs @ newline))"

section \<open>\<^verbatim>\<open>stat\<close>\<close>

text \<open>\<^verbatim>\<open>strtok\<close> with one delimiter: the next token and what is left.\<close>

definition strtok :: "char \<Rightarrow> string \<Rightarrow> (string \<times> string) option" where
  "strtok d s =
     (let s = dropWhile (\<lambda>c. c = d) s in
      if s = [] then None else Some (takeWhile (\<lambda>c. c \<noteq> d) s, drop 1 (dropWhile (\<lambda>c. c \<noteq> d) s)))"

lemma strtok_shorter: "strtok d s = Some (tok, s') \<Longrightarrow> length s' < length s"
proof -
  assume "strtok d s = Some (tok, s')"
  then have ne: "dropWhile (\<lambda>c. c = d) s \<noteq> []"
    and s': "s' = drop 1 (dropWhile (\<lambda>c. c \<noteq> d) (dropWhile (\<lambda>c. c = d) s))"
    by (auto simp: strtok_def Let_def split: if_splits)
  have "hd (dropWhile (\<lambda>c. c = d) s) \<noteq> d" using ne by (rule hd_dropWhile)
  then have "length (dropWhile (\<lambda>c. c \<noteq> d) (dropWhile (\<lambda>c. c = d) s)) < length (dropWhile (\<lambda>c. c = d) s)"
    using ne by (cases "dropWhile (\<lambda>c. c = d) s") (auto simp: less_Suc_eq_le length_dropWhile_le)
  moreover have "length (dropWhile (\<lambda>c. c = d) s) \<le> length s" by (rule length_dropWhile_le)
  ultimately show ?thesis by (simp add: s')
qed

function stat_loop :: "nat \<Rightarrow> string \<Rightarrow> fault + string" where
  "stat_loop i s =
     (case strtok CHR '' '' s of
        None \<Rightarrow> Inr []
      | Some (pch, s) \<Rightarrow>
        (case aget stats (int i) of
           Inl f \<Rightarrow> Inl f
         | Inr name \<Rightarrow>
           (case stat_loop (i + 1) s of
              Inl f \<Rightarrow> Inl f
            | Inr out \<Rightarrow> Inr (name @ '': '' @ pch @ newline @ out))))"
  by pat_completeness auto

termination
  by (relation "measure (length \<circ> snd)") (auto dest: strtok_shorter)

declare stat_loop.simps [simp del]

definition fprintf_stat :: "procfs \<Rightarrow> string \<Rightarrow> fault + string" where
  "fprintf_stat pf proc =
     (case pfile pf (proc_path proc ''stat'') of
        None \<Rightarrow> Inl NullDeref
      | Some bs \<Rightarrow>
        (case stat_loop 0 (first_block bs) of
           Inl f \<Rightarrow> Inl f
         | Inr out \<Rightarrow> Inr (''==========='' @ newline @ ''STAT'' @ newline @ out)))"

section \<open>Links: \<^verbatim>\<open>fd\<close>, \<^verbatim>\<open>cwd\<close>, \<^verbatim>\<open>exe\<close> and \<^verbatim>\<open>root\<close>\<close>

text \<open>\<^verbatim>\<open>readlink(path, str, BUF_SIZE)\<close> stores the bytes of the link and no terminator.\<close>

definition readlink :: "procfs \<Rightarrow> string \<Rightarrow> char list \<Rightarrow> char list" where
  "readlink pf path str = (case plink pf path of None \<Rightarrow> str | Some l \<Rightarrow> blit str 0 (take BUF_SIZE l))"

definition dotted :: "string \<Rightarrow> bool" where
  "dotted name \<longleftrightarrow> name = ''.'' \<or> name = ''..''"

fun fd_loop :: "procfs \<Rightarrow> string \<Rightarrow> string list \<Rightarrow> char list \<Rightarrow> fault + string" where
  "fd_loop pf fd_path [] str = Inr []"
| "fd_loop pf fd_path (name # names) str =
     (if dotted name then fd_loop pf fd_path names str
      else let path = take (BUF_SIZE - 1) (fd_path @ ''/'' @ name); str = readlink pf path str in
        if NUL \<notin> set str then Inl OutOfBounds
        else case fd_loop pf fd_path names str of
          Inl f \<Rightarrow> Inl f
        | Inr out \<Rightarrow> Inr (name @ '' -> '' @ cstr str @ newline @ out))"

definition fprintf_fd :: "procfs \<Rightarrow> string \<Rightarrow> fault + string" where
  "fprintf_fd pf proc =
     (let fd_path = proc_path proc ''fd'' in
      case pdir pf fd_path of
        None \<Rightarrow> Inl NullDeref
      | Some names \<Rightarrow>
        (case fd_loop pf fd_path names (replicate BUF_SIZE NUL) of
           Inl f \<Rightarrow> Inl f
         | Inr out \<Rightarrow> Inr (''FD'' @ newline @ out)))"

text \<open>The three functions for one link, which first read the file the link leads to, to no end.\<close>

definition sym_line :: "procfs \<Rightarrow> string \<Rightarrow> string \<Rightarrow> fault + string" where
  "sym_line pf path name =
     (case pfile pf path of
        None \<Rightarrow> Inl NullDeref
      | Some _ \<Rightarrow> Inr (name @ '' -> '' @ cstr (readlink pf path (replicate (BUF_SIZE + 1) NUL)) @ newline))"

definition headed :: "string \<Rightarrow> fault + string \<Rightarrow> fault + string" where
  "headed h r = (case r of Inl f \<Rightarrow> Inl f | Inr out \<Rightarrow> Inr (h @ newline @ out))"

definition fprintf_sym_cwd :: "procfs \<Rightarrow> string \<Rightarrow> fault + string" where
  "fprintf_sym_cwd pf proc = headed ''CWD SYMLINK'' (sym_line pf (proc_path proc ''cwd'') ''cwd'')"

definition fprintf_sym_exe :: "procfs \<Rightarrow> string \<Rightarrow> fault + string" where
  "fprintf_sym_exe pf proc = headed ''EXE SYMLINK'' (sym_line pf (proc_path proc ''exe'') ''exe'')"

definition fprintf_sym_root :: "procfs \<Rightarrow> string \<Rightarrow> fault + string" where
  "fprintf_sym_root pf proc = headed ''ROOT SYMLINK'' (sym_line pf (proc_path proc ''root'') ''root'')"

section \<open>\<^verbatim>\<open>task\<close>\<close>

definition fprintf_task :: "procfs \<Rightarrow> string \<Rightarrow> fault + string" where
  "fprintf_task pf proc =
     (case pdir pf (proc_path proc ''task'') of
        None \<Rightarrow> Inl NullDeref
      | Some names \<Rightarrow> Inr (''TASK'' @ newline @
          concat (map (\<lambda>name. if dotted name then [] else name @ newline) names)))"

section \<open>\<^verbatim>\<open>maps\<close>\<close>

text \<open>
  \<^verbatim>\<open>sscanf(buf, "%lx-%lx", \<dots>)\<close> on a line that starts with a digit, as the kernel writes them:
  a number that is not there leaves its variable alone.
\<close>

definition hex_value :: "char \<Rightarrow> nat option" where
  "hex_value c =
     (let n = of_char c in
      if 48 \<le> n \<and> n \<le> 57 then Some (n - 48)
      else if 97 \<le> n \<and> n \<le> 102 then Some (n - 87)
      else if 65 \<le> n \<and> n \<le> 70 then Some (n - 55) else None)"

definition hex_prefix :: "string \<Rightarrow> string" where
  "hex_prefix s = takeWhile (\<lambda>c. hex_value c \<noteq> None) s"

definition hex_step :: "nat \<Rightarrow> char \<Rightarrow> nat" where
  "hex_step v c = v * 16 + the (hex_value c)"

text \<open>A number that does not fit is read as the greatest \<^verbatim>\<open>unsigned long\<close>.\<close>

definition hex_number :: "string \<Rightarrow> 64 word" where
  "hex_number s = (let n = foldl hex_step 0 (hex_prefix s) in if n < 2 ^ 64 then of_nat n else - 1)"

definition scan_range :: "string \<Rightarrow> 64 word \<times> 64 word \<Rightarrow> 64 word \<times> 64 word" where
  "scan_range buf = (\<lambda>(addr_begin, addr_end).
     let d = hex_prefix buf; buf' = drop (length d) buf in
     if d = [] then (addr_begin, addr_end)
     else case buf' of
       c # buf'' \<Rightarrow> if c = CHR ''-'' \<and> hex_prefix buf'' \<noteq> [] then (hex_number buf, hex_number buf'')
                   else (hex_number buf, addr_end)
     | [] \<Rightarrow> (hex_number buf, addr_end))"

text \<open>\<^verbatim>\<open>%8ld\<close> and \<^verbatim>\<open>%4ld\<close>; \<^verbatim>\<open>long\<close> division truncates towards zero.\<close>

definition pad :: "nat \<Rightarrow> string \<Rightarrow> string" where
  "pad w s = replicate (w - length s) CHR '' '' @ s"

definition maps_line :: "64 word \<Rightarrow> string \<Rightarrow> string" where
  "maps_line rec_bytes buf = pad 8 (fmt_d (sint rec_bytes)) @ ''   '' @ pad 4 (fmt_d (c_div (sint rec_bytes) 4096)) @ ''   '' @ cstr buf"

fun maps_loop :: "string list \<Rightarrow> 64 word \<times> 64 word \<Rightarrow> 64 word \<Rightarrow> string \<times> 64 word" where
  "maps_loop [] addrs bytes = ([], bytes)"
| "maps_loop (buf # lines) addrs bytes =
     (let addrs = scan_range buf addrs; rec_bytes = snd addrs - fst addrs in
      case maps_loop lines addrs (bytes + rec_bytes) of
        (out, size_bytes) \<Rightarrow> (maps_line rec_bytes buf @ out, size_bytes))"

text \<open>\<^verbatim>\<open>getline\<close>: the lines of a file, each with its newline.\<close>

fun getlines :: "char list \<Rightarrow> string list" where
  "getlines [] = []"
| "getlines (b # bs) =
     (if b = CHR 0x0A then [b] # getlines bs
      else case getlines bs of [] \<Rightarrow> [[b]] | l # ls \<Rightarrow> (b # l) # ls)"

text \<open>\<open>start\<close> is what the two address variables hold before they are set.\<close>

definition fprintf_maps :: "64 word \<times> 64 word \<Rightarrow> procfs \<Rightarrow> string \<Rightarrow> fault + string" where
  "fprintf_maps start pf proc =
     (case pfile pf (proc_path proc ''maps'') of
        None \<Rightarrow> Inl NullDeref
      | Some bs \<Rightarrow>
        (case maps_loop (getlines bs) start 0 of
           (out, bytes) \<Rightarrow> Inr (''MAPS'' @ newline @
             ''bytes     pages   addr                      perms  offset  dev   inode                     pathname'' @ newline @
             out @ ''Size bytes: '' @ fmt_d (sint bytes) @ newline @
             ''Size pages: '' @ fmt_d (c_div (sint bytes) 4096) @ newline)))"

section \<open>\<^verbatim>\<open>pagemap\<close>\<close>

text \<open>The five values a pagemap entry is printed as.\<close>

definition page_fields :: "64 word \<Rightarrow> 64 word \<times> 64 word \<times> 64 word \<times> 64 word \<times> 64 word" where
  "page_fields d = (and d (push_bit 55 1 - 1), and (drop_bit 55 d) 1, and (drop_bit 61 d) 1,
     and (drop_bit 62 d) 1, and (drop_bit 63 d) 1)"

text \<open>\<^verbatim>\<open>%-16lx\<close> and \<^verbatim>\<open>%-10ld\<close>\<close>

definition pad_right :: "nat \<Rightarrow> string \<Rightarrow> string" where
  "pad_right w s = s @ replicate (w - length s) CHR '' ''"

definition fprintf_page :: "64 word \<Rightarrow> 64 word \<Rightarrow> string" where
  "fprintf_page address d =
     (case page_fields d of (pfn, soft, shared, swapped, present) \<Rightarrow>
        ''0x'' @ pad_right 16 (fmt_x address) @ '' : '' @ pad_right 16 (fmt_x pfn) @ '' '' @
        pad_right 10 (fmt_d (sint soft)) @ '' '' @ pad_right 10 (fmt_d (sint shared)) @ '' '' @
        pad_right 10 (fmt_d (sint swapped)) @ '' '' @ pad_right 10 (fmt_d (sint present)) @ newline)"

text \<open>
  The loop over the pages of a range. \<open>pagemap\<close> is what \<^verbatim>\<open>pread\<close> stores at an index of the page map, if
  it stores anything: the variable it reads into is not initialised.
\<close>

definition then_print :: "string \<Rightarrow> fault + string \<Rightarrow> fault + string" where
  "then_print s r = (case r of Inl f \<Rightarrow> Inl f | Inr out \<Rightarrow> Inr (s @ out))"

partial_function (option) page_loop :: "(64 word \<Rightarrow> 64 word option) \<Rightarrow> 64 word \<Rightarrow> 64 word \<Rightarrow> (fault + string) option" where
  "page_loop pagemap i end_addr =
     (if i < end_addr
      then case pagemap (i div 4096 * 8) of
        None \<Rightarrow> Some (Inl Uninit)
      | Some d \<Rightarrow> Option.bind (page_loop pagemap (i + 4096) end_addr) (\<lambda>r. Some (then_print (fprintf_page i d) r))
      else Some (Inr []))"

text \<open>\<^verbatim>\<open>strtoul(s, NULL, 16)\<close>: white space, a sign, a prefix and the digits, all but the digits optional.\<close>

definition isspace :: "char \<Rightarrow> bool" where
  "isspace c \<longleftrightarrow> c = CHR '' '' \<or> 9 \<le> (of_char c :: nat) \<and> (of_char c :: nat) \<le> 13"

definition skip_0x :: "string \<Rightarrow> string" where
  "skip_0x s = (if (take 2 s = ''0x'' \<or> take 2 s = ''0X'') \<and> hex_prefix (drop 2 s) \<noteq> [] then drop 2 s else s)"

definition strtoul :: "string \<Rightarrow> 64 word" where
  "strtoul s =
     (case dropWhile isspace s of
        [] \<Rightarrow> 0
      | c # s \<Rightarrow>
        if c = CHR ''-'' then (let v = hex_number (skip_0x s) in if v = - 1 then v else - v)
        else if c = CHR ''+'' then hex_number (skip_0x s)
        else hex_number (skip_0x (c # s)))"

text \<open>One row of the block that was read: its first word, split at the dash.\<close>

definition row_pages :: "(64 word \<Rightarrow> 64 word option) \<Rightarrow> string \<Rightarrow> (fault + string) option" where
  "row_pages pagemap row =
     (case strtok CHR '' '' row of
        None \<Rightarrow> Some (Inr [])
      | Some (addresses, _) \<Rightarrow>
        (case strtok CHR ''-'' addresses of
           None \<Rightarrow> Some (Inr [])
         | Some (start_str, rest) \<Rightarrow>
           (case strtok CHR ''-'' rest of
              None \<Rightarrow> Some (Inr [])
            | Some (end_str, _) \<Rightarrow> page_loop pagemap (strtoul start_str) (strtoul end_str))))"

definition after :: "(fault + string) option \<Rightarrow> (fault + string) option \<Rightarrow> (fault + string) option" where
  "after r next =
     (case r of None \<Rightarrow> None | Some (Inl f) \<Rightarrow> Some (Inl f)
      | Some (Inr out) \<Rightarrow> (case next of None \<Rightarrow> None | Some r \<Rightarrow> Some (then_print out r)))"

text \<open>The rows of a block, and the blocks of the file; a block ends after 4096 bytes, wherever that is.\<close>

function rows_loop :: "(64 word \<Rightarrow> 64 word option) \<Rightarrow> string \<Rightarrow> (fault + string) option" where
  "rows_loop pagemap s =
     (case strtok CHR 0x0A s of
        None \<Rightarrow> Some (Inr [])
      | Some (row, s) \<Rightarrow> after (row_pages pagemap row) (rows_loop pagemap s))"
  by pat_completeness auto

termination
  by (relation "measure (length \<circ> snd)") (auto dest: strtok_shorter)

declare rows_loop.simps [simp del]

function map_blocks :: "(64 word \<Rightarrow> 64 word option) \<Rightarrow> char list \<Rightarrow> (fault + string) option" where
  "map_blocks pagemap left =
     (let buf = take BUF_SIZE left in
      if buf = [] then Some (Inr [])
      else after (rows_loop pagemap (cstr (map nul_to_newline buf @ [NUL]))) (map_blocks pagemap (drop BUF_SIZE left)))"
  by pat_completeness auto

termination
  by (relation "measure (length \<circ> snd)") (auto simp: BUF_SIZE_def)

declare map_blocks.simps [simp del]

definition fprintf_pagemap_info :: "(64 word \<Rightarrow> 64 word option) \<Rightarrow> procfs \<Rightarrow> string \<Rightarrow> (fault + string) option" where
  "fprintf_pagemap_info pagemap pf proc =
     (case pfile pf (proc_path proc ''maps'') of
        None \<Rightarrow> Some (Inl NullDeref)
      | Some bs \<Rightarrow> after (Some (Inr (''PAGEMAP'' @ newline @
          ''       addr        : pfn          soft-dirty file/shared swapped    present'' @ newline)))
          (map_blocks pagemap bs))"

section \<open>\<^verbatim>\<open>main\<close>\<close>

text \<open>The parts are printed in turn; the page map is not.\<close>

fun in_turn :: "(fault + string) list \<Rightarrow> fault + string" where
  "in_turn [] = Inr []"
| "in_turn (r # rs) =
     (case r of Inl f \<Rightarrow> Inl f
      | Inr out \<Rightarrow> (case in_turn rs of Inl f \<Rightarrow> Inl f | Inr outs \<Rightarrow> Inr (out @ outs)))"

definition proc_main :: "64 word \<times> 64 word \<Rightarrow> procfs \<Rightarrow> string \<Rightarrow> fault + string" where
  "proc_main start pf proc =
     in_turn [fprintf_environ pf proc, fprintf_stat pf proc, fprintf_cmdline pf proc, fprintf_fd pf proc,
       fprintf_sym_cwd pf proc, fprintf_sym_exe pf proc, fprintf_sym_root pf proc,
       fprintf_maps start pf proc, fprintf_io pf proc, fprintf_comm pf proc, fprintf_task pf proc]"

section \<open>Blocks\<close>

lemma no_nul_map: "no_nul (map nul_to_newline bs)"
  by (auto simp: no_nul_def nul_to_newline_def)

lemma block_loop_all: "block_loop bs = map nul_to_newline bs"
proof (induction bs rule: block_loop.induct)
  case (1 bs)
  show ?case
  proof (cases "bs = []")
    case True
    then show ?thesis by (simp add: block_loop.simps)
  next
    case False
    then have "take BUF_SIZE bs \<noteq> []" by (simp add: BUF_SIZE_def)
    moreover have "cstr (map nul_to_newline (take BUF_SIZE bs) @ [NUL]) = map nul_to_newline (take BUF_SIZE bs)"
      by (rule cstr_terminated) (rule no_nul_map)
    ultimately show ?thesis
      using "1.IH" [OF refl] by (subst block_loop.simps) (simp add: Let_def flip: map_append)
  qed
qed

section \<open>Tokens\<close>

function tokens :: "char \<Rightarrow> string \<Rightarrow> string list" where
  "tokens d s = (case strtok d s of None \<Rightarrow> [] | Some (tok, s) \<Rightarrow> tok # tokens d s)"
  by pat_completeness auto

termination
  by (relation "measure (length \<circ> snd)") (auto dest: strtok_shorter)

declare tokens.simps [simp del]

lemma stat_loop_tokens:
  "stat_loop i s =
    (if i + length (tokens CHR '' '' s) \<le> 52
     then Inr (concat (map2 (\<lambda>name tok. name @ '': '' @ tok @ newline) (drop i stats) (tokens CHR '' '' s)))
     else if i \<le> 52 \<or> tokens CHR '' '' s \<noteq> [] then Inl OutOfBounds else Inr [])"
proof (induction i s rule: stat_loop.induct)
  case (1 i s)
  show ?case
  proof (cases "strtok CHR '' '' s")
    case None
    then show ?thesis by (simp add: stat_loop.simps [of i s] tokens.simps [of _ s])
  next
    case (Some p)
    then obtain tok s' where p: "strtok CHR '' '' s = Some (tok, s')" by (cases p) auto
    show ?thesis
    proof (cases "i < 52")
      case False
      then show ?thesis using p
        by (simp add: stat_loop.simps [of i s] tokens.simps [of _ s] aget_def del: in_bounds_of_nat)
          (simp add: in_bounds_def)
    next
      case True
      have "drop i stats = stats ! i # drop (Suc i) stats" using True by (simp add: Cons_nth_drop_Suc)
      moreover have "aget stats (int i) = Inr (stats ! i)" using True by (simp add: aget_def)
      ultimately show ?thesis using p True "1.IH" [OF p refl]
        by (simp add: stat_loop.simps [of i s] tokens.simps [of _ s])
    qed
  qed
qed

section \<open>Stale links\<close>

text \<open>What is printed when each link is stored over the one before without a terminator.\<close>

fun stale :: "string \<Rightarrow> (string \<times> string) list \<Rightarrow> string" where
  "stale old [] = []"
| "stale old ((name, l) # rest) =
     (let shown = l @ drop (length l) old in name @ '' -> '' @ shown @ newline @ stale shown rest)"

lemma blit_cstr:
  assumes "str = old @ replicate (BUF_SIZE - length old) NUL" "length old < BUF_SIZE" "length l < BUF_SIZE"
  shows "blit str 0 l = (l @ drop (length l) old) @ replicate (BUF_SIZE - length (l @ drop (length l) old)) NUL"
  using assms by (auto simp: blit_def drop_replicate)


lemma fd_loop_stale:
  assumes "length old < BUF_SIZE" "no_nul old"
    and "list_all (\<lambda>(name, l). \<not> dotted name \<and> no_nul l \<and> length l < BUF_SIZE \<and>
        plink pf (take (BUF_SIZE - 1) (fd_path @ ''/'' @ name)) = Some l) es"
  shows "fd_loop pf fd_path (map fst es) (old @ replicate (BUF_SIZE - length old) NUL) = Inr (stale old es)"
  using assms
proof (induction old es rule: stale.induct)
  case (1 old)
  then show ?case by simp
next
  case (2 old name l es)
  define new where "new = l @ drop (length l) old"
  have new: "length new < BUF_SIZE" "no_nul new"
    using "2.prems" by (auto simp: new_def no_nul_def dest: in_set_dropD)
  let ?str = "old @ replicate (BUF_SIZE - length old) NUL"
  have rd: "readlink pf (take (BUF_SIZE - 1) (fd_path @ ''/'' @ name)) ?str = new @ replicate (BUF_SIZE - length new) NUL"
    using "2.prems" blit_cstr [of ?str old l] by (simp add: readlink_def new_def)
  have "new @ replicate (BUF_SIZE - length new) NUL = new @ NUL # replicate (BUF_SIZE - length new - 1) NUL"
    using new(1) by (cases "BUF_SIZE - length new") auto
  then have "cstr (new @ replicate (BUF_SIZE - length new) NUL) = new"
    using new(2) by (simp add: cstr_terminated)
  moreover have "fd_loop pf fd_path (map fst es) (new @ replicate (BUF_SIZE - length new) NUL) = Inr (stale new es)"
    using "2.IH" [of new] new "2.prems" by (simp add: new_def)
  ultimately show ?case using "2.prems" new(1) rd by (simp add: Let_def new_def [symmetric])
qed

section \<open>Sums and pages\<close>

text \<open>Reading back a hexadecimal number.\<close>

lemma hex_char:
  assumes "n < 16"
  shows "hex_value (''0123456789abcdef'' ! n) = Some n"
proof -
  have "list_all (\<lambda>n. hex_value (''0123456789abcdef'' ! n) = Some n) [0..<16]" by code_simp
  with assms show ?thesis by (simp add: list_all_iff)
qed

lemma hex_step_char: "n < 16 \<Longrightarrow> hex_step v (''0123456789abcdef'' ! n) = v * 16 + n"
  by (simp add: hex_step_def hex_char)

lemma hex_digits_scan:
  "(\<forall>c\<in>set (hex_digits n). hex_value c \<noteq> None) \<and> hex_digits n \<noteq> [] \<and> foldl hex_step 0 (hex_digits n) = n"
proof (induction n rule: hex_digits.induct)
  case (1 n)
  show ?case
  proof (cases "n < 16")
    case True
    then show ?thesis by (subst (1 2 3) hex_digits.simps) (simp add: hex_char hex_step_char)
  next
    case False
    with 1 [OF False] show ?thesis
      by (subst (1 2 3) hex_digits.simps) (simp add: hex_char hex_step_char)
  qed
qed

lemma fmt_x_scan:
  "c \<in> set (fmt_x (w :: 64 word)) \<Longrightarrow> hex_value c \<noteq> None" "fmt_x w \<noteq> []"
  "foldl hex_step 0 (fmt_x w) = unat w"
  using hex_digits_scan [of "unat w"] by (auto simp: fmt_x_def)

lemma hex_prefix_all: "hex_prefix (fmt_x (w :: 64 word)) = fmt_x w"
  using fmt_x_scan(1) [of _ w] by (simp add: hex_prefix_def takeWhile_eq_all_conv)

lemma hex_prefix_fmt: "hex_value c = None \<Longrightarrow> hex_prefix (fmt_x (w :: 64 word) @ c # s) = fmt_x w"
  using fmt_x_scan(1) [of _ w] by (simp add: hex_prefix_def takeWhile_append2)

lemma unat_bound: "unat (w :: 64 word) < 2 ^ 64"
  using unsigned_less [of w] by simp

lemma hex_number_all: "hex_number (fmt_x (w :: 64 word)) = w"
  using unat_bound [of w] by (simp add: hex_number_def hex_prefix_all fmt_x_scan)

lemma hex_number_fmt: "hex_value c = None \<Longrightarrow> hex_number (fmt_x (w :: 64 word) @ c # s) = w"
  using unat_bound [of w] by (simp add: hex_number_def hex_prefix_fmt fmt_x_scan)

text \<open>A line the kernel writes for a mapping.\<close>

definition mapping :: "64 word \<times> 64 word \<times> string \<Rightarrow> string" where
  "mapping = (\<lambda>(a, b, tail). fmt_x a @ ''-'' @ fmt_x b @ '' '' @ tail @ newline)"

lemma scan_mapping: "scan_range (mapping (a, b, tail)) addrs = (a, b)"
proof -
  have none: "hex_value CHR ''-'' = None" "hex_value CHR '' '' = None" by (simp_all add: hex_value_def Let_def)
  have ne: "fmt_x (w :: 64 word) \<noteq> []" for w using hex_digits_scan [of "unat w"] by (simp add: fmt_x_def)
  show ?thesis
    using hex_prefix_fmt [OF none(1), of a] hex_prefix_fmt [OF none(2), of b] hex_number_fmt [OF none(1), of a]
      hex_number_fmt [OF none(2), of b]
    by (cases addrs) (simp add: scan_range_def mapping_def ne Let_def)
qed

lemma maps_loop_mappings:
  "maps_loop (map mapping es) addrs bytes =
    (concat (map (\<lambda>(a, b, tail). maps_line (b - a) (mapping (a, b, tail))) es), bytes + sum_list (map (\<lambda>(a, b, _). b - a) es))"
proof (induction es arbitrary: addrs bytes)
  case Nil
  then show ?case by simp
next
  case (Cons e es)
  obtain a b tail where "e = (a, b, tail)" by (cases e)
  with Cons show ?case by (simp add: scan_mapping Let_def)
qed

lemma getlines_Cons: "CHR 0x0A \<notin> set l \<Longrightarrow> getlines (l @ CHR 0x0A # bs) = (l @ [CHR 0x0A]) # getlines bs"
  by (induction l) auto

lemma fmt_x_not:
  "CHR 0x0A \<notin> set (fmt_x (w :: 64 word))" "CHR '' '' \<notin> set (fmt_x w)" "CHR ''-'' \<notin> set (fmt_x w)"
  "NUL \<notin> set (fmt_x w)" "CHR ''x'' \<notin> set (fmt_x w)" "CHR ''X'' \<notin> set (fmt_x w)"
proof -
  have "hex_value c = None \<Longrightarrow> c \<notin> set (fmt_x w)" for c using fmt_x_scan(1) [of c w] by auto
  then show "CHR 0x0A \<notin> set (fmt_x w)" "CHR '' '' \<notin> set (fmt_x w)" "CHR ''-'' \<notin> set (fmt_x w)"
    "NUL \<notin> set (fmt_x w)" "CHR ''x'' \<notin> set (fmt_x w)" "CHR ''X'' \<notin> set (fmt_x w)"
    by (simp_all add: hex_value_def Let_def)
qed

lemma getlines_mappings:
  "list_all (\<lambda>(_, _, tail). CHR 0x0A \<notin> set tail) es \<Longrightarrow> getlines (concat (map mapping es)) = map mapping es"
proof (induction es)
  case Nil
  then show ?case by simp
next
  case (Cons e es)
  obtain a b tail where e: "e = (a, b, tail)" by (cases e)
  have "getlines ((fmt_x a @ ''-'' @ fmt_x b @ '' '' @ tail) @ CHR 0x0A # concat (map mapping es)) =
      ((fmt_x a @ ''-'' @ fmt_x b @ '' '' @ tail) @ [CHR 0x0A]) # getlines (concat (map mapping es))"
    using Cons.prems e by (intro getlines_Cons) (simp add: fmt_x_not)
  with Cons e show ?case by (simp add: mapping_def newline_def)
qed

lemma unat_of_nat_small: "n < 2 ^ 64 \<Longrightarrow> unat (of_nat n :: 64 word) = n"
  by (simp add: unsigned_of_nat take_bit_nat_eq_self)

text \<open>The address of the \<open>j\<close>th page of a range, and the place of its entry.\<close>

abbreviation page_at :: "64 word \<Rightarrow> nat \<Rightarrow> 64 word" where
  "page_at i j \<equiv> i + of_nat (4096 * j)"

definition entries :: "(64 word \<Rightarrow> 64 word option) \<Rightarrow> 64 word \<Rightarrow> nat \<Rightarrow> 64 word list option" where
  "entries pagemap i k = those (map (\<lambda>j. pagemap (page_at i j div 4096 * 8)) [0..<k])"

lemma entries_Suc:
  "entries pagemap i (Suc k) =
    (case pagemap (i div 4096 * 8) of None \<Rightarrow> None | Some d \<Rightarrow> map_option ((#) d) (entries pagemap (i + 4096) k))"
proof -
  have "page_at (i + 4096) j = page_at i (Suc j)" for j by simp
  then show ?thesis
    by (simp add: entries_def upt_conv_Cons comp_def add.assoc del: upt_Suc of_nat_mult flip: map_Suc_upt split: option.split)
qed

definition page_lines :: "64 word \<Rightarrow> 64 word list \<Rightarrow> string" where
  "page_lines i ds = concat (map (\<lambda>j. fprintf_page (page_at i j) (ds ! j)) [0..<length ds])"

lemma page_lines_simps [simp]:
  "page_lines i [] = []"
  "page_lines i (d # ds) = fprintf_page i d @ page_lines (i + 4096) ds"
proof -
  have "page_at (i + 4096) j = page_at i (Suc j)" for j by simp
  then show "page_lines i (d # ds) = fprintf_page i d @ page_lines (i + 4096) ds"
    by (simp add: page_lines_def upt_conv_Cons comp_def add.assoc del: upt_Suc of_nat_mult flip: map_Suc_upt)
qed (simp add: page_lines_def)

lemma page_loop_pages:
  assumes "unat i + 4096 * k < 2 ^ 64"
  shows "page_loop pagemap i (page_at i k) =
    Some (case entries pagemap i k of None \<Rightarrow> Inl Uninit | Some ds \<Rightarrow> Inr (page_lines i ds))"
  using assms
proof (induction k arbitrary: i)
  case 0
  then show ?case by (subst page_loop.simps) (simp add: entries_def)
next
  case (Suc k)
  have u: "unat (of_nat (4096 * Suc k) :: 64 word) = 4096 * Suc k"
    by (rule unat_of_nat_small) (use Suc.prems in simp)
  have e: "unat (page_at i (Suc k)) = unat i + 4096 * Suc k"
    using Suc.prems u by (subst unat_plus_if') simp
  have lt: "i < page_at i (Suc k)" unfolding word_less_nat_alt e by simp
  have i1: "unat (i + 4096) = unat i + 4096"
    using Suc.prems by (subst unat_plus_if') simp
  have eq: "page_at i (Suc k) = page_at (i + 4096) k" by simp
  have "page_loop pagemap (i + 4096) (page_at i (Suc k)) =
    Some (case entries pagemap (i + 4096) k of None \<Rightarrow> Inl Uninit | Some ds \<Rightarrow> Inr (page_lines (i + 4096) ds))"
    unfolding eq by (rule Suc.IH) (use Suc.prems i1 in simp)
  then show ?case
    using lt by (subst page_loop.simps) (simp add: entries_Suc then_print_def del: of_nat_mult split: option.split)
qed

section \<open>Rows of the page map\<close>

lemma span_delimiter:
  "d \<notin> set x \<Longrightarrow> takeWhile (\<lambda>c. c \<noteq> d) (x @ d # s) = x" "d \<notin> set x \<Longrightarrow> dropWhile (\<lambda>c. c \<noteq> d) (x @ d # s) = d # s"
  "d \<notin> set x \<Longrightarrow> takeWhile (\<lambda>c. c \<noteq> d) x = x" "d \<notin> set x \<Longrightarrow> dropWhile (\<lambda>c. c \<noteq> d) x = []"
  by (induction x) auto

lemma strtok_first: "x \<noteq> [] \<Longrightarrow> d \<notin> set x \<Longrightarrow> strtok d (x @ d # s) = Some (x, s)"
  by (cases x) (auto simp: strtok_def Let_def span_delimiter)

lemma strtok_last: "x \<noteq> [] \<Longrightarrow> d \<notin> set x \<Longrightarrow> strtok d x = Some (x, [])"
  by (cases x) (auto simp: strtok_def Let_def span_delimiter)

lemma strtok_Nil [simp]: "strtok d [] = None"
  by (simp add: strtok_def)

lemma strtoul_fmt: "strtoul (fmt_x (w :: 64 word)) = w"
proof -
  obtain c s where f: "fmt_x w = c # s" using fmt_x_scan(2) [of w] by (cases "fmt_x w") auto
  have c: "\<not> isspace c" "c \<noteq> CHR ''-''" "c \<noteq> CHR ''+''"
    using fmt_x_scan(1) [of c w] f by (auto simp: hex_value_def isspace_def Let_def split: if_splits)
  have "set (take 2 (fmt_x w)) \<subseteq> set (fmt_x w)" by (rule set_take_subset)
  then have "take 2 (fmt_x w) \<noteq> ''0x''" "take 2 (fmt_x w) \<noteq> ''0X''"
    using fmt_x_not(5,6) [of w] by auto
  then have "skip_0x (fmt_x w) = fmt_x w" by (simp add: skip_0x_def)
  with c show ?thesis using hex_number_all [of w] by (simp add: strtoul_def f)
qed

lemma row_pages_mapping:
  "row_pages pagemap (fmt_x a @ ''-'' @ fmt_x b @ '' '' @ tail) = page_loop pagemap a b"
proof -
  have "strtok CHR '' '' ((fmt_x a @ ''-'' @ fmt_x b) @ CHR '' '' # tail) = Some (fmt_x a @ ''-'' @ fmt_x b, tail)"
    by (rule strtok_first) (simp_all add: fmt_x_not)
  moreover have "strtok CHR ''-'' (fmt_x a @ CHR ''-'' # fmt_x b) = Some (fmt_x a, fmt_x b)"
    by (rule strtok_first) (simp_all add: fmt_x_not fmt_x_scan)
  moreover have "strtok CHR ''-'' (fmt_x b) = Some (fmt_x b, [])"
    by (rule strtok_last) (simp_all add: fmt_x_not fmt_x_scan)
  ultimately show ?thesis by (simp add: row_pages_def strtoul_fmt)
qed

lemma rows_loop_mapping:
  assumes "CHR 0x0A \<notin> set tail"
  shows "rows_loop pagemap (mapping (a, b, tail) @ s) = after (page_loop pagemap a b) (rows_loop pagemap s)"
proof -
  have "strtok CHR 0x0A ((fmt_x a @ ''-'' @ fmt_x b @ '' '' @ tail) @ CHR 0x0A # s) =
      Some (fmt_x a @ ''-'' @ fmt_x b @ '' '' @ tail, s)"
    using assms by (intro strtok_first) (simp_all add: fmt_x_not)
  then show ?thesis
    using row_pages_mapping [of pagemap a b tail] by (subst rows_loop.simps) (simp add: mapping_def newline_def)
qed

lemma rows_loop_mappings:
  "list_all (\<lambda>(_, _, tail). CHR 0x0A \<notin> set tail) es \<Longrightarrow>
    rows_loop pagemap (concat (map mapping es)) =
    foldr (\<lambda>(a, b, _). after (page_loop pagemap a b)) es (Some (Inr []))"
proof (induction es)
  case Nil
  then show ?case by (simp add: rows_loop.simps)
next
  case (Cons e es)
  obtain a b tail where "e = (a, b, tail)" by (cases e)
  with Cons show ?case by (simp add: rows_loop_mapping)
qed

lemma nul_to_newline_id: "no_nul s \<Longrightarrow> map nul_to_newline s = s"
  by (induction s) (auto simp: no_nul_def nul_to_newline_def)

text \<open>A file that fits into one block.\<close>

lemma map_blocks_one:
  assumes "no_nul bs" "length bs \<le> BUF_SIZE"
  shows "map_blocks pagemap bs = (if bs = [] then Some (Inr []) else after (rows_loop pagemap bs) (Some (Inr [])))"
  using assms
  by (subst map_blocks.simps) (auto simp: Let_def cstr_terminated nul_to_newline_id map_blocks.simps [of _ "[]"])

lemma after_printed [simp]: "after (Some (Inr s)) (Some (Inr t)) = Some (Inr (s @ t))"
  by (simp add: after_def then_print_def)

lemma no_nul_mapping: "no_nul tail \<Longrightarrow> no_nul (mapping (a, b, tail))"
  by (auto simp: no_nul_def mapping_def newline_def fmt_x_not)

lemma no_nul_mappings: "list_all (\<lambda>(_, _, tail). no_nul tail) es \<Longrightarrow> no_nul (concat (map mapping es))"
  using no_nul_mapping by (fastforce simp: no_nul_def list_all_iff)

section \<open>Properties\<close>

text \<open>
  The environment of a process is printed in full however long it is, with each NUL byte
  replaced by a newline: the reading in blocks of 4096 bytes does not show.
\<close>

theorem environ_in_full:
  "fprintf_environ pf proc =
    (case pfile pf (proc_path proc ''environ'') of None \<Rightarrow> Inl NullDeref
     | Some bs \<Rightarrow> Inr (''ENVIRON'' @ newline @ map (\<lambda>b. if b = NUL then CHR 0x0A else b) bs))"
  by (simp add: fprintf_environ_def block_loop_all nul_to_newline_def [abs_def] split: option.split)

text \<open>
  The status line is printed with a name for each of its fields if it has at most 52 of them;
  with more, which one space in the name of the program is enough for, the program reads past
  the end of its table of names.
\<close>

theorem stat_fields:
  "fprintf_stat pf proc =
    (case pfile pf (proc_path proc ''stat'') of None \<Rightarrow> Inl NullDeref
     | Some bs \<Rightarrow>
       if length (tokens CHR '' '' (first_block bs)) \<le> 52
       then Inr (''==========='' @ newline @ ''STAT'' @ newline @
         concat (map2 (\<lambda>name tok. name @ '': '' @ tok @ newline) stats (tokens CHR '' '' (first_block bs))))
       else Inl OutOfBounds)"
  by (simp add: fprintf_stat_def stat_loop_tokens split: option.split)

text \<open>
  The open files of a process: since \<^verbatim>\<open>readlink\<close> stores no terminator and the buffer is used
  for all links, a link is followed by the end of what was shown before it if that was longer.
\<close>

theorem fd_links_stale:
  assumes "pdir pf (proc_path proc ''fd'') = Some (map fst es)"
    and "list_all (\<lambda>(name, l). \<not> dotted name \<and> no_nul l \<and> length l < BUF_SIZE \<and>
        plink pf (take (BUF_SIZE - 1) (proc_path proc ''fd'' @ ''/'' @ name)) = Some l) es"
  shows "fprintf_fd pf proc = Inr (''FD'' @ newline @ stale [] es)"
  using fd_loop_stale [OF _ _ assms(2), of "[]"] assms(1)
  by (simp add: fprintf_fd_def Let_def BUF_SIZE_def no_nul_def)

abbreviation sample_fs :: procfs where
  "sample_fs \<equiv> \<lparr>pfile = (\<lambda>_. None),
     plink = (\<lambda>p. if p = ''/proc/7/fd/0'' then Some ''/dev/pts/0'' else if p = ''/proc/7/fd/1'' then Some ''/x'' else None),
     pdir = (\<lambda>p. if p = ''/proc/7/fd'' then Some [''0'', ''1''] else None)\<rparr>"

theorem fd_links_stale_witness:
  "fprintf_fd sample_fs ''7'' =
    Inr (''FD'' @ newline @ ''0 -> /dev/pts/0'' @ newline @ ''1 -> /xev/pts/0'' @ newline)"
proof -
  have "proc_path ''7'' ''fd'' = ''/proc/7/fd''" by (simp add: proc_path_def PATH_MAX_LEN_def)
  then show ?thesis
    using fd_links_stale [of sample_fs "''7''" "[(''0'', ''/dev/pts/0''), (''1'', ''/x'')]"]
    by (simp add: dotted_def no_nul_def BUF_SIZE_def)
qed

abbreviation no_newline :: "string \<Rightarrow> bool" where
  "no_newline tail \<equiv> CHR 0x0A \<notin> set tail"

text \<open>
  On a list of mappings as the kernel writes it, every line is printed with the size of its
  range in bytes and pages in front, and the totals printed at the end are those of the sum of
  the sizes.
\<close>

theorem maps_totals:
  assumes "pfile pf (proc_path proc ''maps'') = Some (concat (map mapping es))"
    and "list_all (\<lambda>(_, _, tail). no_newline tail \<and> no_nul tail) es"
  shows "fprintf_maps start pf proc = Inr (''MAPS'' @ newline @
     ''bytes     pages   addr                      perms  offset  dev   inode                     pathname'' @ newline @
     concat (map (\<lambda>(a, b, tail). pad 8 (fmt_d (sint (b - a))) @ ''   '' @ pad 4 (fmt_d (c_div (sint (b - a)) 4096)) @
       ''   '' @ mapping (a, b, tail)) es) @
     ''Size bytes: '' @ fmt_d (sint (sum_list (map (\<lambda>(a, b, _). b - a) es))) @ newline @
     ''Size pages: '' @ fmt_d (c_div (sint (sum_list (map (\<lambda>(a, b, _). b - a) es))) 4096) @ newline)"
proof -
  have nl: "list_all (\<lambda>(_, _, tail). no_newline tail) es" and nul: "list_all (\<lambda>(_, _, tail). no_nul tail) es"
    using assms(2) by (auto simp: list_all_iff)
  have "map (\<lambda>(a, b, tail). maps_line (b - a) (mapping (a, b, tail))) es =
      map (\<lambda>(a, b, tail). pad 8 (fmt_d (sint (b - a))) @ ''   '' @ pad 4 (fmt_d (c_div (sint (b - a)) 4096)) @
       ''   '' @ mapping (a, b, tail)) es"
    using nul by (auto simp: maps_line_def list_all_iff cstr_id no_nul_mapping)
  then show ?thesis
    unfolding fprintf_maps_def assms(1) option.case getlines_mappings [OF nl] maps_loop_mappings split_conv add_0_left
    by (rule arg_cong [where f = "\<lambda>ls. Inr (_ @ _ @ _ @ _ @ concat ls @ _)"])
qed

theorem maps_totals_witness:
  "fprintf_maps (0, 0) (sample_fs\<lparr>pfile := (\<lambda>_. Some (mapping (0x1000, 0x3000, ''r--p'')))\<rparr>) ''7'' =
    Inr (''MAPS'' @ newline @
     ''bytes     pages   addr                      perms  offset  dev   inode                     pathname'' @ newline @
     ''    8192'' @ ''   '' @ ''   2'' @ ''   '' @ mapping (0x1000, 0x3000, ''r--p'') @
     ''Size bytes: '' @ ''8192'' @ newline @ ''Size pages: '' @ ''2'' @ newline)"
proof -
  let ?pf = "sample_fs\<lparr>pfile := (\<lambda>_. Some (mapping (0x1000, 0x3000, ''r--p'')))\<rparr>"
  have read: "pfile ?pf (proc_path ''7'' ''maps'') = Some (concat (map mapping [(0x1000, 0x3000, ''r--p'')]))"
    by (simp only: procfs.simps list.map concat.simps append_Nil2)
  have tail: "list_all (\<lambda>(_, _, tail). no_newline tail \<and> no_nul tail) [(0x1000 :: 64 word, 0x3000 :: 64 word, ''r--p'')]"
    by (simp add: no_nul_def)
  have sizes: "(0x3000 :: 64 word) - 0x1000 = 0x2000" "sint (0x2000 :: 64 word) = 8192" "c_div 8192 4096 = 2"
    by (simp_all add: c_div_def)
  have fmt: "fmt_d 8192 = ''8192''" "fmt_d 2 = ''2''" by (simp_all add: fmt_d_def digits.simps)
  have pad: "pad 8 ''8192'' = ''    8192''" "pad 4 ''2'' = ''   2''"
    by (simp_all add: pad_def numeral_eq_Suc)
  show ?thesis
    using maps_totals [OF read tail, of "(0, 0)"]
    by (simp only: list.map concat.simps append_Nil2 split_conv sizes fmt pad sum_list_simps add_0_right append_assoc)
qed



end
