(* ===== verification/Char_Buffers.thy ===== *)
theory Char_Buffers
  imports Prelude
begin

text \<open>
  Fixed character buffers, as the socket programs use them: \<^verbatim>\<open>sprintf\<close> and \<^verbatim>\<open>strcpy\<close> into a
  buffer, \<^verbatim>\<open>read\<close> and \<^verbatim>\<open>recv\<close> into a buffer, and \<^verbatim>\<open>%s\<close> of a buffer. A buffer keeps its length, and
  the bytes nothing was stored in are an argument of the programs.
\<close>

definition sprintf_buf :: "char list \<Rightarrow> string \<Rightarrow> fault + char list" where
  "sprintf_buf buf s = (if length s < length buf then Inr (blit buf 0 (s @ [NUL])) else Inl OutOfBounds)"

definition recv_buf :: "char list \<Rightarrow> char list \<Rightarrow> char list" where
  "recv_buf buf bs = blit buf 0 (take (length buf) bs)"

definition c_string :: "char list \<Rightarrow> fault + string" where
  "c_string buf = (if NUL \<in> set buf then Inr (cstr buf) else Inl OutOfBounds)"

named_theorems buf_simps \<open>buffers after a write\<close>

lemma cstr_append: "cstr (xs @ ys) = (if no_nul xs then xs @ cstr ys else cstr xs)"
  by (induction xs) (auto simp: cstr_def no_nul_def)

lemma cstr_Nil [simp]: "cstr [] = []"
  by (simp add: cstr_def)

lemma cstr_NUL [simp]: "cstr (NUL # xs) = []"
  by (simp add: cstr_def)

text \<open>A string and its terminator, whatever follows in the buffer.\<close>

lemma blit_string [buf_simps]: "blit buf 0 (s @ [NUL]) = s @ NUL # drop (length s + 1) buf"
  by (simp add: blit_def)

lemma sprintf_buf_fits [buf_simps]:
  "length s < length buf \<Longrightarrow> sprintf_buf buf s = Inr (s @ NUL # drop (length s + 1) buf)"
  by (simp add: sprintf_buf_def blit_string)

lemma length_recv_buf [simp]: "length (recv_buf buf bs) = length buf"
  by (simp add: recv_buf_def)

lemma recv_buf_fits [buf_simps]: "length bs \<le> length buf \<Longrightarrow> recv_buf buf bs = bs @ drop (length bs) buf"
  by (simp add: recv_buf_def blit_def)

lemma c_string_terminated [buf_simps]: "no_nul s \<Longrightarrow> c_string (s @ NUL # rest) = Inr s"
  by (simp add: c_string_def cstr_terminated)

lemma c_string_append [buf_simps]:
  "c_string (m @ NUL # rest) = Inr (cstr m)"
  by (auto simp: c_string_def cstr_append cstr_id)

text \<open>A message followed by what an older and longer one left in the buffer.\<close>

lemma c_string_stale: "NUL \<in> set rest \<Longrightarrow> c_string (m @ rest) = Inr (cstr (m @ rest))"
  by (simp add: c_string_def)

text \<open>Terminating the bytes that were received.\<close>

lemma aput_terminate [buf_simps]:
  "length bs < length buf \<Longrightarrow>
    aput (recv_buf buf bs) (int (length bs)) NUL = Inr (bs @ NUL # drop (Suc (length bs)) buf)"
  by (simp add: aput_def recv_buf_fits list_update_append Cons_nth_drop_Suc [symmetric])

lemma aput_terminate_full [buf_simps]:
  "length buf \<le> length bs \<Longrightarrow> aput (recv_buf buf bs) (int (length (take (length buf) bs))) NUL = Inl OutOfBounds"
  by (simp add: aput_def)

section \<open>Process ids\<close>

lemma length_fmt_d: "0 \<le> p \<Longrightarrow> p < 10 ^ k \<Longrightarrow> 0 < k \<Longrightarrow> length (fmt_d p) \<le> k"
  by (simp add: fmt_d_def length_digits nat_less_iff)

lemma pid_length: "0 \<le> p \<Longrightarrow> p < 2 ^ 31 \<Longrightarrow> length (fmt_d p) \<le> 10"
  using length_fmt_d [of p 10] by simp

lemma fmt_d_no_nul [cstr_simps, simp]: "no_nul (fmt_d p)"
  using digits_no_nul by (simp add: fmt_d_def no_nul_def)

lemma length_digits_ge: "10 ^ k \<le> n \<Longrightarrow> k < length (digits n)"
proof (induction k arbitrary: n)
  case 0
  then show ?case using digits_not_Nil [of n] by simp
next
  case (Suc k)
  have "10 ^ k \<le> n div 10" using div_le_mono [OF Suc.prems, of 10] by simp
  moreover have "\<not> n < 10"
  proof
    assume "n < 10"
    then have "n div 10 = 0" by simp
    with \<open>10 ^ k \<le> n div 10\<close> show False by simp
  qed
  ultimately show ?case using Suc.IH [of "n div 10"] by (subst digits.simps) simp
qed

lemma length_fmt_d_iff: "0 \<le> p \<Longrightarrow> 0 < k \<Longrightarrow> length (fmt_d p) \<le> k \<longleftrightarrow> p < 10 ^ k"
proof -
  assume p: "0 \<le> p" "0 < k"
  have "10 ^ k \<le> nat p" if "\<not> p < 10 ^ k" using that p by (simp add: nat_le_iff le_nat_iff)
  with p length_digits_ge [of k "nat p"] length_fmt_d [of p k] show ?thesis
    by (cases "p < 10 ^ k") (auto simp: fmt_d_def)
qed

section \<open>Socket addresses\<close>

text \<open>\<^verbatim>\<open>struct sockaddr\<close> has 14 bytes for the name; they are zero before it is stored.\<close>

definition sa_data :: "char list" where "sa_data = replicate 14 NUL"

lemma length_sa_data [simp]: "length sa_data = 14"
  by (simp add: sa_data_def)

end
