(* ===== verification/Print_Server.thy ===== *)
theory Print_Server
  imports Char_Buffers
begin

text \<open>
  The datagram server that prints what it receives and its client,
  \<^verbatim>\<open>2/client-sever/socket(send-receive)/sever.c\<close> and \<^verbatim>\<open>client.c\<close>. The name of a bound socket is a file,
  and \<^verbatim>\<open>bind\<close> fails on a name that exists. What each call of \<^verbatim>\<open>read\<close> returns, and when the interrupt
  signal arrives, is the list of events the server is run on.
\<close>

section \<open>The server\<close>

definition SOCK_NAME :: string where "SOCK_NAME = ''socket.socket''"
definition BUFFER_SIZE :: nat where "BUFFER_SIZE = 64"

record print_server =
  psbuf :: "char list"
  psout :: string
  psfiles :: "string set"

datatype event =
    Received "char list"  \<comment> \<open>a datagram, before \<^verbatim>\<open>read\<close> cuts it to the buffer\<close>
  | Failed                \<comment> \<open>\<^verbatim>\<open>read\<close> returns -1\<close>
  | Sigint

definition log_str :: "string \<Rightarrow> print_server \<Rightarrow> print_server" where
  "log_str msg s = s\<lparr>psout := psout s @ msg @ newline\<rparr>"

definition sigint_handler :: "print_server \<Rightarrow> print_server \<times> fault option" where
  "sigint_handler s =
     (log_str ''Server shutdown...'' (s\<lparr>psfiles := psfiles s - {SOCK_NAME}\<rparr>), Some (Exit 0))"

definition print_step :: "event \<Rightarrow> print_server \<Rightarrow> print_server \<times> fault option" where
  "print_step e s =
     (case e of
        Sigint \<Rightarrow> sigint_handler s
      | Failed \<Rightarrow> (s, Some (Exit 1))
      | Received bs \<Rightarrow>
        (let bytes_read = length (take BUFFER_SIZE bs); buf = recv_buf (psbuf s) bs in
         case aput buf (int bytes_read) NUL of
           Inl f \<Rightarrow> (s\<lparr>psbuf := buf\<rparr>, Some f)
         | Inr buf \<Rightarrow>
           (case c_string buf of
              Inl f \<Rightarrow> (s\<lparr>psbuf := buf\<rparr>, Some f)
            | Inr msg \<Rightarrow> (log_str (''read: '' @ msg) (s\<lparr>psbuf := buf\<rparr>), None))))"

text \<open>The loop: what the server has done after a list of events, \<open>None\<close> if it waits for another.\<close>

fun print_loop :: "event list \<Rightarrow> print_server \<Rightarrow> print_server \<times> fault option" where
  "print_loop [] s = (s, None)"
| "print_loop (e # es) s =
     (case print_step e s of (s, Some f) \<Rightarrow> (s, Some f) | (s, None) \<Rightarrow> print_loop es s)"

text \<open>\<open>socket_ok\<close> and \<open>signal_ok\<close> tell whether these calls succeed.\<close>

definition print_main :: "bool \<Rightarrow> bool \<Rightarrow> event list \<Rightarrow> print_server \<Rightarrow> print_server \<times> fault option" where
  "print_main socket_ok signal_ok es s =
     (if \<not> socket_ok then (s, Some (Exit 1))
      else case sprintf_buf sa_data SOCK_NAME of
        Inl f \<Rightarrow> (s, Some f)
      | Inr name \<Rightarrow>
        if cstr name \<in> psfiles s then (s, Some (Exit 1))
        else let s = s\<lparr>psfiles := insert (cstr name) (psfiles s)\<rparr> in
          if \<not> signal_ok then (s, Some (Exit 1)) else print_loop es s)"

section \<open>The client\<close>

text \<open>What the client prints, the datagram it sends if it gets so far, and how it ends.\<close>

record print_client =
  pcout :: string
  pcsent :: "char list option"
  pcend :: fault

definition print_client_main :: "bool \<Rightarrow> bool \<Rightarrow> char list \<Rightarrow> int \<Rightarrow> print_client" where
  "print_client_main socket_ok send_ok junk pid =
     (if \<not> socket_ok then \<lparr>pcout = [], pcsent = None, pcend = Exit 1\<rparr>
      else case sprintf_buf sa_data SOCK_NAME of
        Inl f \<Rightarrow> \<lparr>pcout = [], pcsent = None, pcend = f\<rparr>
      | Inr _ \<Rightarrow>
        (case sprintf_buf junk (fmt_d pid) of
           Inl f \<Rightarrow> \<lparr>pcout = [], pcsent = None, pcend = f\<rparr>
         | Inr buf \<Rightarrow>
           \<lparr>pcout = ''send: '' @ cstr buf @ newline,
            pcsent = (if send_ok then Some (take (length (cstr buf) + 1) buf) else None),
            pcend = Exit (if send_ok then 0 else 1)\<rparr>))"

section \<open>The loop on messages that fit\<close>

abbreviation fits :: "char list \<Rightarrow> bool" where
  "fits m \<equiv> length m < BUFFER_SIZE"

lemma print_step_fits:
  assumes "fits m" "length (psbuf s) = BUFFER_SIZE"
  shows "print_step (Received m) s =
    (log_str (''read: '' @ cstr m) (s\<lparr>psbuf := m @ NUL # drop (Suc (length m)) (psbuf s)\<rparr>), None)"
  using assms aput_terminate [of m "psbuf s"]
  by (simp add: print_step_def Let_def c_string_append)

lemma print_step_full:
  assumes "\<not> fits m" "length (psbuf s) = BUFFER_SIZE"
  shows "print_step (Received m) s = (s\<lparr>psbuf := take BUFFER_SIZE m\<rparr>, Some OutOfBounds)"
  using assms aput_terminate_full [of "psbuf s" m]
  by (simp add: print_step_def Let_def min_def recv_buf_def blit_def)

lemma print_loop_append:
  "print_loop (es @ es') s =
    (case print_loop es s of (t, Some f) \<Rightarrow> (t, Some f) | (t, None) \<Rightarrow> print_loop es' t)"
  by (induction es arbitrary: s) (auto split: prod.split option.split)

text \<open>After messages that fit: all are printed, the buffer keeps its size and no file changes.\<close>

lemma print_loop_fits:
  assumes "list_all fits ms" "length (psbuf s) = BUFFER_SIZE"
  shows "\<exists>buf. length buf = BUFFER_SIZE \<and>
    print_loop (map Received ms) s =
      (s\<lparr>psbuf := buf, psout := psout s @ concat (map (\<lambda>m. ''read: '' @ cstr m @ newline) ms)\<rparr>, None)"
  using assms
proof (induction ms arbitrary: s)
  case Nil
  then show ?case by (intro exI [of _ "psbuf s"]) simp
next
  case (Cons m ms)
  let ?t = "log_str (''read: '' @ cstr m) (s\<lparr>psbuf := m @ NUL # drop (Suc (length m)) (psbuf s)\<rparr>)"
  have "length (psbuf ?t) = BUFFER_SIZE" using Cons.prems by (simp add: log_str_def)
  with Cons.IH [of ?t] Cons.prems show ?case by (auto simp: print_step_fits log_str_def)
qed

lemma print_loop_then:
  assumes "list_all fits ms" "length (psbuf s) = BUFFER_SIZE"
  obtains buf where "length buf = BUFFER_SIZE"
    and "\<And>es. print_loop (map Received ms @ es) s = print_loop es
      (s\<lparr>psbuf := buf, psout := psout s @ concat (map (\<lambda>m. ''read: '' @ cstr m @ newline) ms)\<rparr>)"
  using print_loop_fits [OF assms] by (auto simp: print_loop_append)

lemma sock_name_fits: "sprintf_buf sa_data SOCK_NAME = Inr (SOCK_NAME @ [NUL])" "cstr (SOCK_NAME @ [NUL]) = SOCK_NAME"
  by (simp_all add: sprintf_buf_def blit_def SOCK_NAME_def sa_data_def cstr_def)

lemma print_main_serves:
  assumes "SOCK_NAME \<notin> psfiles s"
  shows "print_main True True es s = print_loop es (s\<lparr>psfiles := insert SOCK_NAME (psfiles s)\<rparr>)"
  using assms by (simp add: print_main_def sock_name_fits Let_def)

text \<open>What the client of a process id sends.\<close>

lemma print_client_sends:
  assumes "0 \<le> pid" "pid < 2 ^ 31" "length junk = BUFFER_SIZE"
  shows "print_client_main True True junk pid =
    \<lparr>pcout = ''send: '' @ fmt_d pid @ newline, pcsent = Some (fmt_d pid @ [NUL]), pcend = Exit 0\<rparr>"
  using assms pid_length [of pid]
  by (simp add: print_client_main_def sock_name_fits buf_simps BUFFER_SIZE_def cstr_terminated)

section \<open>Properties\<close>

text \<open>
  C36: A server started where its name is free prints the process id of every client that sends
  one, in the order of the datagrams, until it is interrupted; it then ends normally and leaves
  the files as they were.
\<close>

theorem print_server_lists_clients:
  assumes "SOCK_NAME \<notin> psfiles s" "length (psbuf s) = BUFFER_SIZE" "length junk = BUFFER_SIZE"
    and "list_all (\<lambda>pid. 0 \<le> pid \<and> pid < 2 ^ 31) pids"
  shows "\<exists>t. print_main True True (map (\<lambda>pid. Received (the (pcsent (print_client_main True True junk pid)))) pids @ [Sigint]) s
        = (t, Some (Exit 0)) \<and>
      psout t = psout s @ concat (map (\<lambda>pid. ''read: '' @ fmt_d pid @ newline) pids) @ ''Server shutdown...'' @ newline \<and>
      psfiles t = psfiles s"
proof -
  let ?ms = "map (\<lambda>pid. fmt_d pid @ [NUL]) pids"
  have sent: "map (\<lambda>pid. Received (the (pcsent (print_client_main True True junk pid)))) pids = map Received ?ms"
    using assms(3,4) by (simp add: list_all_iff print_client_sends)
  have short: "list_all fits ?ms"
    using assms(4) pid_length by (fastforce simp: list_all_iff BUFFER_SIZE_def)
  let ?s = "s\<lparr>psfiles := insert SOCK_NAME (psfiles s)\<rparr>"
  from assms(2) have "length (psbuf ?s) = BUFFER_SIZE" by simp
  from print_loop_then [OF short this] obtain buf where
    "\<And>es. print_loop (map Received ?ms @ es) ?s = print_loop es
      (?s\<lparr>psbuf := buf, psout := psout ?s @ concat (map (\<lambda>m. ''read: '' @ cstr m @ newline) ?ms)\<rparr>)" by metis
  then show ?thesis
    using assms(1) unfolding sent print_main_serves [OF assms(1)]
    by (simp add: print_step_def sigint_handler_def log_str_def comp_def cstr_terminated)
qed

theorem print_server_lists_clients_witness:
  "\<exists>t. print_main True True (map (\<lambda>pid. Received (the (pcsent (print_client_main True True (replicate 64 NUL) pid)))) [7, 12] @ [Sigint])
      \<lparr>psbuf = replicate 64 NUL, psout = [], psfiles = {}\<rparr> = (t, Some (Exit 0)) \<and>
    psout t = ''read: '' @ ''7'' @ newline @ ''read: '' @ ''12'' @ newline @ ''Server shutdown...'' @ newline \<and> psfiles t = {}"
proof -
  have "fmt_d 7 = ''7''" "fmt_d 12 = ''12''" by (simp_all add: fmt_d_def digits.simps)
  then show ?thesis
    using print_server_lists_clients [of "\<lparr>psbuf = replicate 64 NUL, psout = [], psfiles = {}\<rparr>" "replicate 64 NUL" "[7, 12]"]
    by (simp add: BUFFER_SIZE_def)
qed

text \<open>
  A datagram of 64 bytes or more, whose terminator does not fit, and a failing \<^verbatim>\<open>read\<close> end the
  server without removing its socket file: no later run of the server gets past \<^verbatim>\<open>bind\<close>.
\<close>

theorem print_server_leaves_file:
  assumes "SOCK_NAME \<notin> psfiles s" "length (psbuf s) = BUFFER_SIZE" "list_all fits ms"
    and "e = Failed \<and> f = Exit 1 \<or> (\<exists>m. e = Received m \<and> 64 \<le> length m \<and> f = OutOfBounds)"
  shows "\<exists>t. print_main True True (map Received ms @ e # es) s = (t, Some f) \<and>
      print_main socket_ok signal_ok es' t = (t, Some (Exit 1))"
proof -
  let ?s = "s\<lparr>psfiles := insert SOCK_NAME (psfiles s)\<rparr>"
  from assms(2) have "length (psbuf ?s) = BUFFER_SIZE" by simp
  from print_loop_then [OF assms(3) this] obtain buf where buf: "length buf = BUFFER_SIZE"
    and loop: "\<And>es. print_loop (map Received ms @ es) ?s = print_loop es
      (?s\<lparr>psbuf := buf, psout := psout ?s @ concat (map (\<lambda>m. ''read: '' @ cstr m @ newline) ms)\<rparr>)" by metis
  have again: "print_main socket_ok signal_ok es' t = (t, Some (Exit 1))" if "SOCK_NAME \<in> psfiles t" for t
    using that by (simp add: print_main_def sock_name_fits)
  have full: "print_step (Received m) t = (t\<lparr>psbuf := take BUFFER_SIZE m\<rparr>, Some OutOfBounds)"
    if "64 \<le> length m" "length (psbuf t) = BUFFER_SIZE" for m t
    using that print_step_full [of m t] by (simp add: BUFFER_SIZE_def)
  show ?thesis
    unfolding print_main_serves [OF assms(1)] loop
    using assms(4) buf by (auto simp: again full) (simp_all add: print_step_def again)
qed

theorem print_server_leaves_file_witness:
  "\<exists>t. print_main True True (map Received [''7''] @ Received (replicate 64 CHR ''a'') # [])
      \<lparr>psbuf = replicate 64 NUL, psout = [], psfiles = {}\<rparr> = (t, Some OutOfBounds) \<and>
    print_main True True [Sigint] t = (t, Some (Exit 1))"
  by (rule print_server_leaves_file) (simp_all add: BUFFER_SIZE_def)

end
