(* ===== verification/Respond_Server.thy ===== *)
theory Respond_Server
  imports Char_Buffers
begin

text \<open>
  The datagram server that answers and its client,
  \<^verbatim>\<open>2/client-sever/socket(send-receive-respond)/server.c\<close> and \<^verbatim>\<open>client.c\<close>. A datagram comes with the
  address of its sender; as documented, \<^verbatim>\<open>recvfrom\<close> stores no more of it than \<^verbatim>\<open>addrlen\<close> bytes and
  then sets \<^verbatim>\<open>addrlen\<close> to the length of the address. The calls of \<^verbatim>\<open>sendto\<close> are recorded; the server
  does not care whether they succeed.
\<close>

section \<open>The server\<close>

definition SOCKET :: string where "SOCKET = ''server.srv''"
definition RESPOND_BUFFER :: nat where "RESPOND_BUFFER = 64"

record respond_server =
  rbuf :: "char list"
  rcopy :: "char list"
  raddr :: "char list"   \<comment> \<open>the 16 bytes of \<^verbatim>\<open>client_addr\<close>\<close>
  raddrlen :: nat
  rout :: string
  rsent :: "(char list \<times> char list) list"
  rfiles :: "string set"

datatype respond_event =
    Datagram "char list" "char list"  \<comment> \<open>the sender's address and the data\<close>
  | Recv_Failed
  | Interrupt

text \<open>\<^verbatim>\<open>"%d --> %s\n"\<close>\<close>

definition reply_text :: "int \<Rightarrow> string \<Rightarrow> string" where
  "reply_text pid msg = fmt_d pid @ '' --> '' @ msg @ newline"

definition respond_print :: "string \<Rightarrow> respond_server \<Rightarrow> respond_server" where
  "respond_print msg s = s\<lparr>rout := rout s @ msg @ newline\<rparr>"

definition respond_sigint :: "respond_server \<Rightarrow> respond_server \<times> fault option" where
  "respond_sigint s = (s\<lparr>rfiles := rfiles s - {SOCKET}\<rparr>, Some (Exit 0))"

definition recvfrom :: "char list \<Rightarrow> char list \<Rightarrow> respond_server \<Rightarrow> respond_server" where
  "recvfrom addr bs s =
     s\<lparr>rbuf := recv_buf (rbuf s) bs, raddr := blit (raddr s) 0 (take (raddrlen s) addr), raddrlen := length addr\<rparr>"

definition sendto :: "respond_server \<Rightarrow> respond_server \<times> fault option" where
  "sendto s =
     (if length (raddr s) < raddrlen s then (s, Some OutOfBounds)
      else (s\<lparr>rsent := rsent s @ [(take (raddrlen s) (raddr s), take (length (cstr (rcopy s)) + 1) (rcopy s))]\<rparr>, None))"

text \<open>What the loop does once \<^verbatim>\<open>recvfrom\<close> has returned \<open>bytes_read\<close>.\<close>

definition respond_reply :: "int \<Rightarrow> int \<Rightarrow> respond_server \<Rightarrow> respond_server \<times> fault option" where
  "respond_reply pid bytes_read s =
     (case c_string (rbuf s) of
        Inl f \<Rightarrow> (s, Some f)
      | Inr shown \<Rightarrow>
        (let s = respond_print (''recv: '' @ shown) s in
         case aput (rbuf s) bytes_read NUL of
           Inl f \<Rightarrow> (s, Some f)
         | Inr buf \<Rightarrow>
           (let s = s\<lparr>rbuf := buf\<rparr> in
            case c_string buf of
              Inl f \<Rightarrow> (s, Some f)
            | Inr msg \<Rightarrow>
              (case sprintf_buf (rcopy s) (reply_text pid msg) of
                 Inl f \<Rightarrow> (s, Some f)
               | Inr copy \<Rightarrow>
                 sendto (respond_print (''send: '' @ cstr copy) (s\<lparr>rcopy := copy\<rparr>))))))"

definition respond_step :: "int \<Rightarrow> respond_event \<Rightarrow> respond_server \<Rightarrow> respond_server \<times> fault option" where
  "respond_step pid e s =
     (case e of
        Interrupt \<Rightarrow> respond_sigint s
      | Recv_Failed \<Rightarrow> respond_reply pid (- 1) s
      | Datagram addr bs \<Rightarrow> respond_reply pid (int (length (take RESPOND_BUFFER bs))) (recvfrom addr bs s))"

fun respond_loop :: "int \<Rightarrow> respond_event list \<Rightarrow> respond_server \<Rightarrow> respond_server \<times> fault option" where
  "respond_loop pid [] s = (s, None)"
| "respond_loop pid (e # es) s =
     (case respond_step pid e s of (s, Some f) \<Rightarrow> (s, Some f) | (s, None) \<Rightarrow> respond_loop pid es s)"

text \<open>\<open>addr_junk\<close> is what the 14 bytes of the name hold before it is stored.\<close>

definition respond_main :: "bool \<Rightarrow> bool \<Rightarrow> char list \<Rightarrow> int \<Rightarrow> respond_event list \<Rightarrow> respond_server \<Rightarrow> respond_server \<times> fault option" where
  "respond_main socket_ok signal_ok addr_junk pid es s =
     (if \<not> socket_ok then (s, Some (Exit 1))
      else case sprintf_buf addr_junk SOCKET of
        Inl f \<Rightarrow> (s, Some f)
      | Inr name \<Rightarrow>
        if cstr name \<in> rfiles s then (s, Some (Exit 1))
        else let s = s\<lparr>rfiles := insert (cstr name) (rfiles s), raddrlen := length (raddr s)\<rparr> in
          if \<not> signal_ok then (s, Some (Exit 1)) else respond_loop pid es s)"

section \<open>The client\<close>

record respond_client =
  rcout :: string
  rcsent :: "char list option"
  rcfiles :: "string set"
  rcend :: fault

text \<open>\<open>reply\<close> is what \<^verbatim>\<open>read\<close> returns, \<open>None\<close> if it fails.\<close>

definition respond_client_main ::
  "bool \<Rightarrow> bool \<Rightarrow> char list option \<Rightarrow> char list \<Rightarrow> int \<Rightarrow> string set \<Rightarrow> respond_client" where
  "respond_client_main socket_ok send_ok reply junk pid files =
     (let stop = (\<lambda>f. \<lparr>rcout = [], rcsent = None, rcfiles = files, rcend = f\<rparr>) in
      if \<not> socket_ok then stop (Exit 1)
      else case sprintf_buf sa_data SOCKET of
        Inl f \<Rightarrow> stop f
      | Inr _ \<Rightarrow>
        (case sprintf_buf sa_data (fmt_d pid @ ''.socket'') of
           Inl f \<Rightarrow> stop f
         | Inr sockaddr \<Rightarrow>
           if cstr sockaddr \<in> files then stop (Exit 1)
           else let bound = insert (cstr sockaddr) files in
             case sprintf_buf junk (fmt_d pid) of
               Inl f \<Rightarrow> \<lparr>rcout = [], rcsent = None, rcfiles = bound, rcend = f\<rparr>
             | Inr buf \<Rightarrow>
               if \<not> send_ok then \<lparr>rcout = [], rcsent = None, rcfiles = bound, rcend = Exit 1\<rparr>
               else let sent = Some (take (length (cstr buf)) buf); out = ''send: '' @ cstr buf @ newline in
                 case reply of
                   None \<Rightarrow> \<lparr>rcout = out, rcsent = sent, rcfiles = bound, rcend = Exit 1\<rparr>
                 | Some bs \<Rightarrow>
                   (case aput (recv_buf buf bs) (int (length (take RESPOND_BUFFER bs))) NUL of
                      Inl f \<Rightarrow> \<lparr>rcout = out, rcsent = sent, rcfiles = bound, rcend = f\<rparr>
                    | Inr buf \<Rightarrow>
                      \<lparr>rcout = out @ ''read from: '' @ cstr buf @ newline, rcsent = sent,
                       rcfiles = bound - {cstr sockaddr}, rcend = Exit 0\<rparr>)))"

section \<open>The server on messages that fit\<close>

text \<open>The buffers keep their sizes, and the last byte of the receive buffer stays zero.\<close>

abbreviation respond_sizes :: "respond_server \<Rightarrow> bool" where
  "respond_sizes s \<equiv> length (rbuf s) = RESPOND_BUFFER \<and> length (rcopy s) = RESPOND_BUFFER \<and>
     length (raddr s) = 16 \<and> raddrlen s \<le> 16"

definition respond_wf :: "respond_server \<Rightarrow> bool" where
  "respond_wf s \<longleftrightarrow> respond_sizes s \<and> rbuf s ! (RESPOND_BUFFER - 1) = NUL"

text \<open>A message whose answer fits into the copy buffer.\<close>

definition answerable :: "int \<Rightarrow> char list \<Rightarrow> bool" where
  "answerable pid m \<longleftrightarrow> length (fmt_d pid) + length m + 6 < RESPOND_BUFFER"

lemma no_nul_answer: "no_nul m \<Longrightarrow> no_nul (reply_text pid m)"
  using fmt_d_no_nul [of pid] unfolding no_nul_def reply_text_def newline_def by simp

lemma answer_fits: "answerable pid m \<Longrightarrow> length (reply_text pid (cstr m)) < RESPOND_BUFFER"
  using length_cstr [of m] by (simp add: reply_text_def answerable_def newline_def)

lemma terminator_kept:
  assumes "length buf = RESPOND_BUFFER" "buf ! (RESPOND_BUFFER - 1) = NUL" "length m < RESPOND_BUFFER"
  shows "(m @ drop (length m) buf) ! (RESPOND_BUFFER - 1) = NUL"
    and "(m @ NUL # drop (Suc (length m)) buf) ! (RESPOND_BUFFER - 1) = NUL"
    and "NUL \<in> set (m @ drop (length m) buf)"
proof -
  show nth: "(m @ drop (length m) buf) ! (RESPOND_BUFFER - 1) = NUL"
    using assms by (simp add: RESPOND_BUFFER_def nth_append)
  show "(m @ NUL # drop (Suc (length m)) buf) ! (RESPOND_BUFFER - 1) = NUL"
    using assms by (cases "length m = 63") (simp_all add: RESPOND_BUFFER_def nth_append nth_Cons')
  have "RESPOND_BUFFER - 1 < length (m @ drop (length m) buf)"
    using assms by (simp add: RESPOND_BUFFER_def)
  with nth show "NUL \<in> set (m @ drop (length m) buf)" by (metis nth_mem)
qed

text \<open>What is left of the older messages is shown, but not answered.\<close>

lemma respond_step_answers:
  assumes "respond_wf s" "answerable pid m" "length addr \<le> 16"
  shows "respond_step pid (Datagram addr m) s =
    (s\<lparr>rbuf := m @ NUL # drop (Suc (length m)) (rbuf s),
       rcopy := reply_text pid (cstr m) @ NUL # drop (Suc (length (reply_text pid (cstr m)))) (rcopy s),
       raddr := blit (raddr s) 0 (take (raddrlen s) addr), raddrlen := length addr,
       rout := rout s @ ''recv: '' @ cstr (m @ drop (length m) (rbuf s)) @ newline @ ''send: '' @ reply_text pid (cstr m) @ newline,
       rsent := rsent s @ [(take (length addr) (blit (raddr s) 0 (take (raddrlen s) addr)), reply_text pid (cstr m) @ [NUL])]\<rparr>, None)"
proof -
  have len: "length m < length (rbuf s)" "length (rbuf s) = RESPOND_BUFFER" "length (rcopy s) = RESPOND_BUFFER"
    "length (raddr s) = 16" "raddrlen s \<le> 16"
    using assms by (auto simp: respond_wf_def answerable_def)
  have nul: "NUL \<in> set (m @ drop (length m) (rbuf s))"
    using assms len by (intro terminator_kept) (auto simp: respond_wf_def)
  have put: "aput (m @ drop (length m) (rbuf s)) (int (length m)) NUL = Inr (m @ NUL # drop (Suc (length m)) (rbuf s))"
    using aput_terminate [OF len(1)] len(1) by (simp add: recv_buf_fits)
  have spr: "sprintf_buf (rcopy s) (reply_text pid (cstr m)) = Inr (reply_text pid (cstr m) @ NUL # drop (Suc (length (reply_text pid (cstr m)))) (rcopy s))"
    using answer_fits [OF assms(2)] len(3) sprintf_buf_fits [of "reply_text pid (cstr m)" "rcopy s"] by simp
  have "length (blit (raddr s) 0 (take (raddrlen s) addr)) = 16"
    using len assms(3) by (simp add: blit_def)
  then show ?thesis
    using len nul put spr assms(3)
    by (simp add: respond_step_def respond_reply_def recvfrom_def respond_print_def Let_def recv_buf_fits c_string_def [of "m @ drop _ _"]
        c_string_append cstr_terminated no_nul_answer sendto_def)
qed

lemma respond_step_wf:
  assumes "respond_wf s" "answerable pid m" "length addr \<le> 16"
  shows "respond_wf (fst (respond_step pid (Datagram addr m) s))"
  using assms terminator_kept [of "rbuf s" m] answer_fits [OF assms(2)]
  by (auto simp: respond_step_answers respond_wf_def answerable_def blit_def)

text \<open>Without a zero in the buffer or the message, \<^verbatim>\<open>printf\<close> runs past the end.\<close>

lemma respond_step_unterminated:
  assumes "no_nul (rbuf s)" "no_nul m" "length m \<le> length (rbuf s)"
  shows "respond_step pid (Datagram a m) s = (recvfrom a m s, Some OutOfBounds) \<and> rsent (recvfrom a m s) = rsent s"
proof -
  have "NUL \<notin> set (recv_buf (rbuf s) m)"
    using assms by (auto simp: recv_buf_fits no_nul_def dest: in_set_dropD)
  then show ?thesis
    by (simp add: respond_step_def respond_reply_def recvfrom_def c_string_def)
qed

text \<open>
  Senders none of which has a longer address than the one before: each answer goes where its
  message came from.
\<close>

lemma respond_loop_answers:
  assumes "respond_wf s" "list_all (\<lambda>(_, m). answerable pid m) ms"
    and "sorted_wrt (\<ge>) (raddrlen s # map (length \<circ> fst) ms)"
  shows "\<exists>t. respond_loop pid (map (\<lambda>(a, m). Datagram a m) ms @ es) s = respond_loop pid es t \<and> respond_wf t \<and>
    rsent t = rsent s @ map (\<lambda>(a, m). (a, reply_text pid (cstr m) @ [NUL])) ms \<and> rfiles t = rfiles s"
  using assms
proof (induction ms arbitrary: s)
  case Nil
  then show ?case by auto
next
  case (Cons e ms)
  obtain a m where e: "e = (a, m)" by (cases e)
  have a: "length a \<le> raddrlen s" "length a \<le> 16" "answerable pid m"
    using Cons.prems by (auto simp: e respond_wf_def)
  define t where "t = fst (respond_step pid (Datagram a m) s)"
  have step: "respond_step pid (Datagram a m) s = (t, None)"
    using Cons.prems(1) a by (simp add: t_def respond_step_answers)
  have t: "respond_wf t" "raddrlen t = length a" "rfiles t = rfiles s"
    "rsent t = rsent s @ [(a, reply_text pid (cstr m) @ [NUL])]"
    using Cons.prems(1) a respond_step_wf [OF Cons.prems(1) a(3) a(2)]
    by (simp_all add: t_def respond_step_answers blit_def)
  from Cons.IH [OF t(1)] Cons.prems t e show ?case
    by (auto simp: step)
qed

lemma socket_fits:
  assumes "length junk = 14"
  shows "\<exists>rest. sprintf_buf junk SOCKET = Inr (SOCKET @ NUL # rest)" "cstr (SOCKET @ NUL # rest) = SOCKET"
  using assms by (auto simp: sprintf_buf_def blit_def SOCKET_def cstr_def)

lemma respond_main_serves:
  assumes "SOCKET \<notin> rfiles s" "length addr_junk = 14"
  shows "respond_main True True addr_junk pid es s =
    respond_loop pid es (s\<lparr>rfiles := insert SOCKET (rfiles s), raddrlen := length (raddr s)\<rparr>)"
  using assms socket_fits(1) [OF assms(2)] socket_fits(2) [OF assms(2)]
  by (auto simp: respond_main_def Let_def)

section \<open>Properties\<close>

text \<open>
  C6: The receive buffer is not initialised, and a message is printed before it is terminated. If the last byte of the
  buffer happens to be zero, the server answers every message that leaves room for the answer, in order, and each answer
  goes to the sender of its message as long as no sender has a longer address than the one
  before it; interrupted, it ends normally and its socket file is gone. If no byte of the buffer
  is zero, printing the first message, unless it has a zero of its own, reads past the end of the buffer, and
  nothing has been answered by then.
\<close>

theorem respond_answers_senders:
  assumes "SOCKET \<notin> rfiles s" "respond_sizes s" "length addr_junk = 14"
    and "list_all (\<lambda>(_, m). answerable pid m) ms"
    and "sorted_wrt (\<ge>) (16 # map (length \<circ> fst) ms)"
  shows "(rbuf s ! (RESPOND_BUFFER - 1) = NUL \<longrightarrow>
      (\<exists>t. respond_main True True addr_junk pid (map (\<lambda>(a, m). Datagram a m) ms @ [Interrupt]) s = (t, Some (Exit 0)) \<and>
        rsent t = rsent s @ map (\<lambda>(a, m). (a, reply_text pid (cstr m) @ [NUL])) ms \<and> rfiles t = rfiles s)) \<and>
    (no_nul (rbuf s) \<and> ms \<noteq> [] \<and> no_nul (snd (hd ms)) \<longrightarrow>
      (\<exists>t. respond_main True True addr_junk pid (map (\<lambda>(a, m). Datagram a m) ms @ [Interrupt]) s = (t, Some OutOfBounds) \<and>
        rsent t = rsent s))"
proof (intro conjI impI)
  let ?s = "s\<lparr>rfiles := insert SOCKET (rfiles s), raddrlen := length (raddr s)\<rparr>"
  note serves = respond_main_serves [OF assms(1,3)]
  {
    assume "rbuf s ! (RESPOND_BUFFER - 1) = NUL"
    with assms(2) have wf: "respond_wf ?s" and len: "raddrlen ?s = 16" by (simp_all add: respond_wf_def)
    from respond_loop_answers [OF wf assms(4), of "[Interrupt]"] assms(5) len
    obtain t where "respond_loop pid (map (\<lambda>(a, m). Datagram a m) ms @ [Interrupt]) ?s = respond_loop pid [Interrupt] t"
      "rsent t = rsent s @ map (\<lambda>(a, m). (a, reply_text pid (cstr m) @ [NUL])) ms" "rfiles t = insert SOCKET (rfiles s)"
      by auto
    then show "\<exists>t. respond_main True True addr_junk pid (map (\<lambda>(a, m). Datagram a m) ms @ [Interrupt]) s = (t, Some (Exit 0)) \<and>
        rsent t = rsent s @ map (\<lambda>(a, m). (a, reply_text pid (cstr m) @ [NUL])) ms \<and> rfiles t = rfiles s"
      using assms(1) unfolding serves
      by (intro exI [of _ "t\<lparr>rfiles := rfiles s\<rparr>"]) (simp add: respond_step_def respond_sigint_def)
  next
    assume "no_nul (rbuf s) \<and> ms \<noteq> [] \<and> no_nul (snd (hd ms))"
    then obtain a m rest where "ms = (a, m) # rest" "no_nul m" "no_nul (rbuf s)" by (cases ms) auto
    moreover from this assms(4) have "length m \<le> length (rbuf s)"
      using assms(2) by (simp add: answerable_def)
    ultimately show "\<exists>t. respond_main True True addr_junk pid (map (\<lambda>(a, m). Datagram a m) ms @ [Interrupt]) s = (t, Some OutOfBounds) \<and>
        rsent t = rsent s"
      unfolding serves by (simp add: respond_step_unterminated)
  }
qed

abbreviation idle :: respond_server where
  "idle \<equiv> \<lparr>rbuf = replicate 64 NUL, rcopy = replicate 64 NUL, raddr = replicate 16 NUL, raddrlen = 0,
    rout = [], rsent = [], rfiles = {}\<rparr>"

lemma idle_wf: "respond_wf (idle\<lparr>raddrlen := n\<rparr>) \<longleftrightarrow> n \<le> 16"
  by (simp add: respond_wf_def RESPOND_BUFFER_def)

lemma idle_wf_0: "respond_wf idle"
  by (simp add: respond_wf_def RESPOND_BUFFER_def)

theorem respond_answers_senders_witness:
  "\<exists>t. respond_main True True (replicate 14 NUL) 5
      (map (\<lambda>(a, m). Datagram a m) [(''un10.socket'', ''10''), (''un7.socket'', ''7'')] @ [Interrupt]) idle = (t, Some (Exit 0)) \<and>
    rsent t = [(''un10.socket'', ''5 --> 10'' @ newline @ [NUL]), (''un7.socket'', ''5 --> 7'' @ newline @ [NUL])] \<and> rfiles t = {}"
proof -
  have "fmt_d 5 = ''5''" by (simp add: fmt_d_def digits.simps)
  moreover have "respond_sizes idle" by (simp add: RESPOND_BUFFER_def)
  ultimately show ?thesis
    using respond_answers_senders [of idle "replicate 14 NUL" 5 "[(''un10.socket'', ''10''), (''un7.socket'', ''7'')]"]
    by (simp add: answerable_def reply_text_def RESPOND_BUFFER_def cstr_def)
qed

text \<open>
  A sender whose address is longer than the one before it gets no answer: \<^verbatim>\<open>addrlen\<close> is what
  the last call of \<^verbatim>\<open>recvfrom\<close> has left there, so the address is cut to the length of the other one
  and completed with what was in the variable before.
\<close>

theorem respond_cuts_longer_address:
  assumes "respond_wf s" "raddrlen s = 16" "answerable pid m1" "answerable pid m2"
    and "length a1 < length a2" "length a2 \<le> 16"
  shows "\<exists>t. respond_loop pid [Datagram a1 m1, Datagram a2 m2] s = (t, None) \<and>
    rsent t = rsent s @ [(a1, reply_text pid (cstr m1) @ [NUL]),
      (take (length a1) a2 @ take (length a2 - length a1) (drop (length a1) (raddr s)), reply_text pid (cstr m2) @ [NUL])]"
proof -
  have a1: "length a1 \<le> 16" using assms(5,6) by simp
  define t where "t = fst (respond_step pid (Datagram a1 m1) s)"
  have wf: "respond_wf t" using respond_step_wf [OF assms(1,3) a1] by (simp add: t_def)
  have "respond_step pid (Datagram a1 m1) s = (t, None)"
    using assms a1 by (simp add: respond_step_answers t_def)
  moreover have "raddr t = a1 @ drop (length a1) (raddr s)" "raddrlen t = length a1"
    "rsent t = rsent s @ [(a1, reply_text pid (cstr m1) @ [NUL])]"
    using assms a1 by (simp_all add: respond_step_answers blit_def t_def)
  ultimately show ?thesis
    using respond_step_answers [OF wf assms(4,6)] assms(5,6) a1 by (simp add: blit_def min_def)
qed

theorem respond_cuts_longer_address_witness:
  "\<exists>t. respond_loop 5 [Datagram ''un9.socket'' ''9'', Datagram ''un10.socket'' ''10''] (idle\<lparr>raddrlen := 16\<rparr>) = (t, None) \<and>
    rsent t = [(''un9.socket'', ''5 --> 9'' @ newline @ [NUL]), (''un10.socke'' @ [NUL], ''5 --> 10'' @ newline @ [NUL])]"
proof -
  have "fmt_d 5 = ''5''" by (simp add: fmt_d_def digits.simps)
  moreover have "respond_wf (idle\<lparr>raddrlen := 16\<rparr>)" by (simp only: idle_wf order_refl)
  ultimately show ?thesis
    using respond_cuts_longer_address [of "idle\<lparr>raddrlen := 16\<rparr>" 5 "''9''" "''10''" "''un9.socket''" "''un10.socket''"]
    by (simp add: answerable_def reply_text_def RESPOND_BUFFER_def cstr_def numeral_eq_Suc)
qed

text \<open>
  A message without a NUL byte is received, but faults the server, if and only if its answer
  does not fit into the copy buffer or its terminator not into the receive buffer.
\<close>

theorem respond_overflow:
  assumes "respond_wf s" "length addr \<le> 16" "no_nul m" "length m \<le> RESPOND_BUFFER"
  shows "snd (respond_step pid (Datagram addr m) s) =
    (if length (fmt_d pid) + length m + 6 < RESPOND_BUFFER then None else Some OutOfBounds)"
proof (cases "answerable pid m")
  case True
  then show ?thesis
    using respond_step_answers [OF assms(1) True assms(2)] by (simp add: answerable_def)
next
  case False
  have len: "length (rbuf s) = RESPOND_BUFFER" "length (rcopy s) = RESPOND_BUFFER" using assms(1) by (auto simp: respond_wf_def)
  show ?thesis
  proof (cases "length m < RESPOND_BUFFER")
    case full: False
    with assms(3,4) len have "c_string (recv_buf (rbuf s) m) = Inl OutOfBounds"
      by (simp add: recv_buf_fits c_string_def no_nul_def)
    with False full show ?thesis
      by (simp add: respond_step_def respond_reply_def recvfrom_def answerable_def)
  next
    case True
    have nul: "NUL \<in> set (m @ drop (length m) (rbuf s))"
      using assms(1) True by (intro terminator_kept) (auto simp: respond_wf_def)
    have put: "aput (m @ drop (length m) (rbuf s)) (int (length m)) NUL = Inr (m @ NUL # drop (Suc (length m)) (rbuf s))"
      using aput_terminate [of m "rbuf s"] True len by (simp add: recv_buf_fits)
    have "sprintf_buf (rcopy s) (reply_text pid m) = Inl OutOfBounds"
      using False len by (simp add: sprintf_buf_def reply_text_def answerable_def newline_def)
    then show ?thesis
      using nul put True False len assms(3)
      by (simp add: respond_step_def respond_reply_def recvfrom_def respond_print_def Let_def recv_buf_fits
          c_string_def [of "m @ drop _ _"] c_string_append cstr_id answerable_def)
  qed
qed

theorem respond_overflow_witness:
  "snd (respond_step 5 (Datagram ''un7.socket'' (replicate 57 CHR ''7'')) idle) = Some OutOfBounds"
proof -
  have "length (fmt_d 5) = 1" by (simp add: fmt_d_def digits.simps)
  then show ?thesis
    using respond_overflow [OF idle_wf_0, of "''un7.socket''" "replicate 57 CHR ''7''" 5]
    by (simp add: RESPOND_BUFFER_def no_nul_def)
qed

text \<open>
  A message that is shorter than the one before it is logged with the tail of the older one,
  which is not terminated there; the answer is made of the new message only.
\<close>

theorem respond_logs_stale_tail:
  assumes "respond_wf s" "rbuf s = old @ NUL # rest" "no_nul old" "no_nul m" "length m < length old"
    and "answerable pid m" "length addr \<le> 16"
  shows "rout (fst (respond_step pid (Datagram addr m) s)) = rout s @
    ''recv: '' @ m @ drop (length m) old @ newline @ ''send: '' @ reply_text pid m @ newline"
proof -
  have old: "no_nul (m @ drop (length m) old)"
    using assms(3,4) by (auto simp: no_nul_def dest: in_set_dropD)
  have "cstr (m @ drop (length m) (rbuf s)) = m @ drop (length m) old"
    using cstr_terminated [OF old, of rest] assms(2,5) by simp
  then show ?thesis
    using respond_step_answers [OF assms(1,6,7)] assms(4) by (simp add: cstr_id)
qed

theorem respond_logs_stale_tail_witness:
  "rout (fst (respond_step 5 (Datagram ''un99.socket'' ''99'') (idle\<lparr>rbuf := ''12345'' @ NUL # replicate 58 NUL\<rparr>))) =
    ''recv: '' @ ''99345'' @ newline @ ''send: '' @ ''5 --> 99'' @ newline @ newline"
proof -
  have "fmt_d 5 = ''5''" by (simp add: fmt_d_def digits.simps)
  then show ?thesis
    using respond_logs_stale_tail [of "idle\<lparr>rbuf := ''12345'' @ NUL # replicate 58 NUL\<rparr>" "''12345''" "replicate 58 NUL" "''99''" 5 "''un99.socket''"]
    by (simp add: respond_wf_def no_nul_def answerable_def reply_text_def RESPOND_BUFFER_def)
qed

text \<open>
  A client whose process id has at most six digits binds a socket of its own, sends its id,
  prints the answer it gets and removes the socket file; with a longer id the name of the socket
  does not fit into its address and the client writes outside it before it has sent anything.
\<close>

theorem respond_client_exchange:
  assumes "0 \<le> pid" "pid < 2 ^ 31" "0 \<le> server_pid" "server_pid < 2 ^ 31"
    and "length junk = RESPOND_BUFFER" "fmt_d pid @ ''.socket'' \<notin> files"
  shows "respond_client_main True True (Some (reply_text server_pid (fmt_d pid) @ [NUL])) junk pid files =
    (if pid < 1000000
     then \<lparr>rcout = ''send: '' @ fmt_d pid @ newline @ ''read from: '' @ reply_text server_pid (fmt_d pid) @ newline,
           rcsent = Some (fmt_d pid), rcfiles = files, rcend = Exit 0\<rparr>
     else \<lparr>rcout = [], rcsent = None, rcfiles = files, rcend = OutOfBounds\<rparr>)"
proof -
  let ?name = "fmt_d pid @ ''.socket''" and ?ans = "reply_text server_pid (fmt_d pid)"
  let ?buf = "fmt_d pid @ NUL # drop (Suc (length (fmt_d pid))) junk"
  obtain rest where server: "sprintf_buf sa_data SOCKET = Inr (SOCKET @ NUL # rest)"
    using socket_fits(1) [of sa_data] by auto
  have fits: "length ?name < 14 \<longleftrightarrow> pid < 1000000"
    using length_fmt_d_iff [OF assms(1), of 6] by auto
  have nn: "no_nul ?name" using fmt_d_no_nul [of pid] by (simp add: no_nul_def)
  have buf: "sprintf_buf junk (fmt_d pid) = Inr ?buf" "length ?buf = RESPOND_BUFFER"
    using pid_length [OF assms(1,2)] assms(5) sprintf_buf_fits [of "fmt_d pid" junk] by (simp_all add: RESPOND_BUFFER_def)
  have ans: "no_nul ?ans" "length (?ans @ [NUL]) < length ?buf"
    using no_nul_answer [OF fmt_d_no_nul] pid_length [OF assms(1,2)] pid_length [OF assms(3,4)] buf(2)
    by (simp_all add: reply_text_def newline_def RESPOND_BUFFER_def)
  have put: "aput (recv_buf ?buf (?ans @ [NUL])) (int (length (take RESPOND_BUFFER (?ans @ [NUL])))) NUL =
      Inr ((?ans @ [NUL]) @ NUL # drop (Suc (length (?ans @ [NUL]))) ?buf)"
    using aput_terminate [OF ans(2)] ans(2) buf(2) by (simp add: min_def)
  show ?thesis
  proof (cases "pid < 1000000")
    case False
    with fits show ?thesis
      by (simp add: respond_client_main_def server Let_def sprintf_buf_def [of sa_data "?name"])
  next
    case True
    with fits nn obtain sockaddr where name: "sprintf_buf sa_data ?name = Inr sockaddr" "cstr sockaddr = ?name"
      using sprintf_buf_fits [of ?name sa_data] cstr_terminated [of ?name] by simp
    obtain b where b: "?buf = b" and id: "cstr b = fmt_d pid" "take (length (fmt_d pid)) b = fmt_d pid"
      by (simp add: cstr_terminated)
    obtain reply where reply: "?ans @ [NUL] = reply" by simp
    obtain b' where put': "aput (recv_buf b reply) (int (length (take RESPOND_BUFFER reply))) NUL = Inr b'" "cstr b' = ?ans"
      using put cstr_terminated [OF ans(1)] unfolding reply b by (auto simp flip: reply)
    show ?thesis
      using True assms(6) unfolding reply
      by (simp add: respond_client_main_def Let_def server name put' buf(1) [unfolded b] id del: length_take)
  qed
qed

theorem respond_client_exchange_witness:
  "respond_client_main True True (Some (reply_text 5 (fmt_d 1000000) @ [NUL])) (replicate 64 NUL) 1000000 {} =
    \<lparr>rcout = [], rcsent = None, rcfiles = {}, rcend = OutOfBounds\<rparr>"
  using respond_client_exchange [of 1000000 5 "replicate 64 NUL" "{}"] by (simp add: RESPOND_BUFFER_def)

end
