(* ===== verification/Epoll_Server.thy ===== *)
theory Epoll_Server
  imports Char_Buffers
begin

text \<open>
  The stream server that waits on an epoll instance and its client,
  \<^verbatim>\<open>2/client-sever/epoll/server.c\<close> and \<^verbatim>\<open>client.c\<close>. The events \<^verbatim>\<open>epoll_wait\<close> reports, with what the
  calls made for them return, are the argument of the server; so are the bytes the two buffers of
  an event hold before anything is stored in them.
\<close>

definition BUFF_SIZE :: nat where "BUFF_SIZE = 32"

section \<open>The server\<close>

record epoll_server =
  elisten :: bool        \<comment> \<open>the listening socket is open\<close>
  econns :: "int set"    \<comment> \<open>the open connections\<close>
  eout :: string
  esent :: "(int \<times> char list) list"

text \<open>The calls before the loop, in their order.\<close>

record epoll_env =
  socket_ok :: bool
  bind_ok :: bool
  listen_ok :: bool
  epoll_ok :: bool
  listen_ctl_ok :: bool

datatype ready =
    Connection "int option" bool bool
      \<comment> \<open>the result of \<^verbatim>\<open>accept\<close>, and whether \<^verbatim>\<open>fcntl\<close> and \<^verbatim>\<open>epoll_ctl\<close> succeed\<close>
  | Readable int "char list" "char list" "char list option" bool
      \<comment> \<open>the connection, the two buffers, the result of \<^verbatim>\<open>read\<close>, and whether \<^verbatim>\<open>send\<close> succeeds\<close>

definition eprint :: "string \<Rightarrow> epoll_server \<Rightarrow> epoll_server" where
  "eprint msg s = s\<lparr>eout := eout s @ msg @ newline\<rparr>"

definition close_listen :: "epoll_server \<Rightarrow> epoll_server" where
  "close_listen s = s\<lparr>elisten := False\<rparr>"

definition close_conn :: "int \<Rightarrow> epoll_server \<Rightarrow> epoll_server" where
  "close_conn c s = s\<lparr>econns := econns s - {c}\<rparr>"

text \<open>\<^verbatim>\<open>"%d_%s"\<close>\<close>

definition tagged :: "int \<Rightarrow> string \<Rightarrow> string" where
  "tagged pid msg = fmt_d pid @ ''_'' @ msg"

definition accept_conn :: "int option \<Rightarrow> bool \<Rightarrow> bool \<Rightarrow> epoll_server \<Rightarrow> epoll_server \<times> fault option" where
  "accept_conn conn_sock fcntl_ok ctl_ok s =
     (case conn_sock of
        None \<Rightarrow> (s, Some (Exit 1))
      | Some c \<Rightarrow>
        let s = s\<lparr>econns := insert c (econns s)\<rparr> in
        if \<not> fcntl_ok then (close_listen s, Some (Exit 1))
        else if \<not> ctl_ok then (close_listen s, Some (Exit 1))
        else (s, None))"

definition serve_conn :: "int \<Rightarrow> int \<Rightarrow> char list \<Rightarrow> char list \<Rightarrow> char list option \<Rightarrow> bool \<Rightarrow>
    epoll_server \<Rightarrow> epoll_server \<times> fault option" where
  "serve_conn pid conn msg_to msg_from rc send_ok s =
     (let msg_to = msg_to[BUFF_SIZE - 1 := NUL]; msg_from = msg_from[BUFF_SIZE - 1 := NUL] in
      case rc of
        None \<Rightarrow> (close_conn conn s, Some (Exit 1))
      | Some bs \<Rightarrow>
        if bs = [] then (close_conn conn s, None)
        else case c_string (recv_buf msg_from bs) of
          Inl f \<Rightarrow> (s, Some f)
        | Inr msg \<Rightarrow>
          let s = eprint (newline @ ''received client_pid: '' @ msg) s in
          (case sprintf_buf msg_to (tagged pid msg) of
             Inl f \<Rightarrow> (s, Some f)
           | Inr msg_to \<Rightarrow>
             if \<not> send_ok then (s, Some (Exit 1))
             else (close_conn conn (eprint (''send to client: '' @ cstr msg_to)
                    (s\<lparr>esent := esent s @ [(conn, msg_to)]\<rparr>)), None)))"

definition handle_ready :: "int \<Rightarrow> ready \<Rightarrow> epoll_server \<Rightarrow> epoll_server \<times> fault option" where
  "handle_ready pid e s =
     (case e of
        Connection conn_sock fcntl_ok ctl_ok \<Rightarrow> accept_conn conn_sock fcntl_ok ctl_ok s
      | Readable conn msg_to msg_from rc send_ok \<Rightarrow> serve_conn pid conn msg_to msg_from rc send_ok s)"

fun handle_events :: "int \<Rightarrow> ready list \<Rightarrow> epoll_server \<Rightarrow> epoll_server \<times> fault option" where
  "handle_events pid [] s = (s, None)"
| "handle_events pid (e # es) s =
     (case handle_ready pid e s of (s, Some f) \<Rightarrow> (s, Some f) | (s, None) \<Rightarrow> handle_events pid es s)"

text \<open>What the successive calls of \<^verbatim>\<open>epoll_wait\<close> report: some events, or a failure.\<close>

fun epoll_loop :: "int \<Rightarrow> ready list option list \<Rightarrow> epoll_server \<Rightarrow> epoll_server \<times> fault option" where
  "epoll_loop pid [] s = (s, None)"
| "epoll_loop pid (None # waits) s = (close_listen s, Some (Exit 1))"
| "epoll_loop pid (Some events # waits) s =
     (case handle_events pid events s of (s, Some f) \<Rightarrow> (s, Some f) | (s, None) \<Rightarrow> epoll_loop pid waits s)"

definition epoll_main :: "epoll_env \<Rightarrow> int \<Rightarrow> ready list option list \<Rightarrow> epoll_server \<times> fault option" where
  "epoll_main env pid waits =
     (let s = \<lparr>elisten = True, econns = {}, eout = [], esent = []\<rparr> in
      if \<not> socket_ok env then (close_listen s, Some (Exit 1))
      else if \<not> bind_ok env then (close_listen s, Some (Exit 1))
      else if \<not> listen_ok env then (close_listen s, Some (Exit 1))
      else if \<not> epoll_ok env then (close_listen s, Some (Exit 1))
      else if \<not> listen_ctl_ok env then (close_listen s, Some (Exit 1))
      else epoll_loop pid waits (eprint (''server_pid: '' @ fmt_d pid) s))"

section \<open>The client\<close>

record epoll_client =
  ecout :: string
  ecsent :: "char list option"
  ecend :: fault

text \<open>
  \<open>sock\<close> is the descriptor \<^verbatim>\<open>socket\<close> returns; it is compared with 1, not with -1. What \<^verbatim>\<open>connect\<close>,
  \<^verbatim>\<open>send\<close> and \<^verbatim>\<open>read\<close> return are arguments.
\<close>

definition epoll_client_main :: "int \<Rightarrow> bool \<Rightarrow> bool \<Rightarrow> char list option \<Rightarrow> char list \<Rightarrow> char list \<Rightarrow> int \<Rightarrow> epoll_client" where
  "epoll_client_main sock connect_ok send_ok rc msg_to msg_from pid =
     (let stop = (\<lambda>f. \<lparr>ecout = [], ecsent = None, ecend = f\<rparr>) in
      if sock = 1 then stop (Exit 1)
      else if \<not> connect_ok then stop (Exit 1)
      else let msg_to = msg_to[BUFF_SIZE - 1 := NUL]; msg_from = msg_from[BUFF_SIZE - 1 := NUL] in
        case sprintf_buf msg_to (fmt_d pid) of
          Inl f \<Rightarrow> stop f
        | Inr msg_to \<Rightarrow>
          if \<not> send_ok then stop (Exit 1)
          else let out = ''client_pid '' @ fmt_d pid @ '' send to server msg: '' @ cstr msg_to @ newline in
            case rc of
              None \<Rightarrow> \<lparr>ecout = out, ecsent = Some msg_to, ecend = Exit 1\<rparr>
            | Some bs \<Rightarrow>
              (case c_string (recv_buf msg_from bs) of
                 Inl f \<Rightarrow> \<lparr>ecout = out, ecsent = Some msg_to, ecend = f\<rparr>
               | Inr msg \<Rightarrow>
                 \<lparr>ecout = out @ ''client_pid '' @ fmt_d pid @ '' received from server msg: '' @ msg @ newline,
                  ecsent = Some msg_to, ecend = Exit 0\<rparr>))"

section \<open>Well-behaved events\<close>

text \<open>The whole reply as it is sent: what follows the terminator was never stored by the server.\<close>

definition reply_bytes :: "int \<Rightarrow> char list \<Rightarrow> string \<Rightarrow> char list" where
  "reply_bytes pid msg_to msg =
     tagged pid msg @ NUL # drop (Suc (length (tagged pid msg))) (msg_to[BUFF_SIZE - 1 := NUL])"

text \<open>A connection is accepted, or a terminated message that can be answered is read and the answer sent.\<close>

fun good_event :: "int \<Rightarrow> ready \<Rightarrow> bool" where
  "good_event pid (Connection conn_sock fcntl_ok ctl_ok) \<longleftrightarrow> conn_sock \<noteq> None \<and> fcntl_ok \<and> ctl_ok"
| "good_event pid (Readable conn msg_to msg_from rc send_ok) \<longleftrightarrow>
     length msg_to = BUFF_SIZE \<and> length msg_from = BUFF_SIZE \<and> send_ok \<and>
     (case rc of None \<Rightarrow> False | Some bs \<Rightarrow> NUL \<in> set bs \<and> length bs \<le> BUFF_SIZE \<and>
        length (tagged pid (cstr bs)) < BUFF_SIZE)"

fun sent_for :: "int \<Rightarrow> ready \<Rightarrow> (int \<times> char list) list" where
  "sent_for pid (Readable conn msg_to _ (Some bs) _) = [(conn, reply_bytes pid msg_to (cstr bs))]"
| "sent_for pid _ = []"

fun accepted :: "ready \<Rightarrow> int set" where
  "accepted (Connection (Some c) _ _) = {c}"
| "accepted _ = {}"

fun served :: "ready \<Rightarrow> int set" where
  "served (Readable c _ _ _ _) = {c}"
| "served _ = {}"

lemma NUL_cstr: "NUL \<in> set bs \<Longrightarrow> \<exists>rest. bs = cstr bs @ NUL # rest"
  unfolding cstr_def by (induction bs) auto

lemma c_string_received:
  assumes "NUL \<in> set bs" "length bs \<le> length buf"
  shows "c_string (recv_buf buf bs) = Inr (cstr bs)"
proof -
  obtain rest where bs: "bs = cstr bs @ NUL # rest" using NUL_cstr [OF assms(1)] by blast
  have "recv_buf buf bs = (cstr bs @ NUL # rest) @ drop (length bs) buf"
    using recv_buf_fits [OF assms(2)] bs by simp
  then show ?thesis by (simp add: c_string_terminated)
qed

lemma tagged_no_nul: "no_nul msg \<Longrightarrow> no_nul (tagged pid msg)"
  using fmt_d_no_nul [of pid] by (simp add: tagged_def no_nul_def)

lemma sprintf_tagged:
  assumes "length msg_to = BUFF_SIZE" "length (tagged pid msg) < BUFF_SIZE" "no_nul msg"
  shows "sprintf_buf (msg_to[BUFF_SIZE - 1 := NUL]) (tagged pid msg) = Inr (reply_bytes pid msg_to msg)"
    and "length (reply_bytes pid msg_to msg) = BUFF_SIZE"
    and "cstr (reply_bytes pid msg_to msg) = tagged pid msg"
  using assms by (simp_all add: sprintf_buf_fits reply_bytes_def cstr_terminated tagged_no_nul)

lemma handle_good:
  assumes "good_event pid e"
  shows "\<exists>t. handle_ready pid e s = (t, None) \<and> esent t = esent s @ sent_for pid e \<and>
    econns t = econns s \<union> accepted e - served e \<and> elisten t = elisten s"
proof (cases e)
  case (Connection conn_sock fcntl_ok ctl_ok)
  with assms show ?thesis by (auto simp: handle_ready_def accept_conn_def)
next
  case (Readable conn msg_to msg_from rc send_ok)
  with assms obtain bs where bs: "rc = Some bs" "NUL \<in> set bs" "length bs \<le> BUFF_SIZE" "send_ok"
    "length (tagged pid (cstr bs)) < BUFF_SIZE" and len: "length msg_to = BUFF_SIZE" "length msg_from = BUFF_SIZE"
    by (auto split: option.splits)
  then have "bs \<noteq> []" by auto
  moreover have "c_string (recv_buf (msg_from[BUFF_SIZE - 1 := NUL]) bs) = Inr (cstr bs)"
    using bs len by (intro c_string_received) simp_all
  ultimately show ?thesis
    using Readable bs sprintf_tagged [OF len(1) bs(5) no_nul_cstr]
    by (simp add: handle_ready_def serve_conn_def Let_def eprint_def close_conn_def)
qed

text \<open>The connections left open by a list of events.\<close>

definition left_open :: "int set \<Rightarrow> ready list \<Rightarrow> int set" where
  "left_open = foldl (\<lambda>cs e. cs \<union> accepted e - served e)"

lemma handle_events_good:
  "list_all (good_event pid) es \<Longrightarrow>
    \<exists>t. handle_events pid es s = (t, None) \<and> esent t = esent s @ concat (map (sent_for pid) es) \<and>
      econns t = left_open (econns s) es \<and> elisten t = elisten s"
proof (induction es arbitrary: s)
  case Nil
  then show ?case by (simp add: left_open_def)
next
  case (Cons e es)
  then obtain t where t: "handle_ready pid e s = (t, None)" "esent t = esent s @ sent_for pid e"
    "econns t = econns s \<union> accepted e - served e" "elisten t = elisten s"
    using handle_good [of pid e s] by auto
  with Cons.IH [of t] Cons.prems show ?case by (auto simp: left_open_def)
qed

lemma left_open_append: "left_open cs (xs @ ys) = left_open (left_open cs xs) ys"
  by (simp add: left_open_def)

lemma epoll_loop_good:
  "list_all (good_event pid) (concat batches) \<Longrightarrow>
    \<exists>t. epoll_loop pid (map Some batches) s = (t, None) \<and> esent t = esent s @ concat (map (sent_for pid) (concat batches)) \<and>
      econns t = left_open (econns s) (concat batches) \<and> elisten t = elisten s"
proof (induction batches arbitrary: s)
  case Nil
  then show ?case by (simp add: left_open_def)
next
  case (Cons es batches)
  then obtain t where t: "handle_events pid es s = (t, None)" "esent t = esent s @ concat (map (sent_for pid) es)"
    "econns t = left_open (econns s) es" "elisten t = elisten s"
    using handle_events_good [of pid es s] by auto
  from Cons.IH [of t] Cons.prems obtain u where "epoll_loop pid (map Some batches) t = (u, None)"
    "esent u = esent t @ concat (map (sent_for pid) (concat batches))"
    "econns u = left_open (econns t) (concat batches)" "elisten u = elisten t" by auto
  with t show ?case by (simp add: left_open_append)
qed

text \<open>They are those accepted and not served afterwards.\<close>

lemma left_open_iff:
  "c \<in> left_open {} es \<longleftrightarrow> (\<exists>xs e ys. es = xs @ e # ys \<and> c \<in> accepted e \<and> c \<notin> \<Union> (served ` set ys))"
proof (induction es rule: rev_induct)
  case Nil
  then show ?case by (simp add: left_open_def)
next
  case (snoc e es)
  have disj: "c \<in> accepted e \<Longrightarrow> c \<notin> served e" by (cases e) auto
  have "c \<in> left_open {} (es @ [e]) \<longleftrightarrow> (c \<in> left_open {} es \<or> c \<in> accepted e) \<and> c \<notin> served e"
    by (auto simp: left_open_def)
  also have "\<dots> \<longleftrightarrow> (\<exists>xs e' ys. es @ [e] = xs @ e' # ys \<and> c \<in> accepted e' \<and> c \<notin> \<Union> (served ` set ys))"
    (is "?l \<longleftrightarrow> ?r")
  proof
    assume ?l
    then consider (old) "c \<in> left_open {} es" "c \<notin> served e" | (new) "c \<in> accepted e" by blast
    then show ?r
    proof cases
      case old
      then obtain xs e' ys where "es = xs @ e' # ys" "c \<in> accepted e'" "c \<notin> \<Union> (served ` set ys)"
        using snoc.IH by blast
      with old have "es @ [e] = xs @ e' # (ys @ [e])" "c \<notin> \<Union> (served ` set (ys @ [e]))" by auto
      with \<open>c \<in> accepted e'\<close> show ?thesis by blast
    qed (intro exI [of _ es] exI [of _ e] exI [of _ "[]"], simp)
  next
    assume ?r
    then obtain xs e' ys where r: "es @ [e] = xs @ e' # ys" "c \<in> accepted e'" "c \<notin> \<Union> (served ` set ys)" by blast
    show ?l
    proof (cases ys rule: rev_cases)
      case Nil
      with r disj show ?thesis by auto
    next
      case (snoc zs z)
      with r have "es = xs @ e' # zs" "z = e" by auto
      with r snoc have "c \<in> left_open {} es" unfolding snoc.IH by auto
      with r snoc \<open>z = e\<close> show ?thesis by auto
    qed
  qed
  finally show ?case .
qed

section \<open>Properties\<close>

abbreviation calls_ok :: epoll_env where
  "calls_ok \<equiv> \<lparr>socket_ok = True, bind_ok = True, listen_ok = True, epoll_ok = True, listen_ctl_ok = True\<rparr>"

text \<open>
  C3: As long as the calls on the connections succeed and every message has a zero among its first 32 bytes and leaves
  room, in the 32 bytes of the answer, for the server's process id in front of it and the terminator, then, however the events are
  grouped into the results of \<^verbatim>\<open>epoll_wait\<close>, the server answers every message it reads, in order, on the
  connection it came from, keeps open exactly the connections it has accepted and not yet served, and
  does not end. Every answer is 32 bytes long: what follows the terminator is whatever the buffer held before.
\<close>

theorem epoll_answers_all:
  assumes "list_all (good_event pid) (concat batches)"
  shows "\<exists>t. epoll_main calls_ok pid (map Some batches) = (t, None) \<and>
    esent t = concat (map (sent_for pid) (concat batches)) \<and> elisten t \<and>
    econns t = {c. \<exists>xs e ys. concat batches = xs @ e # ys \<and> c \<in> accepted e \<and> c \<notin> \<Union> (served ` set ys)}"
  unfolding left_open_iff [symmetric] Collect_mem_eq
  using epoll_loop_good [OF assms, of "eprint (''server_pid: '' @ fmt_d pid) \<lparr>elisten = True, econns = {}, eout = [], esent = []\<rparr>"]
  by (auto simp: epoll_main_def eprint_def)

theorem epoll_answers_all_witness:
  "\<exists>t. epoll_main calls_ok 5 (map Some [[Connection (Some 8) True True], [Connection (Some 9) True True,
      Readable 8 (replicate 32 CHR ''?'') (replicate 32 CHR ''?'') (Some (''7'' @ [NUL])) True]]) = (t, None) \<and>
    esent t = [(8, ''5_7'' @ NUL # replicate 27 CHR ''?'' @ [NUL])] \<and> elisten t"
proof -
  have "tagged 5 ''7'' = ''5_7''" by (simp add: tagged_def fmt_d_def digits.simps)
  moreover have "reply_bytes 5 (replicate 32 CHR ''?'') ''7'' = ''5_7'' @ NUL # replicate 27 CHR ''?'' @ [NUL]"
    using calculation by (simp add: reply_bytes_def BUFF_SIZE_def numeral_eq_Suc)
  ultimately show ?thesis
    using epoll_answers_all [of 5 "[[Connection (Some 8) True True], [Connection (Some 9) True True,
      Readable 8 (replicate 32 CHR ''?'') (replicate 32 CHR ''?'') (Some (''7'' @ [NUL])) True]]"]
    by (auto simp: BUFF_SIZE_def cstr_def)
qed

text \<open>
  A client and the server together: the client sends its process id, the server reads it and
  answers with its own in front, and the client prints the answer and ends normally.
\<close>

theorem epoll_exchange:
  assumes "0 \<le> pid" "pid < 2 ^ 31" "0 \<le> server_pid" "server_pid < 2 ^ 31" "sock \<noteq> 1"
    and "length to1 = BUFF_SIZE" "length from1 = BUFF_SIZE" "length to2 = BUFF_SIZE" "length from2 = BUFF_SIZE"
  shows "\<exists>msg reply t. ecsent (epoll_client_main sock True True None to1 from1 pid) = Some msg \<and>
    handle_ready server_pid (Readable conn to2 from2 (Some msg) True) s = (t, None) \<and>
    esent t = esent s @ [(conn, reply)] \<and> econns t = econns s - {conn} \<and>
    epoll_client_main sock True True (Some reply) to1 from1 pid =
      \<lparr>ecout = ''client_pid '' @ fmt_d pid @ '' send to server msg: '' @ fmt_d pid @ newline @
         ''client_pid '' @ fmt_d pid @ '' received from server msg: '' @ tagged server_pid (fmt_d pid) @ newline,
       ecsent = Some msg, ecend = Exit 0\<rparr>"
proof -
  let ?to = "to1[BUFF_SIZE - 1 := NUL]" and ?from = "from1[BUFF_SIZE - 1 := NUL]"
  obtain msg where msg: "sprintf_buf ?to (fmt_d pid) = Inr msg" "length msg = BUFF_SIZE" "cstr msg = fmt_d pid" "NUL \<in> set msg"
    using sprintf_buf_fits [of "fmt_d pid" ?to] pid_length [OF assms(1,2)] assms(6)
    by (simp add: BUFF_SIZE_def cstr_terminated)
  define reply where "reply = reply_bytes server_pid to2 (fmt_d pid)"
  have short: "length (tagged server_pid (fmt_d pid)) < BUFF_SIZE"
    using pid_length [OF assms(1,2)] pid_length [OF assms(3,4)] by (simp add: tagged_def BUFF_SIZE_def)
  have good: "good_event server_pid (Readable conn to2 from2 (Some msg) True)"
    using msg short assms(8,9) by simp
  have reply: "length reply = BUFF_SIZE" "cstr reply = tagged server_pid (fmt_d pid)"
    using sprintf_tagged [OF assms(8) short fmt_d_no_nul] by (simp_all add: reply_def)
  have "NUL \<in> set reply" by (simp add: reply_def reply_bytes_def)
  then have "c_string (recv_buf ?from reply) = Inr (tagged server_pid (fmt_d pid))"
    using c_string_received [of reply ?from] reply assms(7) by simp
  then show ?thesis
    using handle_good [OF good, of s] msg assms(5)
    by (auto simp: epoll_client_main_def Let_def reply_def)
qed

theorem epoll_exchange_witness:
  "\<exists>msg reply t. ecsent (epoll_client_main 3 True True None (replicate 32 NUL) (replicate 32 NUL) 7) = Some msg \<and>
    handle_ready 5 (Readable 8 (replicate 32 NUL) (replicate 32 NUL) (Some msg) True)
      \<lparr>elisten = True, econns = {8}, eout = [], esent = []\<rparr> = (t, None) \<and>
    esent t = [(8, reply)] \<and> econns t = {} \<and>
    ecend (epoll_client_main 3 True True (Some reply) (replicate 32 NUL) (replicate 32 NUL) 7) = Exit 0"
  using epoll_exchange [of 7 5 3 "replicate 32 NUL" "replicate 32 NUL" "replicate 32 NUL" "replicate 32 NUL" 8
      "\<lparr>elisten = True, econns = {8}, eout = [], esent = []\<rparr>"]
  by (fastforce simp: BUFF_SIZE_def)

text \<open>
  A terminated message that is too long to be answered makes the server write outside its
  buffer, exactly if the message, the process id and the separator do not fit; 32 bytes without a
  terminator make it read outside its buffer.
\<close>

theorem epoll_overflow:
  assumes "length to2 = BUFF_SIZE" "length from2 = BUFF_SIZE" "length bs \<le> BUFF_SIZE" "bs \<noteq> []"
    and "NUL \<in> set bs \<or> length bs = BUFF_SIZE"
  shows "snd (handle_ready pid (Readable conn to2 from2 (Some bs) True) s) =
    (if NUL \<in> set bs \<and> length (fmt_d pid) + 1 + length (cstr bs) < BUFF_SIZE then None else Some OutOfBounds)"
proof (cases "NUL \<in> set bs")
  case True
  have "c_string (recv_buf (from2[BUFF_SIZE - 1 := NUL]) bs) = Inr (cstr bs)"
    using True assms(2,3) by (intro c_string_received) simp_all
  with True assms show ?thesis
    by (auto simp: handle_ready_def serve_conn_def Let_def eprint_def sprintf_buf_def tagged_def)
next
  case False
  with assms have "recv_buf (from2[BUFF_SIZE - 1 := NUL]) bs = bs"
    using recv_buf_fits [of bs "from2[BUFF_SIZE - 1 := NUL]"] by simp
  with False assms(4) show ?thesis
    by (simp add: handle_ready_def serve_conn_def Let_def c_string_def)
qed

theorem epoll_overflow_witness:
  "snd (handle_ready 5 (Readable 8 (replicate 32 NUL) (replicate 32 NUL) (Some (replicate 30 CHR ''7'' @ [NUL])) True)
      \<lparr>elisten = True, econns = {8}, eout = [], esent = []\<rparr>) = Some OutOfBounds"
proof -
  have "length (fmt_d 5) = 1" by (simp add: fmt_d_def digits.simps)
  moreover have "length (cstr (replicate 30 CHR ''7'' @ [NUL])) = 30"
    using cstr_terminated [of "replicate 30 CHR ''7''" "[]"] by (simp add: no_nul_def)
  ultimately show ?thesis
    using epoll_overflow [of "replicate 32 NUL" "replicate 32 NUL" "replicate 30 CHR ''7'' @ [NUL]" 5 8]
    by (simp add: BUFF_SIZE_def)
qed

end
