(* ===== verification/Socket_Pair.thy ===== *)
theory Socket_Pair
  imports Char_Buffers
begin

text \<open>
  Two processes that exchange a message over a pair of connected sockets,
  \<^verbatim>\<open>2/paired-sockets/main.c\<close>. After \<^verbatim>\<open>fork\<close> the processes run in any order; a process is a program
  counter and the bytes it works on, and each call that the other process can observe is a step.
  The sockets are two byte streams; \<^verbatim>\<open>read\<close> waits for bytes while the other end is open. The pauses
  of the source only make some orders likely; here all orders are possible.
\<close>

section \<open>The processes\<close>

definition messages :: "string list" where "messages = [''ayyyyyyyy'', ''zzzzzzzz'']"

text \<open>
  How the child has ended, as \<^verbatim>\<open>waitpid\<close> reports it: with a status, or by a signal. (The third case of
  the source, a stopped child, is reported only under an option the program does not give.)
\<close>

datatype wait_status = W_Exited int | W_Signaled int | W_Stopped int

datatype child_pc = C_Write | C_Printed | C_Read | C_Close | C_Exited | C_Killed int
datatype parent_pc = P_Read | P_Write | P_Close | P_Wait | P_Report wait_status | P_Done

record pair_state =
  cpid :: int               \<comment> \<open>the child's process id, which the parent has from \<^verbatim>\<open>fork\<close>\<close>
  child :: child_pc
  parent :: parent_pc
  to_parent :: "char list"  \<comment> \<open>written to \<^verbatim>\<open>sockets[0]\<close>, read from \<^verbatim>\<open>sockets[1]\<close>\<close>
  to_child :: "char list"
  child_buf :: "char list"
  parent_buf :: "char list"
  child_out :: "string list"
  parent_out :: "string list"

text \<open>
  \<^verbatim>\<open>read\<close> of up to \<open>n\<close> bytes into a buffer; \<open>None\<close> if the stream is empty and can still be written to.
\<close>

definition read_stream :: "nat \<Rightarrow> bool \<Rightarrow> char list \<Rightarrow> char list \<Rightarrow> (char list \<times> char list) option" where
  "read_stream n writable stream buf =
     (if stream = [] \<and> writable then None
      else Some (drop n stream, recv_buf buf (take n stream)))"

text \<open>What the processes print in front of a message (without the newline).\<close>

definition child_says :: "int \<Rightarrow> string \<Rightarrow> string" where
  "child_says pid what = ''Child (pid: '' @ fmt_d pid @ '')   '' @ what"

definition parent_says :: "string \<Rightarrow> string" where
  "parent_says what = ''Parent               '' @ what"

text \<open>The bytes of a message with its terminator.\<close>

definition packet :: "nat \<Rightarrow> char list" where
  "packet i = messages ! i @ [NUL]"

text \<open>
  The child: \<^verbatim>\<open>write\<close> and \<^verbatim>\<open>printf\<close>, \<^verbatim>\<open>read\<close> and \<^verbatim>\<open>printf\<close>, \<^verbatim>\<open>close\<close> and \<^verbatim>\<open>exit(0)\<close>. Both descriptors
  stay open in the parent until it closes them, so a read of the child waits until then.
\<close>

definition parent_open :: "parent_pc \<Rightarrow> bool" where
  "parent_open p \<longleftrightarrow> p = P_Read \<or> p = P_Write \<or> p = P_Close"

definition child_step :: "pair_state \<Rightarrow> pair_state option" where
  "child_step s =
     (case child s of
        C_Write \<Rightarrow> Some (s\<lparr>to_parent := to_parent s @ packet 0, child := C_Printed\<rparr>)
      | C_Printed \<Rightarrow> Some (s\<lparr>child_out := child_out s @ [child_says (cpid s) (''send: '' @ messages ! 0)], child := C_Read\<rparr>)
      | C_Read \<Rightarrow>
        (case read_stream (length (messages ! 1) + 1) (parent_open (parent s)) (to_child s) (child_buf s) of
           None \<Rightarrow> None
         | Some (stream, buf) \<Rightarrow>
           Some (s\<lparr>to_child := stream, child_buf := buf, child_out := child_out s @ [child_says (cpid s) (''receive: '' @ cstr buf)], child := C_Close\<rparr>))
      | C_Close \<Rightarrow> Some (s\<lparr>child := C_Exited\<rparr>)
      | C_Exited \<Rightarrow> None
      | C_Killed _ \<Rightarrow> None)"

text \<open>
  The parent: \<^verbatim>\<open>read\<close> and \<^verbatim>\<open>printf\<close>, \<^verbatim>\<open>write\<close> and \<^verbatim>\<open>printf\<close>, the two \<^verbatim>\<open>close\<close>, \<^verbatim>\<open>waitpid\<close>, and the report of the
  status. It holds both ends itself, so its read waits as long as there is nothing to read.
\<close>

fun report :: "int \<Rightarrow> wait_status \<Rightarrow> string" where
  "report pid (W_Exited code) = child_says pid (''exited with code '' @ fmt_d code)"
| "report pid (W_Signaled sig) = child_says pid (''received signal '' @ fmt_d sig)"
| "report pid (W_Stopped sig) = child_says pid (''received signal '' @ fmt_d sig)"

definition parent_step :: "pair_state \<Rightarrow> pair_state option" where
  "parent_step s =
     (case parent s of
        P_Read \<Rightarrow>
        (case read_stream (length (messages ! 0) + 1) True (to_parent s) (parent_buf s) of
           None \<Rightarrow> None
         | Some (stream, buf) \<Rightarrow>
           Some (s\<lparr>to_parent := stream, parent_buf := buf, parent_out := parent_out s @ [parent_says (''receive: '' @ cstr buf)], parent := P_Write\<rparr>))
      | P_Write \<Rightarrow>
        Some (s\<lparr>to_child := to_child s @ packet 1, parent_out := parent_out s @ [parent_says (''send: '' @ messages ! 1)], parent := P_Close\<rparr>)
      | P_Close \<Rightarrow> Some (s\<lparr>parent := P_Wait\<rparr>)
      | P_Wait \<Rightarrow>
        (case child s of
           C_Exited \<Rightarrow> Some (s\<lparr>parent := P_Report (W_Exited 0)\<rparr>)
         | C_Killed sig \<Rightarrow> Some (s\<lparr>parent := P_Report (W_Signaled sig)\<rparr>)
         | _ \<Rightarrow> None)
      | P_Report status \<Rightarrow> Some (s\<lparr>parent_out := parent_out s @ [report (cpid s) status], parent := P_Done\<rparr>)
      | P_Done \<Rightarrow> None)"

inductive pair_step :: "pair_state \<Rightarrow> pair_state \<Rightarrow> bool" where
  by_child: "child_step s = Some t \<Longrightarrow> pair_step s t"
| by_parent: "parent_step s = Some t \<Longrightarrow> pair_step s t"

inductive_cases pair_stepE: "pair_step s t"

text \<open>A signal that ends the child wherever it is; its descriptors are closed.\<close>

definition kill_child :: "int \<Rightarrow> pair_state \<Rightarrow> pair_state" where
  "kill_child sig s = s\<lparr>child := C_Killed sig\<rparr>"

text \<open>After \<^verbatim>\<open>fork\<close>: each process has a copy of the uninitialised buffer.\<close>

definition after_fork :: "int \<Rightarrow> char list \<Rightarrow> pair_state" where
  "after_fork pid junk = \<lparr>cpid = pid, child = C_Write, parent = P_Read, to_parent = [], to_child = [], child_buf = junk, parent_buf = junk,
     child_out = [], parent_out = []\<rparr>"

definition pair_init :: "pair_state \<Rightarrow> bool" where
  "pair_init s \<longleftrightarrow> (\<exists>pid junk. length junk = 32 \<and> s = after_fork pid junk)"

text \<open>Before: \<^verbatim>\<open>socketpair\<close> and \<^verbatim>\<open>fork\<close> can fail, with status 1.\<close>

definition pair_start :: "bool \<Rightarrow> bool \<Rightarrow> int \<Rightarrow> char list \<Rightarrow> fault + pair_state" where
  "pair_start socketpair_ok fork_ok pid junk =
     (if \<not> socketpair_ok then Inl (Exit 1) else if \<not> fork_ok then Inl (Exit 1) else Inr (after_fork pid junk))"

section \<open>The invariant\<close>

text \<open>What each process has printed at each of its points.\<close>

fun child_log :: "int \<Rightarrow> child_pc \<Rightarrow> string list" where
  "child_log pid C_Write = []"
| "child_log pid C_Printed = []"
| "child_log pid C_Read = [child_says pid (''send: '' @ messages ! 0)]"
| "child_log pid _ = [child_says pid (''send: '' @ messages ! 0), child_says pid (''receive: '' @ messages ! 1)]"

fun parent_log :: "int \<Rightarrow> parent_pc \<Rightarrow> string list" where
  "parent_log pid P_Read = []"
| "parent_log pid P_Write = [parent_says (''receive: '' @ messages ! 0)]"
| "parent_log pid P_Done = [parent_says (''receive: '' @ messages ! 0), parent_says (''send: '' @ messages ! 1),
     report pid (W_Exited 0)]"
| "parent_log pid _ = [parent_says (''receive: '' @ messages ! 0), parent_says (''send: '' @ messages ! 1)]"

text \<open>Which processes can be at which points together, and what is in the streams then.\<close>

definition received :: "parent_pc \<Rightarrow> bool" where "received p \<longleftrightarrow> p \<noteq> P_Read"
definition replied :: "parent_pc \<Rightarrow> bool" where "replied p \<longleftrightarrow> p \<noteq> P_Read \<and> p \<noteq> P_Write"
definition finished :: "child_pc \<Rightarrow> bool" where "finished c \<longleftrightarrow> c = C_Close \<or> c = C_Exited"

definition pair_inv :: "pair_state \<Rightarrow> bool" where
  "pair_inv s \<longleftrightarrow>
     child_out s = child_log (cpid s) (child s) \<and> parent_out s = parent_log (cpid s) (parent s) \<and>
     length (child_buf s) = 32 \<and> length (parent_buf s) = 32 \<and>
     to_parent s = (if child s = C_Write \<or> received (parent s) then [] else packet 0) \<and>
     to_child s = (if replied (parent s) \<and> \<not> finished (child s) then packet 1 else []) \<and>
     (received (parent s) \<longrightarrow> child s \<noteq> C_Write) \<and>
     (finished (child s) \<longrightarrow> replied (parent s)) \<and> (\<forall>sig. child s \<noteq> C_Killed sig) \<and>
     (case parent s of P_Report status \<Rightarrow> status = W_Exited 0 \<and> child s = C_Exited | P_Done \<Rightarrow> child s = C_Exited | _ \<Rightarrow> True)"

lemma read_packet:
  assumes "i < 2" "length buf = 32"
  shows "\<exists>buf'. read_stream (length (messages ! i) + 1) w (packet i) buf = Some ([], buf') \<and>
    length buf' = 32 \<and> cstr buf' = messages ! i"
proof -
  have m: "messages ! i = ''ayyyyyyyy'' \<or> messages ! i = ''zzzzzzzz''"
    using assms(1) by (auto simp: messages_def less_2_cases_iff)
  then have nn: "no_nul (messages ! i)" and len: "length (messages ! i) + 1 \<le> 32" by (auto simp: no_nul_def)
  have "recv_buf buf (packet i) = messages ! i @ NUL # drop (length (packet i)) buf"
    using len assms(2) recv_buf_fits [of "packet i" buf] by (simp add: packet_def)
  then show ?thesis
    using nn len assms(2) by (simp add: read_stream_def packet_def cstr_terminated)
qed

lemma read_nothing: "read_stream n True [] buf = None"
  by (simp add: read_stream_def)

lemmas pair_inv_simps = pair_inv_def received_def replied_def finished_def parent_open_def

lemma child_step_inv:
  assumes inv: "pair_inv s" and "child_step s = Some t"
  shows "pair_inv t"
proof -
  note step = assms(2) [unfolded child_step_def]
  show ?thesis
proof (cases "child s")
  case C_Read
  have "replied (parent s)"
  proof (rule ccontr)
    assume "\<not> replied (parent s)"
    then have "to_child s = []" "parent_open (parent s)"
      using inv by (auto simp: pair_inv_def replied_def parent_open_def)
    with step C_Read show False by (simp add: read_nothing)
  qed
  with inv C_Read have "to_child s = packet 1" by (simp add: pair_inv_def finished_def)
  moreover obtain buf where
    "read_stream (length (messages ! 1) + 1) (parent_open (parent s)) (packet 1) (child_buf s) = Some ([], buf)"
    "length buf = 32" "cstr buf = messages ! 1"
    using read_packet [of 1 "child_buf s"] inv by (auto simp: pair_inv_def)
  ultimately have "t = s\<lparr>to_child := [], child_buf := buf, child_out := child_out s @ [child_says (cpid s) (''receive: '' @ messages ! 1)], child := C_Close\<rparr>"
    using step C_Read by simp
  then show ?thesis
    using inv C_Read \<open>replied (parent s)\<close> \<open>length buf = 32\<close>
    by (auto simp: pair_inv_def finished_def split: parent_pc.splits)
next
  case C_Write
  with step have t: "t = s\<lparr>to_parent := to_parent s @ packet 0, child := C_Printed\<rparr>" by simp
  show ?thesis using inv C_Write unfolding t
    by (cases "parent s") (simp_all add: pair_inv_simps)
next
  case C_Printed
  with step have t: "t = s\<lparr>child_out := child_out s @ [child_says (cpid s) (''send: '' @ messages ! 0)], child := C_Read\<rparr>" by simp
  show ?thesis using inv C_Printed unfolding t
    by (cases "parent s") (simp_all add: pair_inv_simps)
next
  case C_Close
  with step have t: "t = s\<lparr>child := C_Exited\<rparr>" by simp
  show ?thesis using inv C_Close unfolding t
    by (cases "parent s") (simp_all add: pair_inv_simps)
qed (use step in simp_all)
qed

lemma parent_step_inv:
  assumes inv: "pair_inv s" and "parent_step s = Some t"
  shows "pair_inv t"
proof -
  note step = assms(2) [unfolded parent_step_def]
  show ?thesis
proof (cases "parent s")
  case P_Read
  have "child s \<noteq> C_Write"
  proof
    assume "child s = C_Write"
    then have "to_parent s = []" using inv by (simp add: pair_inv_def)
    with step P_Read show False by (simp add: read_nothing)
  qed
  with inv P_Read have "to_parent s = packet 0" by (simp add: pair_inv_def received_def)
  moreover obtain buf where
    "read_stream (length (messages ! 0) + 1) True (packet 0) (parent_buf s) = Some ([], buf)"
    "length buf = 32" "cstr buf = messages ! 0"
    using read_packet [of 0 "parent_buf s"] inv by (auto simp: pair_inv_def)
  ultimately have "t = s\<lparr>to_parent := [], parent_buf := buf, parent_out := parent_out s @ [parent_says (''receive: '' @ messages ! 0)], parent := P_Write\<rparr>"
    using step P_Read by simp
  then show ?thesis
    using inv P_Read \<open>child s \<noteq> C_Write\<close> \<open>length buf = 32\<close>
    by (auto simp: pair_inv_simps)
next
  case P_Write
  with step have t: "t = s\<lparr>to_child := to_child s @ packet 1, parent_out := parent_out s @ [parent_says (''send: '' @ messages ! 1)],
      parent := P_Close\<rparr>" by simp
  show ?thesis using inv P_Write unfolding t
    by (cases "child s") (simp_all add: pair_inv_simps)
next
  case P_Close
  with step have t: "t = s\<lparr>parent := P_Wait\<rparr>" by simp
  show ?thesis using inv P_Close unfolding t
    by (cases "child s") (simp_all add: pair_inv_simps)
next
  case P_Wait
  with step inv have t: "t = s\<lparr>parent := P_Report (W_Exited 0)\<rparr>" "child s = C_Exited"
    by (auto simp: pair_inv_def split: child_pc.splits)
  show ?thesis using inv P_Wait t(2) unfolding t(1) by (simp add: pair_inv_simps)
next
  case (P_Report status)
  with step have t: "t = s\<lparr>parent_out := parent_out s @ [report (cpid s) status], parent := P_Done\<rparr>" by simp
  show ?thesis using inv P_Report unfolding t by (auto simp: pair_inv_simps)
qed (use step in simp_all)
qed

interpretation pair: step_invariant pair_init pair_step pair_inv
proof
  fix s assume "pair_init s"
  then show "pair_inv s" by (auto simp: pair_init_def after_fork_def pair_inv_simps)
next
  fix s t assume "pair_inv s" "pair_step s t"
  then show "pair_inv t" by (auto elim!: pair_stepE intro: child_step_inv parent_step_inv)
qed

section \<open>Progress\<close>

fun child_left :: "child_pc \<Rightarrow> nat" where
  "child_left C_Write = 4" | "child_left C_Printed = 3" | "child_left C_Read = 2" | "child_left C_Close = 1" | "child_left C_Exited = 0"
| "child_left (C_Killed _) = 0"

fun parent_left :: "parent_pc \<Rightarrow> nat" where
  "parent_left P_Read = 5" | "parent_left P_Write = 4" | "parent_left P_Close = 3" | "parent_left P_Wait = 2"
| "parent_left (P_Report _) = 1" | "parent_left P_Done = 0"

definition steps_left :: "pair_state \<Rightarrow> nat" where
  "steps_left s = child_left (child s) + parent_left (parent s)"

lemma child_step_left: "child_step s = Some t \<Longrightarrow> Suc (child_left (child t)) = child_left (child s) \<and> parent t = parent s \<and> cpid t = cpid s"
  by (cases "child s") (auto simp: child_step_def split: option.splits)

lemma parent_step_left: "parent_step s = Some t \<Longrightarrow> Suc (parent_left (parent t)) = parent_left (parent s) \<and> child t = child s \<and> cpid t = cpid s"
  by (cases "parent s") (auto simp: parent_step_def split: option.splits child_pc.splits)

lemma pair_step_left: "pair_step s t \<Longrightarrow> Suc (steps_left t) = steps_left s \<and> cpid t = cpid s"
  by (erule pair_stepE) (auto simp: steps_left_def dest: child_step_left parent_step_left)

lemma child_not_stuck:
  "child_step s = None \<longleftrightarrow> child s = C_Exited \<or> (\<exists>sig. child s = C_Killed sig) \<or> child s = C_Read \<and> to_child s = [] \<and> parent_open (parent s)"
  by (cases "child s") (auto simp: child_step_def read_stream_def split: if_splits)

lemma parent_not_stuck:
  "parent_step s = None \<longleftrightarrow> parent s = P_Done \<or> parent s = P_Read \<and> to_parent s = [] \<or> parent s = P_Wait \<and> child s \<noteq> C_Exited \<and> (\<forall>sig. child s \<noteq> C_Killed sig)"
  by (cases "parent s") (auto simp: parent_step_def read_stream_def split: if_splits child_pc.splits)

text \<open>The two processes never wait for each other.\<close>

lemma pair_progress:
  assumes "pair_inv s" "parent s \<noteq> P_Done"
  shows "\<exists>t. pair_step s t"
proof (rule ccontr)
  assume "\<not> ?thesis"
  then have "child_step s = None" "parent_step s = None"
    using by_child by_parent by (metis option.exhaust)+
  then show False
    using assms unfolding child_not_stuck parent_not_stuck
    by (auto simp: pair_inv_simps packet_def split: if_splits)
qed

lemma pair_terminates:
  assumes "pair_inv s"
  shows "\<exists>t. (pair_step ^^ steps_left s) s t \<and> steps_left t = 0"
  using assms
proof (induction "steps_left s" arbitrary: s)
  case 0
  then show ?case by (auto intro!: exI [of _ s])
next
  case (Suc n)
  have "parent s \<noteq> P_Done"
  proof
    assume d: "parent s = P_Done"
    with Suc.prems have "child s = C_Exited" by (simp add: pair_inv_def)
    with d Suc.hyps(2) show False by (simp add: steps_left_def)
  qed
  with pair_progress [OF Suc.prems] obtain t where t: "pair_step s t" by blast
  from pair_step_left [OF this, THEN conjunct1] Suc.hyps(2) have n: "n = steps_left t" by simp
  from Suc.hyps(1) [OF n pair.step_inv [OF Suc.prems t]] obtain u where
    "(pair_step ^^ n) t u" "steps_left u = 0" unfolding n by blast
  with t Suc.hyps(2) show ?case by (metis relpowp_Suc_I2)
qed

lemma steps_counted: "(pair_step ^^ n) s t \<Longrightarrow> n + steps_left t = steps_left s \<and> cpid t = cpid s"
proof (induction n arbitrary: t)
  case (Suc n)
  then obtain u where u: "(pair_step ^^ n) s u" "pair_step u t" by auto
  from Suc.IH [OF u(1)] pair_step_left [OF u(2)] show ?case by simp
qed simp

lemma run_reachable: "(pair_step ^^ n) s t \<Longrightarrow> reachable pair_init pair_step s \<Longrightarrow> reachable pair_init pair_step t"
  by (rule reachable_steps) (rule relpowp_imp_rtranclp)

lemma fork_reachable: "length junk = 32 \<Longrightarrow> reachable pair_init pair_step (after_fork pid junk)"
  by (rule reach_init) (auto simp: pair_init_def)

lemma all_done: "pair_inv s \<Longrightarrow> parent s = P_Done \<longleftrightarrow> steps_left s = 0"
  by (cases "parent s"; cases "child s") (auto simp: pair_inv_def steps_left_def)

section \<open>A killed child\<close>

definition killed_inv :: "int \<Rightarrow> int \<Rightarrow> pair_state \<Rightarrow> bool" where
  "killed_inv pid sig s \<longleftrightarrow> cpid s = pid \<and> child s = C_Killed sig \<and> length (parent_buf s) = 32 \<and>
     (parent s = P_Read \<longrightarrow> to_parent s = packet 0) \<and>
     (\<forall>status. parent s = P_Report status \<longrightarrow> status = W_Signaled sig) \<and>
     (parent s = P_Done \<longrightarrow> parent_out s \<noteq> [] \<and> last (parent_out s) = report pid (W_Signaled sig))"

lemma killed_step:
  assumes "killed_inv pid sig s" "parent s \<noteq> P_Done"
  shows "\<exists>t. pair_step s t" and "pair_step s t \<Longrightarrow> killed_inv pid sig t \<and> Suc (parent_left (parent t)) = parent_left (parent s)"
proof -
  have inv: "child s = C_Killed sig" "length (parent_buf s) = 32" "cpid s = pid"
    "parent s = P_Read \<Longrightarrow> to_parent s = packet 0" "\<And>status. parent s = P_Report status \<Longrightarrow> status = W_Signaled sig"
    using assms(1) by (auto simp: killed_inv_def)
  obtain buf where buf: "read_stream (length (messages ! 0) + 1) True (packet 0) (parent_buf s) = Some ([], buf)" "length buf = 32"
    using read_packet [of 0 "parent_buf s"] inv(2) by auto
  have "\<exists>t. parent_step s = Some t \<and> killed_inv pid sig t"
    using inv buf assms(2) by (cases "parent s") (auto simp: parent_step_def killed_inv_def)
  then obtain u where u: "parent_step s = Some u" "killed_inv pid sig u" by blast
  then show "\<exists>t. pair_step s t" using by_parent by blast
  assume "pair_step s t"
  then have "parent_step s = Some t" using inv(1) by (auto elim!: pair_stepE simp: child_step_def)
  with u parent_step_left [of s t] show "killed_inv pid sig t \<and> Suc (parent_left (parent t)) = parent_left (parent s)" by simp
qed

lemma killed_run:
  "(pair_step ^^ m) s t \<Longrightarrow> killed_inv pid sig s \<Longrightarrow> killed_inv pid sig t \<and> m + parent_left (parent t) = parent_left (parent s)"
proof (induction m arbitrary: t)
  case (Suc m)
  then obtain u where u: "(pair_step ^^ m) s u" "pair_step u t" by auto
  from Suc.IH [OF u(1) Suc.prems(2)] have k: "killed_inv pid sig u" "m + parent_left (parent u) = parent_left (parent s)" by simp_all
  have "parent u \<noteq> P_Done"
  proof
    assume "parent u = P_Done"
    with u(2) k(1) show False by (auto elim!: pair_stepE simp: child_step_def parent_step_def killed_inv_def)
  qed
  with killed_step(2) [OF k(1) _ u(2)] k(2) show ?case by simp
qed simp

lemma parent_left_0: "parent_left p = 0 \<longleftrightarrow> p = P_Done"
  by (cases p) simp_all

section \<open>Properties\<close>

text \<open>
  C11: In whatever order the two processes run after \<^verbatim>\<open>fork\<close>, they end after nine steps and never wait for each
  other before: each prints the message of the other in full, and the parent reports that the
  child has ended with status 0.
\<close>

theorem pair_exchange:
  assumes "length junk = 32" "(pair_step ^^ n) (after_fork pid junk) s"
  shows "n \<le> 9 \<and> (n < 9 \<longleftrightarrow> (\<exists>t. pair_step s t)) \<and>
    (n = 9 \<longrightarrow> child_out s = [child_says pid ''send: ayyyyyyyy'', child_says pid ''receive: zzzzzzzz''] \<and>
      parent_out s = [parent_says ''receive: ayyyyyyyy'', parent_says ''send: zzzzzzzz'', child_says pid ''exited with code 0''])"
proof -
  have inv: "pair_inv s"
    using run_reachable [OF assms(2) fork_reachable [OF assms(1)]] by (rule pair.reachable_inv)
  have count: "n + steps_left s = 9" "cpid s = pid"
    using steps_counted [OF assms(2)] by (simp_all add: after_fork_def steps_left_def)
  have stop: "\<not> pair_step s t" if "steps_left s = 0" for t
    using that pair_step_left [of s t] by auto
  have "fmt_d 0 = ''0''" by (simp add: fmt_d_def digits.simps)
  then have out: "child_out s = [child_says pid ''send: ayyyyyyyy'', child_says pid ''receive: zzzzzzzz''] \<and>
      parent_out s = [parent_says ''receive: ayyyyyyyy'', parent_says ''send: zzzzzzzz'', child_says pid ''exited with code 0'']" if "parent s = P_Done"
    using inv that count(2) by (simp add: pair_inv_def messages_def)
  show ?thesis
    using count pair_progress [OF inv] all_done [OF inv] stop out by auto
qed

theorem pair_exchange_witness:
  "\<exists>s. (pair_step ^^ 9) (after_fork 7 (replicate 32 NUL)) s \<and> child_out s = [child_says 7 ''send: ayyyyyyyy'', child_says 7 ''receive: zzzzzzzz'']"
proof -
  let ?s = "after_fork 7 (replicate 32 NUL)"
  have "steps_left ?s = 9" by (simp add: after_fork_def steps_left_def)
  moreover have "pair_inv ?s" by (rule pair.init_inv) (unfold pair_init_def, intro exI [of _ 7] exI [of _ "replicate 32 NUL"], simp)
  ultimately obtain t where "(pair_step ^^ 9) ?s t" using pair_terminates [of ?s] by auto
  then show ?thesis using pair_exchange [of "replicate 32 NUL" 9 7 t] by auto
qed


text \<open>
  C23: A signal that ends the child. Before the child has written, its end leaves the parent waiting
  for ever: the parent holds both ends of the pair itself, so its \<^verbatim>\<open>read\<close> never sees the end of the stream. At any later point
  the parent goes on, never waits, and ends by reporting the signal.
\<close>

theorem pair_killed:
  assumes "reachable pair_init pair_step s" "child s \<noteq> C_Exited"
  shows "(child s = C_Write \<longrightarrow> parent s = P_Read \<and> (\<forall>t. \<not> pair_step (kill_child sig s) t)) \<and>
    (child s \<noteq> C_Write \<longrightarrow> (\<forall>m t. (pair_step ^^ m) (kill_child sig s) t \<longrightarrow> (parent t \<noteq> P_Done \<longrightarrow> (\<exists>u. pair_step t u)) \<and>
      (parent t = P_Done \<longleftrightarrow> m = parent_left (parent s)) \<and>
      (parent t = P_Done \<longrightarrow> last (parent_out t) = child_says (cpid s) (''received signal '' @ fmt_d sig))))"
proof -
  have inv: "pair_inv s" using assms(1) by (rule pair.reachable_inv)
  have not_done: "parent s \<noteq> P_Done" "\<And>status. parent s \<noteq> P_Report status"
    using inv assms(2) by (auto simp: pair_inv_def)
  have "parent s = P_Read \<and> (\<forall>t. \<not> pair_step (kill_child sig s) t)" if "child s = C_Write"
  proof -
    have "parent s = P_Read" "to_parent s = []" using inv that by (auto simp: pair_inv_simps)
    then show ?thesis
      by (auto elim!: pair_stepE simp: kill_child_def child_step_def parent_step_def read_nothing)
  qed
  moreover have "(parent t \<noteq> P_Done \<longrightarrow> (\<exists>u. pair_step t u)) \<and> (parent t = P_Done \<longleftrightarrow> m = parent_left (parent s)) \<and>
      (parent t = P_Done \<longrightarrow> last (parent_out t) = child_says (cpid s) (''received signal '' @ fmt_d sig))"
    if "child s \<noteq> C_Write" "(pair_step ^^ m) (kill_child sig s) t" for m t
  proof -
    have "killed_inv (cpid s) sig (kill_child sig s)"
      using inv that(1) not_done by (auto simp: killed_inv_def kill_child_def pair_inv_def received_def)
    from killed_run [OF that(2) this] have k: "killed_inv (cpid s) sig t" "m + parent_left (parent t) = parent_left (parent s)"
      by (simp_all add: kill_child_def)
    have "m = parent_left (parent s) \<longleftrightarrow> parent_left (parent t) = 0" using k(2) by auto
    with k(1) killed_step(1) [OF k(1)] show ?thesis by (auto simp: parent_left_0 killed_inv_def)
  qed
  ultimately show ?thesis by blast
qed

theorem pair_killed_witness:
  "(\<forall>t. \<not> pair_step (kill_child 9 (after_fork 7 (replicate 32 NUL))) t) \<and>
   (\<exists>t. (pair_step ^^ 5) (kill_child 9 (the (child_step (after_fork 7 (replicate 32 NUL))))) t \<and> parent t = P_Done \<and>
     last (parent_out t) = child_says 7 (''received signal '' @ fmt_d 9))"
proof -
  let ?s = "after_fork 7 (replicate 32 NUL)"
  let ?k = "kill_child 9 (the (child_step ?s))"
  have r: "reachable pair_init pair_step ?s" by (rule fork_reachable) simp
  have c: "child_step ?s = Some (the (child_step ?s))" by (simp add: after_fork_def child_step_def)
  then have r': "reachable pair_init pair_step (the (child_step ?s))" by (intro reach_step [OF r]) (rule by_child)
  have p: "parent (the (child_step ?s)) = P_Read" "child (the (child_step ?s)) = C_Printed" "cpid (the (child_step ?s)) = 7"
    by (simp_all add: after_fork_def child_step_def)
  have "child ?s = C_Write" by (simp add: after_fork_def)
  note k = pair_killed [OF r, of 9] pair_killed [OF r', of 9] this p
  have go: "m < 5 \<Longrightarrow> (pair_step ^^ m) ?k t \<Longrightarrow> \<exists>u. pair_step t u" for m t using k by fastforce
  have "m \<le> 5 \<Longrightarrow> \<exists>t. (pair_step ^^ m) ?k t" for m
  proof (induction m)
    case 0
    then show ?case by simp
  next
    case (Suc m)
    then obtain t where "(pair_step ^^ m) ?k t" by auto
    with go [of m t] Suc.prems show ?case by (auto intro: relcompp.intros)
  qed
  then obtain t where "(pair_step ^^ 5) ?k t" by blast
  with k show ?thesis by fastforce
qed

end
