(* ===== verification/Modules.thy ===== *)
theory Modules
  imports Kernel_Calls
begin

text \<open>
  The three modules of \<^verbatim>\<open>5/interactive_module\<close>, two of which use data and a function of the first: their
  functions over the log and the exported variable of \<^verbatim>\<open>md1\<close>, which every use reads again. How the kernel loads and unloads
  them is not modelled here; Module_Versions takes the loader as an argument.
\<close>

section \<open>The modules\<close>

datatype module = Md1 | Md2 | Md3

text \<open>\<^verbatim>\<open>md1.c\<close>: \<^verbatim>\<open>md1_data\<close> can be written by every module that uses it; C's \<^verbatim>\<open>int\<close> is a word.\<close>

record modules = kmod +
  md1_data :: "32 word"

definition md1_func :: "modules \<Rightarrow> 32 word" where "md1_func s = md1_data s * 3"
definition md1_local :: "modules \<Rightarrow> 32 word" where "md1_local s = md1_data s * 3"
definition md1_noexport :: "modules \<Rightarrow> 32 word" where "md1_noexport s = md1_data s * 3"

text \<open>The value the variable has when the module has been brought into memory.\<close>

definition md1_image :: "modules \<Rightarrow> modules" where
  "md1_image s = s\<lparr>md1_data := 7\<rparr>"

definition md1_init :: "modules \<Rightarrow> modules \<times> int" where
  "md1_init s = (printk ''+ module md1 start!'' s, 0)"

definition md1_exit :: "modules \<Rightarrow> modules" where
  "md1_exit s = printk ''+ module md1 unloaded!'' s"

text \<open>\<^verbatim>\<open>md2.c\<close>\<close>

definition md2_init :: "modules \<Rightarrow> modules \<times> int" where
  "md2_init s =
     (let s = printk ''+ module md2 start!'' s;
          s = printk (''+ data number exported from md1 : '' @ fmt_d (sint (md1_data s))) s;
          s = printk (''+ number returned md1_proc() is : '' @ fmt_d (sint (md1_func s))) s in (s, 0))"

definition md2_exit :: "modules \<Rightarrow> modules" where
  "md2_exit s = printk ''+ module md2 unloaded!'' s"

text \<open>\<^verbatim>\<open>md3.c\<close>\<close>

definition md3_init :: "modules \<Rightarrow> modules \<times> int" where
  "md3_init s =
     (let s = printk ''+ module md3 start!'' s;
          s = printk (''+ data int exported from md1 : '' @ fmt_d (sint (md1_data s))) s;
          s = printk (''+ number returned md1_func() is : '' @ fmt_d (sint (md1_func s))) s in (s, 1))"

definition md3_exit :: "modules \<Rightarrow> modules" where
  "md3_exit s = printk ''+ module md3 unloaded!'' s"

text \<open>What runs when a module is brought in and when it is removed.\<close>

fun module_start :: "module \<Rightarrow> modules \<Rightarrow> modules \<times> int" where
  "module_start Md1 s = md1_init (md1_image s)"
| "module_start Md2 s = md2_init s"
| "module_start Md3 s = md3_init s"

fun module_exit :: "module \<Rightarrow> modules \<Rightarrow> modules" where
  "module_exit Md1 = md1_exit"
| "module_exit Md2 = md2_exit"
| "module_exit Md3 = md3_exit"

section \<open>What they log\<close>

fun start_lines :: "module \<Rightarrow> string list" where
  "start_lines Md1 = [''+ module md1 start!'']"
| "start_lines Md2 =
     [''+ module md2 start!'', ''+ data number exported from md1 : 7'', ''+ number returned md1_proc() is : 21'']"
| "start_lines Md3 =
     [''+ module md3 start!'', ''+ data int exported from md1 : 7'', ''+ number returned md1_func() is : 21'']"

fun exit_line :: "module \<Rightarrow> string" where
  "exit_line Md1 = ''+ module md1 unloaded!''"
| "exit_line Md2 = ''+ module md2 unloaded!''"
| "exit_line Md3 = ''+ module md3 unloaded!''"

lemma printk_module [simp]:
  "klog (printk m s) = klog s @ [m]" "md1_data (printk m s) = md1_data s" "md1_func (printk m s) = md1_func s"
  by (simp_all add: printk_def md1_func_def)

lemma values_of_md1: "fmt_d (sint (7 :: 32 word)) = ''7''" "fmt_d (sint (21 :: 32 word)) = ''21''"
  by (simp_all add: fmt_d_def digits.simps)

lemma md1_func_first: "md1_data s = 7 \<Longrightarrow> md1_func s = 21"
  by (simp add: md1_func_def)

text \<open>A user that starts while the variable has its first value logs that value and its threefold.\<close>

lemma module_start_data: "m = Md1 \<or> md1_data s = 7 \<Longrightarrow> md1_data (fst (module_start m s)) = 7"
  by (cases m) (auto simp: md1_init_def md1_image_def md2_init_def md3_init_def Let_def)

lemma module_start_result: "0 \<le> snd (module_start m s)"
  by (cases m) (simp_all add: md1_init_def md2_init_def md3_init_def Let_def)

lemma module_start_log:
  assumes "m = Md1 \<or> md1_data s = 7"
  shows "klog (fst (module_start m s)) = klog s @ start_lines m"
proof (cases m)
  case Md1
  then show ?thesis by (simp add: md1_init_def md1_image_def)
next
  case Md2
  with assms have "md1_data s = 7" by simp
  note v = this md1_func_first [OF this] values_of_md1
  show ?thesis
    unfolding Md2 module_start.simps md2_init_def Let_def fst_conv printk_module v start_lines.simps append_assoc append_Cons append_Nil ..
next
  case Md3
  with assms have "md1_data s = 7" by simp
  note v = this md1_func_first [OF this] values_of_md1
  show ?thesis
    unfolding Md3 module_start.simps md3_init_def Let_def fst_conv printk_module v start_lines.simps append_assoc append_Cons append_Nil ..
qed

lemma module_exit_log:
  "klog (module_exit m s) = klog s @ [exit_line m]" "md1_data (module_exit m s) = md1_data s"
  by (cases m; simp add: md1_exit_def md2_exit_def md3_exit_def)+

end
