(* ===== verification/Module_Versions.thy ===== *)
theory Module_Versions
  imports Modules
begin

text \<open>
  The module descriptions, \<^verbatim>\<open>*.mod.c\<close>, that were built beside the modules, and the list of exported
  symbols of \<^verbatim>\<open>5/interactive_module\<close>: each module lists the symbols it needs with a checksum of what they
  were when it was compiled. The kernel's loader is not part of the repository: it is an argument, with what its
  documentation says of it as a hypothesis. What follows from the tables is which modules can be loaded together, and
  what the interacting modules log.
\<close>

section \<open>The descriptions\<close>

text \<open>What the headers and the configuration of a build contribute.\<close>

record kbuild =
  vermagic_string :: string
  config_unload :: bool
  config_retpoline :: bool

record moddesc =
  d_vermagic :: string
  d_name :: string
  d_init :: string
  d_exit :: "string option"
  d_retpoline :: "string option"
  d_versions :: "(64 word \<times> string) list"
  d_depends :: string
  d_srcversion :: string

text \<open>The part that all descriptions share: \<^verbatim>\<open>KBUILD_MODNAME\<close> is the name of the file.\<close>

definition describe :: "kbuild \<Rightarrow> string \<Rightarrow> string \<Rightarrow> string \<Rightarrow> (64 word \<times> string) list \<Rightarrow> moddesc" where
  "describe b name deps src versions =
     \<lparr>d_vermagic = vermagic_string b, d_name = name, d_init = ''init_module'',
      d_exit = (if config_unload b then Some ''cleanup_module'' else None),
      d_retpoline = (if config_retpoline b then Some ''Y'' else None),
      d_versions = versions, d_depends = deps, d_srcversion = src\<rparr>"

text \<open>\<^verbatim>\<open>4/proc_info/md.mod.c\<close>\<close>

definition proc_info_mod_c :: "kbuild \<Rightarrow> moddesc" where
  "proc_info_mod_c b = describe b ''md'' [] ''3104C69EFF9A9C3D73B0147''
     [(0x6ad771c3, ''module_layout''), (0x5b8239ca, ''__x86_return_thunk''),
      (0xa22a96f7, ''current_task''), (0x92997ed8, ''_printk''), (0x84c49cc0, ''init_task''),
      (0xbdfb6dbb, ''__fentry__'')]"

text \<open>\<^verbatim>\<open>5/interactive_module/md1.mod.c\<close>\<close>

definition md1_mod_c :: "kbuild \<Rightarrow> moddesc" where
  "md1_mod_c b = describe b ''md1'' [] ''F2DBF551BD75751BE2FD924''
     [(0xdc658e53, ''module_layout''), (0x5b8239ca, ''__x86_return_thunk''), (0x92997ed8, ''_printk''),
      (0xbdfb6dbb, ''__fentry__'')]"

text \<open>\<^verbatim>\<open>5/interactive_module/md2.mod.c\<close>\<close>

definition md2_mod_c :: "kbuild \<Rightarrow> moddesc" where
  "md2_mod_c b = describe b ''md2'' ''md1'' ''AC450B0F312733E3FAE29E3''
     [(0xdc658e53, ''module_layout''), (0x5b8239ca, ''__x86_return_thunk''),
      (0x87b8b540, ''md1_func''), (0xb7ce2cbc, ''md1_data''), (0x92997ed8, ''_printk''),
      (0xbdfb6dbb, ''__fentry__'')]"

text \<open>\<^verbatim>\<open>5/interactive_module/md3.mod.c\<close>\<close>

definition md3_mod_c :: "kbuild \<Rightarrow> moddesc" where
  "md3_mod_c b = describe b ''md3'' ''md1'' ''94A1651E8742EB8FC700F1F''
     [(0xdc658e53, ''module_layout''), (0x5b8239ca, ''__x86_return_thunk''),
      (0x87b8b540, ''md1_func''), (0xb7ce2cbc, ''md1_data''), (0x92997ed8, ''_printk''),
      (0xbdfb6dbb, ''__fentry__'')]"

text \<open>\<^verbatim>\<open>6/fortunka/fortune.mod.c\<close>\<close>

definition fortune_mod_c :: "kbuild \<Rightarrow> moddesc" where
  "fortune_mod_c b = describe b ''fortune'' [] ''45E6EFA46AB30472231D34C''
     [(0xdc658e53, ''module_layout''), (0x3bdb9d4, ''proc_symlink''), (0xef2141dc, ''proc_create''),
      (0xa47006d6, ''proc_mkdir''), (0xd6ee688f, ''vmalloc''), (0x999e8297, ''vfree''),
      (0x953dead6, ''remove_proc_entry''), (0x6b10bee1, ''_copy_to_user''),
      (0x56470118, ''__warn_printk''), (0x656e4a6e, ''snprintf''), (0x13c49cc2, ''_copy_from_user''),
      (0x88db9f48, ''__check_object_size''), (0x5b8239ca, ''__x86_return_thunk''),
      (0x92997ed8, ''_printk''), (0xbdfb6dbb, ''__fentry__'')]"

text \<open>\<^verbatim>\<open>6/seq_files/seq_file.mod.c\<close>\<close>

definition seq_file_mod_c :: "kbuild \<Rightarrow> moddesc" where
  "seq_file_mod_c b = describe b ''seq_file'' [] ''9308B946E6D62977C8FE8A6''
     [(0xdc658e53, ''module_layout''), (0x3bdb9d4, ''proc_symlink''), (0xef2141dc, ''proc_create''),
      (0xa47006d6, ''proc_mkdir''), (0x953dead6, ''remove_proc_entry''),
      (0x5f8ff9eb, ''kmem_cache_alloc_trace''), (0xc1f15dee, ''kmalloc_caches''),
      (0x37a0cba, ''kfree''), (0x35a4e1df, ''seq_printf''), (0xf320177e, ''current_task''),
      (0x812650f9, ''seq_open''), (0x988f5ab6, ''seq_read''), (0xd6e4b68e, ''seq_lseek''),
      (0xd059e6e6, ''seq_release''), (0x5b8239ca, ''__x86_return_thunk''), (0x92997ed8, ''_printk''),
      (0xbdfb6dbb, ''__fentry__'')]"

text \<open>\<^verbatim>\<open>6/seq_files/single_file.mod.c\<close>\<close>

definition single_file_mod_c :: "kbuild \<Rightarrow> moddesc" where
  "single_file_mod_c b = describe b ''single_file'' [] ''0AC4C74FA68D02894F02A9E''
     [(0xdc658e53, ''module_layout''), (0x3bdb9d4, ''proc_symlink''), (0xef2141dc, ''proc_create''),
      (0xa47006d6, ''proc_mkdir''), (0xd6ee688f, ''vmalloc''), (0x999e8297, ''vfree''),
      (0x953dead6, ''remove_proc_entry''), (0xd0da656b, ''__stack_chk_fail''),
      (0xc3268051, ''get_pid_task''), (0x9e4e7c52, ''find_get_pid''), (0x35a4e1df, ''seq_printf''),
      (0x8c8569cb, ''kstrtoint''), (0x270732c4, ''single_open''), (0x988f5ab6, ''seq_read''),
      (0x13c49cc2, ''_copy_from_user''), (0x88db9f48, ''__check_object_size''),
      (0xd6e4b68e, ''seq_lseek''), (0x5b8239ca, ''__x86_return_thunk''), (0xd059e6e6, ''seq_release''),
      (0x92997ed8, ''_printk''), (0xbdfb6dbb, ''__fentry__'')]"

text \<open>\<^verbatim>\<open>7/vfs/main.mod.c\<close>\<close>

definition vfs_mod_c :: "kbuild \<Rightarrow> moddesc" where
  "vfs_mod_c b = describe b ''main'' [] ''1EDA847E58F8363925DB7DC''
     [(0xdc658e53, ''module_layout''), (0x468cde92, ''simple_lookup''),
      (0xf57e96f2, ''simple_statfs''), (0xc041efbd, ''generic_delete_inode''),
      (0x41d201cf, ''unregister_filesystem''), (0xe25442be, ''kmem_cache_free''),
      (0x8413ce25, ''kmem_cache_alloc''), (0x32308496, ''kmem_cache_destroy''),
      (0x42713f8c, ''kmem_cache_create_usercopy''), (0x37a0cba, ''kfree''),
      (0x5f8ff9eb, ''kmem_cache_alloc_trace''), (0xc1f15dee, ''kmalloc_caches''),
      (0xfadb228e, ''register_filesystem''), (0x115a3f2b, ''mount_nodev''), (0x7a58bfa0, ''dput''),
      (0xda01896d, ''shrink_dcache_parent''), (0xa9931e4f, ''d_genocide''),
      (0xaa361da5, ''d_make_root''), (0x7c07651, ''set_nlink''), (0xdaf121fb, ''current_time''),
      (0xd1e3a4cb, ''new_inode''), (0xd1d7002b, ''kill_anon_super''), (0x92997ed8, ''_printk''),
      (0x5b8239ca, ''__x86_return_thunk''), (0xbdfb6dbb, ''__fentry__'')]"

text \<open>\<^verbatim>\<open>5/interactive_module/Module.symvers\<close>; no other module exports a symbol.\<close>

definition md1_symvers :: "(64 word \<times> string) list" where
  "md1_symvers = [(0xb7ce2cbc, ''md1_data''), (0x87b8b540, ''md1_func'')]"

datatype kofile = Ko_proc_info | Ko_md1 | Ko_md2 | Ko_md3 | Ko_fortune | Ko_seq_file | Ko_single_file | Ko_vfs

fun description :: "kofile \<Rightarrow> kbuild \<Rightarrow> moddesc" where
  "description Ko_proc_info = proc_info_mod_c"
| "description Ko_md1 = md1_mod_c"
| "description Ko_md2 = md2_mod_c"
| "description Ko_md3 = md3_mod_c"
| "description Ko_fortune = fortune_mod_c"
| "description Ko_seq_file = seq_file_mod_c"
| "description Ko_single_file = single_file_mod_c"
| "description Ko_vfs = vfs_mod_c"

fun symvers :: "kofile \<Rightarrow> (64 word \<times> string) list" where
  "symvers Ko_md1 = md1_symvers"
| "symvers _ = []"

lemmas mod_c_defs = describe_def proc_info_mod_c_def md1_mod_c_def md2_mod_c_def md3_mod_c_def fortune_mod_c_def
  seq_file_mod_c_def single_file_mod_c_def vfs_mod_c_def

section \<open>What the loader is relied on for\<close>

text \<open>
  \<open>K\<close> are the symbols the kernel itself exports, with their checksums, and \<open>L\<close> the modules that are loaded. A symbol
  of a module is bound if the kernel or a loaded module exports it with the checksum the module lists.
\<close>

definition bound :: "(string \<rightharpoonup> 64 word) \<Rightarrow> kofile set \<Rightarrow> 64 word \<times> string \<Rightarrow> bool" where
  "bound K L = (\<lambda>(c, nm). K nm = Some c \<or> (\<exists>g\<in>L. (c, nm) \<in> set (symvers g)))"

definition exported :: "(string \<rightharpoonup> 64 word) \<Rightarrow> kofile set \<Rightarrow> string \<Rightarrow> bool" where
  "exported K L nm \<longleftrightarrow> K nm \<noteq> None \<or> (\<exists>g\<in>L. nm \<in> snd ` set (symvers g))"

text \<open>The conditions under which a module can be linked, and those under which it can be removed.\<close>

definition linkable :: "(string \<rightharpoonup> 64 word) \<Rightarrow> (kofile \<Rightarrow> kbuild) \<Rightarrow> kofile set \<Rightarrow> kofile \<Rightarrow> bool" where
  "linkable K b L f \<longleftrightarrow> d_name (description f (b f)) \<notin> (\<lambda>g. d_name (description g (b g))) ` L \<and>
     list_all (bound K L) (d_versions (description f (b f))) \<and>
     list_all (\<lambda>(c, nm). \<not> exported K L nm) (symvers f)"

definition uses :: "(kofile \<Rightarrow> kbuild) \<Rightarrow> kofile \<Rightarrow> kofile \<Rightarrow> bool" where
  "uses b g f \<longleftrightarrow> list_ex (\<lambda>(c, nm). nm \<in> snd ` set (symvers f)) (d_versions (description g (b g)))"

definition removable :: "(kofile \<Rightarrow> kbuild) \<Rightarrow> kofile set \<Rightarrow> kofile \<Rightarrow> bool" where
  "removable b L f \<longleftrightarrow> f \<in> L \<and> (\<forall>g\<in>L. \<not> uses b g f) \<and> d_exit (description f (b f)) \<noteq> None"

text \<open>
  The loader is an argument: \<open>ins\<close> loads a file, given what runs when it is brought in, \<open>rm\<close> removes one, given what
  runs then; both work on a state of the kernel, of which only the loaded modules \<open>mods\<close> are known, and on what the
  modules themselves keep. This is what \<^verbatim>\<open>init_module(2)\<close>, \<^verbatim>\<open>delete_module(2)\<close> and the kernel's documentation
  of module versioning (\<^verbatim>\<open>kbuild/modules\<close>) say of a kernel with \<^verbatim>\<open>CONFIG_MODVERSIONS\<close> on which nothing is forced:
  a file is loaded if it can be linked and the kernel \<open>accepts\<close> it for all other reasons (its
  version string, its signature, memory), but not kept if its initialisation returns a negative number (of a positive one it only warns); a
  module is removed if nothing uses it, it has an exit function and it is \<open>idle\<close>. Otherwise nothing happens.
\<close>

definition documented_loader ::
  "(string \<rightharpoonup> 64 word) \<Rightarrow> (kofile \<Rightarrow> kbuild) \<Rightarrow> ('k \<Rightarrow> kofile set) \<Rightarrow> (kofile \<Rightarrow> 'k \<Rightarrow> bool) \<Rightarrow> (kofile \<Rightarrow> 'k \<Rightarrow> bool) \<Rightarrow>
   (('s \<Rightarrow> 's \<times> int) \<Rightarrow> kofile \<Rightarrow> 'k \<times> 's \<Rightarrow> 'k \<times> 's) \<Rightarrow> (('s \<Rightarrow> 's) \<Rightarrow> kofile \<Rightarrow> 'k \<times> 's \<Rightarrow> 'k \<times> 's) \<Rightarrow> bool" where
  "documented_loader K b mods accepts idle ins rm \<longleftrightarrow>
     (\<forall>start f k s. mods (fst (ins start f (k, s))) =
        (if linkable K b (mods k) f \<and> accepts f k \<and> 0 \<le> snd (start s) then insert f (mods k) else mods k)) \<and>
     (\<forall>start f k s. snd (ins start f (k, s)) = (if linkable K b (mods k) f \<and> accepts f k then fst (start s) else s)) \<and>
     (\<forall>stop f k s. mods (fst (rm stop f (k, s))) = (if removable b (mods k) f \<and> idle f k then mods k - {f} else mods k)) \<and>
     (\<forall>stop f k s. snd (rm stop f (k, s)) = (if removable b (mods k) f \<and> idle f k then stop s else s))"

lemma loader_laws:
  assumes "documented_loader K b mods accepts idle ins rm"
  shows "mods (fst (ins start f (k, s))) =
      (if linkable K b (mods k) f \<and> accepts f k \<and> 0 \<le> snd (start s) then insert f (mods k) else mods k)"
    "snd (ins start f (k, s)) = (if linkable K b (mods k) f \<and> accepts f k then fst (start s) else s)"
    "mods (fst (rm stop f (k, s))) = (if removable b (mods k) f \<and> idle f k then mods k - {f} else mods k)"
    "snd (rm stop f (k, s)) = (if removable b (mods k) f \<and> idle f k then stop s else s)"
  using assms unfolding documented_loader_def by blast+

section \<open>What is linked stays linked\<close>

lemma d_name_inj: "d_name (description f x) = d_name (description g y) \<longleftrightarrow> f = g"
  by (cases f; cases g) (simp_all add: mod_c_defs)

definition linked :: "(string \<rightharpoonup> 64 word) \<Rightarrow> (kofile \<Rightarrow> kbuild) \<Rightarrow> kofile set \<Rightarrow> bool" where
  "linked K b L \<longleftrightarrow> (\<forall>f\<in>L. list_all (bound K L) (d_versions (description f (b f))))"

lemma bound_insert: "bound K L v \<Longrightarrow> bound K (insert f L) v"
  by (auto simp: bound_def split: prod.splits)

lemma linked_insert: "linked K b L \<Longrightarrow> linkable K b L f \<Longrightarrow> linked K b (insert f L)"
  by (auto simp: linked_def linkable_def list_all_iff intro: bound_insert)

lemma linked_remove:
  assumes "linked K b L" "removable b L f"
  shows "linked K b (L - {f})"
proof -
  have "bound K (L - {f}) (c, nm)"
    if "g \<in> L" "(c, nm) \<in> set (d_versions (description g (b g)))" for g c nm
  proof -
    have "nm \<notin> snd ` set (symvers f)"
      using assms(2) that by (fastforce simp: removable_def uses_def list_ex_iff)
    moreover have "bound K L (c, nm)" using assms(1) that by (auto simp: linked_def list_all_iff)
    ultimately show ?thesis by (auto simp: bound_def) (metis DiffI image_eqI singletonD snd_conv)
  qed
  then show ?thesis by (auto simp: linked_def list_all_iff)
qed

text \<open>Commands for any of the files, whatever their functions do.\<close>

datatype kcommand = K_Insmod kofile | K_Rmmod kofile

fun kstep ::
  "(('s \<Rightarrow> 's \<times> int) \<Rightarrow> kofile \<Rightarrow> 'k \<times> 's \<Rightarrow> 'k \<times> 's) \<Rightarrow> (('s \<Rightarrow> 's) \<Rightarrow> kofile \<Rightarrow> 'k \<times> 's \<Rightarrow> 'k \<times> 's) \<Rightarrow>
   (kofile \<Rightarrow> 's \<Rightarrow> 's \<times> int) \<Rightarrow> (kofile \<Rightarrow> 's \<Rightarrow> 's) \<Rightarrow> kcommand \<Rightarrow> 'k \<times> 's \<Rightarrow> 'k \<times> 's" where
  "kstep ins rm start stop (K_Insmod f) w = ins (start f) f w"
| "kstep ins rm start stop (K_Rmmod f) w = rm (stop f) f w"

lemma kstep_linked:
  assumes "documented_loader K b mods accepts idle ins rm" "linked K b (mods (fst w))"
  shows "linked K b (mods (fst (kstep ins rm start stop c w)))"
proof (cases w)
  case (Pair k s)
  with assms show ?thesis
    by (cases c) (auto simp: loader_laws [OF assms(1)] linked_insert linked_remove)
qed

lemma krun_linked:
  assumes "documented_loader K b mods accepts idle ins rm" "linked K b (mods (fst w))"
  shows "linked K b (mods (fst (fold (kstep ins rm start stop) cs w)))"
  using assms(2) by (induction cs arbitrary: w) (simp_all add: kstep_linked [OF assms(1)])

text \<open>Symbols that no module here exports are those of the kernel.\<close>

lemma linked_kernel:
  assumes "linked K b L" "f \<in> L" "(c, nm) \<in> set (d_versions (description f (b f)))" "nm \<notin> {''md1_data'', ''md1_func''}"
  shows "K nm = Some c"
proof -
  have "bound K L (c, nm)" using assms(1-3) by (auto simp: linked_def list_all_iff)
  moreover have "(c, nm) \<notin> set (symvers g)" for g
    using assms(4) by (cases g) (auto simp: md1_symvers_def)
  ultimately show ?thesis by (auto simp: bound_def)
qed

definition layout_of :: "kofile \<Rightarrow> 64 word" where
  "layout_of f = (if f = Ko_proc_info then 0x6ad771c3 else 0xdc658e53)"

lemma layout_listed: "(layout_of f, ''module_layout'') \<in> set (d_versions (description f x))"
  by (cases f) (simp_all add: mod_c_defs layout_of_def)

lemma linked_foreign:
  assumes "linked K b L" "Ko_proc_info \<in> L"
  shows "L = {Ko_proc_info}"
proof -
  have "layout_of f = layout_of Ko_proc_info" if "f \<in> L" for f
    using linked_kernel [OF assms(1) that layout_listed] linked_kernel [OF assms layout_listed] by simp
  moreover have "f = Ko_proc_info" if "layout_of f = layout_of Ko_proc_info" for f
    using that by (cases f) (simp_all add: layout_of_def)
  ultimately show ?thesis using assms(2) by blast
qed

lemma linked_depends:
  assumes "linked K b L" "f \<in> L" "d_depends (description f (b f)) \<noteq> []" "K ''md1_func'' = None"
  shows "d_depends (description f (b f)) = d_name (description Ko_md1 (b Ko_md1)) \<and> Ko_md1 \<in> L"
proof -
  from assms(3) have f: "d_depends (description f (b f)) = ''md1''" "(0x87b8b540, ''md1_func'') \<in> set (d_versions (description f (b f)))"
    by (cases f; simp add: mod_c_defs)+
  with assms(1,2) have "bound K L (0x87b8b540, ''md1_func'')" by (auto simp: linked_def list_all_iff)
  with assms(4) obtain g where "g \<in> L" "(0x87b8b540, ''md1_func'') \<in> set (symvers g)"
    by (auto simp: bound_def)
  moreover from this(2) have "g = Ko_md1" by (cases g) simp_all
  ultimately show ?thesis using f(1) by (simp add: mod_c_defs)
qed

section \<open>The interacting modules\<close>

fun ko :: "module \<Rightarrow> kofile" where
  "ko Md1 = Ko_md1"
| "ko Md2 = Ko_md2"
| "ko Md3 = Ko_md3"

lemma ko_inj: "ko m = ko m' \<longleftrightarrow> m = m'"
  by (cases m; cases m') simp_all

text \<open>
  The kernel the modules were built for exports what they need of it with the same checksums, does not
  itself export what \<^verbatim>\<open>md1\<close> does, and lets modules be removed.
\<close>

definition built_for :: "(string \<rightharpoonup> 64 word) \<Rightarrow> (kofile \<Rightarrow> kbuild) \<Rightarrow> bool" where
  "built_for K b \<longleftrightarrow> K ''module_layout'' = Some 0xdc658e53 \<and> K ''__x86_return_thunk'' = Some 0x5b8239ca \<and>
     K ''_printk'' = Some 0x92997ed8 \<and> K ''__fentry__'' = Some 0xbdfb6dbb \<and>
     K ''md1_data'' = None \<and> K ''md1_func'' = None \<and> (\<forall>f. config_unload (b f))"

datatype load_command = Insmod module | Rmmod module

fun load_step ::
  "((modules \<Rightarrow> modules \<times> int) \<Rightarrow> kofile \<Rightarrow> 'k \<times> modules \<Rightarrow> 'k \<times> modules) \<Rightarrow>
   ((modules \<Rightarrow> modules) \<Rightarrow> kofile \<Rightarrow> 'k \<times> modules \<Rightarrow> 'k \<times> modules) \<Rightarrow> load_command \<Rightarrow> 'k \<times> modules \<Rightarrow> 'k \<times> modules" where
  "load_step ins rm (Insmod m) w = ins (module_start m) (ko m) w"
| "load_step ins rm (Rmmod m) w = rm (module_exit m) (ko m) w"

lemma symvers_Md1: "v \<in> set (symvers g) \<Longrightarrow> g = Ko_md1"
  by (cases g) simp_all

lemma bound_md1:
  assumes "K nm = None" "(c, nm) \<in> set md1_symvers"
  shows "bound K L (c, nm) \<longleftrightarrow> Ko_md1 \<in> L"
  using assms by (auto simp: bound_def dest: symvers_Md1 intro!: bexI [of _ Ko_md1])

lemma linkable_ko:
  assumes "built_for K b"
  shows "linkable K b L (ko m) \<longleftrightarrow> ko m \<notin> L \<and> (m = Md1 \<or> Ko_md1 \<in> L)"
proof -
  have new: "d_name (description (ko m) (b (ko m))) \<notin> (\<lambda>g. d_name (description g (b g))) ` L \<longleftrightarrow> ko m \<notin> L"
    by (auto simp: d_name_inj)
  have kernel: "bound K L (c, nm)" if "K nm = Some c" for c nm using that by (simp add: bound_def)
  have md1: "bound K L (0xb7ce2cbc, ''md1_data'') \<longleftrightarrow> Ko_md1 \<in> L" "bound K L (0x87b8b540, ''md1_func'') \<longleftrightarrow> Ko_md1 \<in> L"
    using assms by (auto simp: built_for_def md1_symvers_def intro!: bound_md1)
  have versions: "list_all (bound K L) (d_versions (description (ko m) (b (ko m)))) \<longleftrightarrow> m = Md1 \<or> Ko_md1 \<in> L"
    using assms by (cases m) (simp_all add: mod_c_defs md1 kernel built_for_def)
  have "\<not> exported K L nm" if "K nm = None" "Ko_md1 \<notin> L" for nm
    using that symvers_Md1 by (fastforce simp: exported_def)
  then have "list_all (\<lambda>(c, nm). \<not> exported K L nm) (symvers (ko m))" if "ko m \<notin> L"
    using that assms by (cases m) (auto simp: md1_symvers_def built_for_def)
  with new versions show ?thesis by (auto simp: linkable_def)
qed

lemma uses_ko: "uses b g (ko m) \<longleftrightarrow> m = Md1 \<and> (g = Ko_md2 \<or> g = Ko_md3)"
  by (cases m; cases g) (simp_all add: uses_def md1_symvers_def mod_c_defs)

lemma removable_ko:
  assumes "built_for K b"
  shows "removable b L (ko m) \<longleftrightarrow> ko m \<in> L \<and> (m = Md1 \<longrightarrow> Ko_md2 \<notin> L \<and> Ko_md3 \<notin> L)"
proof -
  have "d_exit (description f (b f)) \<noteq> None" for f
    using assms by (cases f) (simp_all add: mod_c_defs built_for_def)
  then show ?thesis by (auto simp: removable_def uses_ko)
qed

text \<open>The users are there only with \<^verbatim>\<open>md1\<close>, and while it is there its variable has its first value.\<close>

definition modules_inv :: "kofile set \<times> modules \<Rightarrow> bool" where
  "modules_inv = (\<lambda>(L, s). (Ko_md2 \<in> L \<or> Ko_md3 \<in> L \<longrightarrow> Ko_md1 \<in> L) \<and> (Ko_md1 \<in> L \<longrightarrow> md1_data s = 7))"

lemma load_step_mods:
  assumes "documented_loader K b mods accepts idle ins rm" "built_for K b"
  shows "mods (fst (load_step ins rm (Insmod m) (k, s))) =
      (if ko m \<notin> mods k \<and> (m = Md1 \<or> Ko_md1 \<in> mods k) \<and> accepts (ko m) k then insert (ko m) (mods k) else mods k)"
    "snd (load_step ins rm (Insmod m) (k, s)) =
      (if ko m \<notin> mods k \<and> (m = Md1 \<or> Ko_md1 \<in> mods k) \<and> accepts (ko m) k then fst (module_start m s) else s)"
    "mods (fst (load_step ins rm (Rmmod m) (k, s))) =
      (if ko m \<in> mods k \<and> (m = Md1 \<longrightarrow> Ko_md2 \<notin> mods k \<and> Ko_md3 \<notin> mods k) \<and> idle (ko m) k then mods k - {ko m} else mods k)"
    "snd (load_step ins rm (Rmmod m) (k, s)) =
      (if ko m \<in> mods k \<and> (m = Md1 \<longrightarrow> Ko_md2 \<notin> mods k \<and> Ko_md3 \<notin> mods k) \<and> idle (ko m) k then module_exit m s else s)"
  using module_start_result [of m s]
  by (simp_all add: loader_laws [OF assms(1)] linkable_ko [OF assms(2)] removable_ko [OF assms(2)])

lemma load_step_inv:
  assumes "documented_loader K b mods accepts idle ins rm" "built_for K b" "modules_inv (mods (fst w), snd w)"
  shows "modules_inv (mods (fst (load_step ins rm c w)), snd (load_step ins rm c w))"
proof -
  obtain k s where w: "w = (k, s)" by (cases w)
  note st = load_step_mods [OF assms(1,2)]
  show ?thesis
  proof (cases c)
    case (Insmod m)
    then show ?thesis
      using assms(3) module_start_data [of m s] unfolding w Insmod modules_inv_def
      by (cases m) (auto simp: st simp del: load_step.simps)
  next
    case (Rmmod m)
    then show ?thesis
      using assms(3) module_exit_log(2) [of m s] unfolding w Rmmod modules_inv_def
      by (cases m) (auto simp: st simp del: load_step.simps)
  qed
qed

lemma load_run_inv:
  assumes "documented_loader K b mods accepts idle ins rm" "built_for K b" "modules_inv (mods (fst w), snd w)"
  shows "modules_inv (mods (fst (fold (load_step ins rm) cs w)), snd (fold (load_step ins rm) cs w))"
  using assms(3) by (induction cs arbitrary: w) (simp_all add: load_step_inv [OF assms(1,2)] del: load_step.simps)

section \<open>A kernel\<close>

text \<open>One that accepts everything, for the builds of a common configuration.\<close>

definition lab_kernel :: "string \<rightharpoonup> 64 word" where
  "lab_kernel = [''module_layout'' \<mapsto> 0xdc658e53, ''__x86_return_thunk'' \<mapsto> 0x5b8239ca, ''_printk'' \<mapsto> 0x92997ed8,
     ''__fentry__'' \<mapsto> 0xbdfb6dbb]"

definition lab_build :: "kofile \<Rightarrow> kbuild" where
  "lab_build f = \<lparr>vermagic_string = [], config_unload = True, config_retpoline = True\<rparr>"

definition lab_ins :: "(string \<rightharpoonup> 64 word) \<Rightarrow> ('s \<Rightarrow> 's \<times> int) \<Rightarrow> kofile \<Rightarrow> kofile set \<times> 's \<Rightarrow> kofile set \<times> 's" where
  "lab_ins K start f = (\<lambda>(L, s).
     if linkable K lab_build L f then (if snd (start s) < 0 then L else insert f L, fst (start s)) else (L, s))"

definition lab_rm :: "('s \<Rightarrow> 's) \<Rightarrow> kofile \<Rightarrow> kofile set \<times> 's \<Rightarrow> kofile set \<times> 's" where
  "lab_rm stop f = (\<lambda>(L, s). if removable lab_build L f then (L - {f}, stop s) else (L, s))"

lemma lab_loader: "documented_loader K lab_build (\<lambda>L. L) (\<lambda>_ _. True) (\<lambda>_ _. True) (lab_ins K) lab_rm"
  by (simp add: documented_loader_def lab_ins_def lab_rm_def)

lemma lab_built_for: "built_for lab_kernel lab_build"
  by (simp add: built_for_def lab_kernel_def lab_build_def)

section \<open>Properties\<close>

text \<open>
  C29: Whatever symbols the kernel exports, and whatever is loaded and unloaded in whatever order, under a loader that checks
  symbol versions: the module of \<^verbatim>\<open>4/proc_info\<close> was built for another kernel than the rest, so that it is never
  loaded together with any other of the modules. And if the kernel does not itself export \<^verbatim>\<open>md1_func\<close>, every module that
  is loaded has the module its description names under \<^verbatim>\<open>depends\<close> loaded with it.
\<close>

theorem foreign_module_alone:
  assumes "documented_loader K b mods accepts idle ins rm" "mods k = {}"
  shows "let L = mods (fst (fold (kstep ins rm start stop) cs (k, s))) in
   (Ko_proc_info \<in> L \<longrightarrow> L = {Ko_proc_info}) \<and>
   (K ''md1_func'' = None \<longrightarrow> (\<forall>f\<in>L.
     d_depends (description f (b f)) \<in> insert [] ((\<lambda>g. d_name (description g (b g))) ` L)))"
proof -
  have "linked K b (mods (fst (k, s)))" using assms(2) by (simp add: linked_def)
  note l = krun_linked [OF assms(1) this, of start stop cs]
  show ?thesis
    using linked_foreign [OF l] linked_depends [OF l] unfolding Let_def by blast
qed

theorem foreign_module_alone_witness:
  "let K = map_of (map prod.swap (d_versions (description Ko_proc_info (lab_build Ko_proc_info)))) in
   fst (fold (kstep (lab_ins K) lab_rm (\<lambda>_ s. (s, 0)) (\<lambda>_ s. s)) [K_Insmod Ko_proc_info, K_Insmod Ko_fortune] ({}, ())) = {Ko_proc_info}"
proof -
  define K where "K = map_of (map prod.swap (d_versions (description Ko_proc_info (lab_build Ko_proc_info))))"
  let ?ks = "kstep (lab_ins K) lab_rm (\<lambda>_ s. (s, 0)) (\<lambda>_ s. s)"
  let ?w = "fold ?ks [K_Insmod Ko_proc_info, K_Insmod Ko_fortune] ({}, ())"
  have "linkable K lab_build {} Ko_proc_info"
    by (simp add: linkable_def bound_def K_def mod_c_defs)
  then have "Ko_proc_info \<in> fst ?w"
    by (simp add: lab_ins_def)
  then show ?thesis
    using foreign_module_alone [OF lab_loader [of K], of "{}" "\<lambda>_ s. (s, 0)" "\<lambda>_ s. s"
        "[K_Insmod Ko_proc_info, K_Insmod Ko_fortune]" "()"]
    unfolding Let_def K_def [symmetric] by blast
qed

text \<open>
  C27: On a kernel the interacting modules were built for, with a loader that checks symbol versions, after any commands: a user of
  \<^verbatim>\<open>md1\<close> is there only with it. A command to load a module that the kernel accepts succeeds exactly
  if the module is not there yet and is \<^verbatim>\<open>md1\<close> or finds it loaded, and logs its start and, for a user, the value 7 of the variable and the
  value 21 of the function, although each of them could write the variable; a command to unload one that is idle succeeds exactly
  if it is there and no user of it is, and logs that; any other command does nothing.
\<close>

theorem interacting_modules:
  assumes "documented_loader K b mods accepts idle ins rm" "built_for K b" "mods k0 \<inter> range ko = {}"
    and "fold (load_step ins rm) cs (k0, s0) = (k, s)"
  shows "(Ko_md2 \<in> mods k \<or> Ko_md3 \<in> mods k \<longrightarrow> Ko_md1 \<in> mods k) \<and>
    (\<lambda>(k', s'). (mods k', klog s') =
       (if ko m \<notin> mods k \<and> (m = Md1 \<or> Ko_md1 \<in> mods k) \<and> accepts (ko m) k
        then (insert (ko m) (mods k), klog s @ start_lines m) else (mods k, klog s))) (load_step ins rm (Insmod m) (k, s)) \<and>
    (\<lambda>(k', s'). (mods k', klog s') =
       (if ko m \<in> mods k \<and> (m = Md1 \<longrightarrow> Ko_md2 \<notin> mods k \<and> Ko_md3 \<notin> mods k) \<and> idle (ko m) k
        then (mods k - {ko m}, klog s @ [exit_line m]) else (mods k, klog s))) (load_step ins rm (Rmmod m) (k, s))"
proof -
  have "ko m \<notin> mods k0" for m using assms(3) by auto
  from this [of Md1] this [of Md2] this [of Md3]
  have "modules_inv (mods (fst (k0, s0)), snd (k0, s0))" by (simp add: modules_inv_def)
  from load_run_inv [OF assms(1,2) this, of cs]
  have inv: "modules_inv (mods k, s)" by (simp add: assms(4))
  note st = load_step_mods [OF assms(1,2), of _ k s]
  have "m = Md1 \<or> md1_data s = 7" if "m = Md1 \<or> Ko_md1 \<in> mods k" using inv that by (auto simp: modules_inv_def)
  note lines = module_start_log [OF this]
  show ?thesis
    using inv unfolding case_prod_beta st
    by (auto simp: modules_inv_def lines module_exit_log(1))
qed

theorem interacting_modules_witness:
  "klog (snd (fold (load_step (lab_ins lab_kernel) lab_rm) [Insmod Md1, Insmod Md3] ({}, \<lparr>klog = [], calls = [], md1_data = 0\<rparr>))) =
     [''+ module md1 start!'', ''+ module md3 start!'', ''+ data int exported from md1 : 7'', ''+ number returned md1_func() is : 21'']"
proof -
  let ?step = "load_step (lab_ins lab_kernel) lab_rm" and ?s0 = "\<lparr>klog = [], calls = [], md1_data = 0\<rparr>"
  note claim = interacting_modules [OF lab_loader lab_built_for, of "{}"]
  obtain L s where 1: "?step (Insmod Md1) ({}, ?s0) = (L, s)" by (cases "?step (Insmod Md1) ({}, ?s0)")
  have "fold ?step [] ({}, ?s0) = ({}, ?s0)" by simp
  from claim [OF _ this, of Md1] have L: "L = {Ko_md1}" "klog s = [''+ module md1 start!'']"
    unfolding 1 by simp_all
  obtain L' s' where 2: "?step (Insmod Md3) (L, s) = (L', s')" by (cases "?step (Insmod Md3) (L, s)")
  have run: "fold ?step [Insmod Md1] ({}, ?s0) = (L, s)" by (simp only: fold.simps comp_apply id_apply 1)
  from claim [OF _ run, of Md3] have "klog s' = klog s @ start_lines Md3"
    unfolding 2 by (simp add: L)
  then show ?thesis
    unfolding fold.simps comp_apply id_apply 1 2 snd_conv L(2) by (simp only: start_lines.simps append_Cons append_Nil)
qed

end
