(* ===== verification/Spec2Isabelle.thy ===== *)
theory Spec2Isabelle
  imports Bakery_Lost Bakery_Typed Bakery_Wire Proc_Files Vfs_Mounts
    Open_File_Programs Listing_Programs Catalog_Memory Proc_Reader Print_Server Respond_Server Epoll_Server Socket_Pair
    Module_Versions
begin

text \<open>
  A verification development for the operating-systems laboratory programs under src/: small
  independent C programs, servers and Linux kernel modules. This theory only gathers the parts;
  every part has a theory of its own, which opens with what it models.

  \<^bold>\<open>Foundations.\<close> Prelude: C arrays with faults for accesses outside them, NUL-terminated strings,
  \<^verbatim>\<open>%d\<close>, reachable states, and the locale \<^verbatim>\<open>step_invariant\<close> through which the invariant of a step
  relation is lifted to its reachable states. Char_Buffers: the fixed buffers of the socket programs.
  Kernel_Calls: the log of \<^verbatim>\<open>printk\<close>, the record of acquired and released kernel resources, and the
  locales \<^verbatim>\<open>exiting_module\<close> and \<^verbatim>\<open>balanced_module\<close> of modules that give back what they took. Tasks and
  Keys: the fields of a task, the key table. Open_Files: descriptors, descriptions and streams.

  \<^bold>\<open>Ticket servers\<close> (3/proc/bakery1, 3/proc/bakery2). Bakery_RPC models the record that is passed, its
  encoding, client stubs and dispatch (bakery.h, bakery_xdr.c, bakery_clnt.c, bakery_svc.c). Bakery_Multi
  has the server with one thread per service (bakery1/bakery_server.c): its state is the record
  \<^verbatim>\<open>server\<close> of the global arrays and threads, its operations are split into the steps between which the
  threads and the dispatcher can interleave; the repeated reads of one round of the maximum loop, and those of one
  test of the second waiting loop, are one step. Bakery_Structure and Bakery_Order hold the invariants
  (who is where, whose turn it is), Letters and Bakery_Letters the letters handed out, and
  Bakery_Service the system of server, dispatcher and clients with the properties: mutual
  exclusion, order of service, the reply, progress (Bakery_Runs counts the steps a thread has left),
  deadlock, bounds. Bakery_Typed shows that every value the system stores is one of its C type.
  Bakery_Retry and Bakery_Lost add calls that arrive twice, as they can over UDP: mutual exclusion is
  lost, and a ticket nobody waits for blocks all later ones. Bakery_Mono is the
  single-threaded server (bakery2/bakery_server.c). Bakery_Programs has the programs around the
  handlers, each a function over the records \<^verbatim>\<open>rpclib\<close> and \<^verbatim>\<open>portlib\<close> of the library calls it makes: both
  clients from \<^verbatim>\<open>main\<close> on (bakery_client.c) and the start of the servers (main in bakery_svc.c).
  Bakery_Wire connects clients and servers through the stubs, the encoding and the dispatch.

  \<^bold>\<open>Kernel modules.\<close> Fortune (6/fortunka/fortune.c): the cookie pot, refined to a list of cookies.
  Seq_File and Single_File (6/seq_files): the iterator over positions, and the module with one
  record. Tasks (4/proc_info/md.c): the walk over the task list. Myfs and My_Vfs (7/vfs): superblock,
  mounting, slab cache; Vfs_Mounts has the tables they register with the kernel and the step relation of mounting and
  unmounting through these, any number of times (locale \<^verbatim>\<open>file_system\<close>). Tasklet and Work_Queue (9/interrupts): interrupt handler, deferred work, and
  loading in stages, so that an interrupt can come between any two; the work items too go in stages, one for each
  time they read the scan code. Modules (5/interactive_module):
  three modules, two of which use a variable and a function of the first. Module_Versions has the descriptions the build left beside
  the modules (*.mod.c, Module.symvers): eight tables of symbols with checksums, and, over a loader that is an
  argument, which modules can be there together and what the interacting ones log. Proc_Files has the tables of file operations of the five modules with a
  file in /proc, and sessions of system calls that reach the modules through them (locale
  \<^verbatim>\<open>proc_file\<close>): what they leave behind, and what is read after a write. Each operation of a module is a function of its state record,
  which extends the record of Kernel_Calls; whether a call of the kernel succeeds is an argument.

  \<^bold>\<open>Programs.\<close> Open_File_Programs and Open_File_Threads (8/open_file/src): reading and writing one
  file through several streams; the locale \<^verbatim>\<open>two_threads\<close> gives the threads' common proof.
  Thread_Process adds the main thread, which creates and joins the two others (locale
  \<^verbatim>\<open>joining_process\<close>), and Thread_Programs the mains of the four threaded programs as such processes.
  Listing_Programs has the programs the report prints (8/open_file/report/inc/lst) where they differ
  from the sources. Catalog
  (1/catalog): two directory walks and the report; Catalog_Memory: the first walk with \<^verbatim>\<open>malloc\<close> and \<^verbatim>\<open>realloc\<close> that can
  fail, and the limits it asks the system for. Proc_Reader (3/proc/main.c): the /proc reader.

  \<^bold>\<open>Sockets\<close> (2/). Print_Server and Respond_Server: the datagram servers and their clients;
  Epoll_Server: the stream server and its client; Socket_Pair: parent and child over a pair of
  sockets, under every interleaving, and with a child that a signal ends. What arrives, and what each call returns, is an argument.

  \<^bold>\<open>Assumptions.\<close> Memory is sequentially consistent. A remote call is delivered
  exactly once, except in Bakery_Retry and Bakery_Lost. What Bakery_Wire relies on of the RPC library
  has a name there: \<^verbatim>\<open>delivers\<close> (a call encodes, is dispatched once, and its reply is decoded), \<^verbatim>\<open>codecs\<close>
  (the XDR primitives read back what they wrote) and \<^verbatim>\<open>portmapper_laws\<close>; those of the
  kernel's \<^verbatim>\<open>seq_file\<close> library are \<^verbatim>\<open>seqlib_laws\<close> and \<^verbatim>\<open>one_record\<close> in Proc_Files, those of the VFS \<^verbatim>\<open>shutdown_law\<close> and \<^verbatim>\<open>mount_law\<close> in Vfs_Mounts. The witnesses instantiate
  them. What Module_Versions relies on of the kernel's loader is \<^verbatim>\<open>documented_loader\<close>: that of a kernel with
  \<^verbatim>\<open>CONFIG_MODVERSIONS\<close> on which nothing is forced; which symbols it exports is arbitrary. A bound
  socket name is a file, and binding fails if it exists. \<^verbatim>\<open>recvfrom\<close> stores at most \<^verbatim>\<open>addrlen\<close> bytes of the
  address and then sets \<^verbatim>\<open>addrlen\<close> to its length. The file tree does not change while it is walked; \<^verbatim>\<open>lstat\<close> and \<^verbatim>\<open>opendir\<close> fail
  for want of permission, for a name longer than \<^verbatim>\<open>NAME_MAX\<close>, for a path of \<^verbatim>\<open>PATH_MAX\<close> bytes or more, and \<^verbatim>\<open>opendir\<close>
  also when the process has no descriptor left, of which it has a number that is an argument.
  Memory nothing was stored in is an argument of the functions that can show it, or a fault where
  it is used. Messages of \<^verbatim>\<open>printk\<close> are recorded without level and newline; messages of \<^verbatim>\<open>perror\<close>, which go
  to another stream, are left out.

  \<^bold>\<open>Bounds.\<close> Loops that follow data recurse on the data. The loop over pages and the two-threaded
  loops of \<^verbatim>\<open>2_thread.c\<close> may run for ever and are partial functions or schedules; the theorems say when
  they end. A pass of the sequence file needs as many rounds as positions are left; both directory walks recurse on
  the descriptors that are left and on the tree, so they always end; a schedule of the threads must run each thread often
  enough, which the theorems state. The exchange over the socket pair takes nine steps.

  \<^bold>\<open>What the lemmas show.\<close> For each component: that its invariant is kept by every operation; what
  every operation does on every branch, errors included; where the code has a clear purpose, that
  it refines an abstract description (a list of cookies, pending keys, files by type); that loops
  end, or exactly when they do not. Where the code leaves its buffers, loses data or leaks a
  resource, the theorem says under which condition.

  \<^bold>\<open>Not modelled.\<close> The copies of the ticket server in 3/proc and of 1.c, 2.c and 3.c in
  8/open_file/report, the library structures printed there (IOFILE.c, structstat.c), the salt in
  the module descriptions, the module binaries, how the other threads of 3_thread.c could still run while
  the process exits, and how \<^verbatim>\<open>printf\<close> writes a percentage (an argument).
\<close>

end
